(* ===== verification/Fx_Prelude.thy ===== *)
theory Fx_Prelude
  imports Main
begin

text \<open>
  What the components share: the faults an operation can end in, the result type that
  carries them, the fixed-width arithmetic of the platform (LP64), and lemmas on
  overwriting a stretch of a byte array.

  A C++ operation that cannot finish (a failed \<open>assert\<close>, a thrown exception nobody
  catches, an access outside an object) is a value \<open>Inl fault\<close>; a finished one is
  \<open>Inr\<close> of its result together with the new state. The repository's build script
  builds with build type \<open>debug\<close>, so \<open>NDEBUG\<close> is not defined and every \<open>assert\<close> of the
  source is evaluated; the model does the same.
\<close>

section \<open>Faults and results\<close>

datatype fault =
    Assertion_failed
  | Length_error
  | Out_of_bounds
  | Null_dereference
  | Bad_any_cast
  | Bad_function_call
  | Check_failed
  | Bad_lexical_cast
  | Signed_overflow

type_synonym 'a result = "fault + 'a"

text \<open>Sequencing: a fault ends the whole operation.\<close>

definition andthen :: "'a result \<Rightarrow> ('a \<Rightarrow> 'b result) \<Rightarrow> 'b result" where
  "andthen r f = (case r of Inl e \<Rightarrow> Inl e | Inr x \<Rightarrow> f x)"

text \<open>The statement \<open>assert(c)\<close> followed by the rest of the operation.\<close>

definition asserting :: "bool \<Rightarrow> 'a result \<Rightarrow> 'a result" where
  "asserting c r = (if c then r else Inl Assertion_failed)"

named_theorems outcome "rewriting results of operations"

lemma andthen_Inr [simp, outcome]: "andthen (Inr x) f = f x"
  by (simp add: andthen_def)

lemma andthen_Inl [simp, outcome]: "andthen (Inl e) f = Inl e"
  by (simp add: andthen_def)

lemma asserting_True [simp, outcome]: "asserting True r = r"
  by (simp add: asserting_def)

lemma asserting_False [simp, outcome]: "asserting False r = Inl Assertion_failed"
  by (simp add: asserting_def)

lemma asserting_Inr_iff [simp]: "asserting c r = Inr x \<longleftrightarrow> c \<and> r = Inr x"
  by (simp add: asserting_def)

lemma andthen_Inr_iff: "andthen r f = Inr y \<longleftrightarrow> (\<exists>x. r = Inr x \<and> f x = Inr y)"
  by (cases r) auto

lemma andthen_InrE:
  assumes "andthen r f = Inr y"
  obtains x where "r = Inr x" and "f x = Inr y"
  using assms by (auto simp: andthen_Inr_iff)

lemma andthen_assoc: "andthen (andthen r f) g = andthen r (\<lambda>x. andthen (f x) g)"
  by (cases r) auto

section \<open>Operations that may not end\<close>

text \<open>
  An operation with a loop that may not end returns an \<open>option\<close>: \<open>None\<close> means that it
  does not return. \<open>then_run\<close> is its sequencing.
\<close>

type_synonym 'a run = "'a result option"

definition then_run :: "'a run \<Rightarrow> ('a \<Rightarrow> 'b run) \<Rightarrow> 'b run" where
  "then_run r f = (case r of None \<Rightarrow> None | Some (Inl e) \<Rightarrow> Some (Inl e) | Some (Inr x) \<Rightarrow> f x)"

lemma then_run_simps [simp, outcome]:
  "then_run None f = None"
  "then_run (Some (Inl e)) f = Some (Inl e)"
  "then_run (Some (Inr x)) f = f x"
  by (simp_all add: then_run_def)

lemma then_run_bind:
  "then_run r g = Option.bind r (\<lambda>y. case y of Inl e \<Rightarrow> Some (Inl e) | Inr x \<Rightarrow> g x)"
  by (simp add: then_run_def split: option.splits)

lemma then_run_mono [partial_function_mono]:
  assumes "mono_option F" "\<And>x. mono_option (\<lambda>f. G x f)"
  shows "mono_option (\<lambda>f. then_run (F f) (\<lambda>x. G x f))"
  unfolding then_run_bind
proof (intro bind_mono assms)
  fix y :: "fault + 'c"
  show "mono_option (\<lambda>f. case y of Inl e \<Rightarrow> Some (Inl e) | Inr x \<Rightarrow> G x f)"
    using assms(2) by (cases y) (simp_all add: option.const_mono)
qed

section \<open>Machine arithmetic\<close>

text \<open>
  \<open>size_t\<close> and \<open>uint64_t\<close> values are naturals below \<open>2 ^ 64\<close>; their sums wrap.
  \<open>int\<close> values are integers in \<open>[- 2 ^ 31, 2 ^ 31)\<close>; a conversion to \<open>int\<close> keeps the low
  32 bits (what the compilers the repository names do).
\<close>

definition size_add :: "nat \<Rightarrow> nat \<Rightarrow> nat" where
  "size_add a b = (a + b) mod 2 ^ 64"

definition size_mul :: "nat \<Rightarrow> nat \<Rightarrow> nat" where
  "size_mul a b = (a * b) mod 2 ^ 64"

definition to_int32 :: "int \<Rightarrow> int" where
  "to_int32 z = (z + 2 ^ 31) mod 2 ^ 32 - 2 ^ 31"

definition to_uint32 :: "int \<Rightarrow> nat" where
  "to_uint32 z = nat (z mod 2 ^ 32)"

text \<open>Evaluation keeps the modulus in \<open>int\<close>, where numerals are binary.\<close>

lemma size_add_code [code]: "size_add a b = nat ((int a + int b) mod 2 ^ 64)"
  by (simp add: size_add_def nat_mod_distrib nat_add_distrib)

lemma size_mul_code [code]: "size_mul a b = nat ((int a * int b) mod 2 ^ 64)"
  by (simp add: size_mul_def nat_mod_distrib nat_mult_distrib)

lemma size_add_exact [simp]: "a + b < 2 ^ 64 \<Longrightarrow> size_add a b = a + b"
  by (simp add: size_add_def)

lemma size_mul_exact [simp]: "a * b < 2 ^ 64 \<Longrightarrow> size_mul a b = a * b"
  by (simp add: size_mul_def)

lemma to_int32_exact [simp]: "- (2 ^ 31) \<le> z \<Longrightarrow> z < 2 ^ 31 \<Longrightarrow> to_int32 z = z"
  by (simp add: to_int32_def)

lemma to_int32_range: "- (2 ^ 31) \<le> to_int32 z \<and> to_int32 z < 2 ^ 31"
proof -
  have "0 \<le> (z + 2 ^ 31) mod 2 ^ 32" and "(z + 2 ^ 31) mod 2 ^ 32 < (2::int) ^ 32"
    by simp_all
  then show ?thesis by (simp add: to_int32_def)
qed

text \<open>How a stream prints an \<open>unsigned\<close>.\<close>

fun decimal :: "nat \<Rightarrow> string" where
  "decimal n = (if n < 10 then [char_of (48 + n)] else decimal (n div 10) @ [char_of (48 + n mod 10)])"

declare decimal.simps [simp del]

text \<open>Reading digits.\<close>

definition digit_value :: "char \<Rightarrow> nat option" where
  "digit_value c = (let n = of_char c in if 48 \<le> n \<and> n \<le> 57 then Some (n - 48) else None)"

fun digits_value :: "string \<Rightarrow> nat \<Rightarrow> nat option" where
  "digits_value [] n = Some n"
| "digits_value (c # cs) n =
     (case digit_value c of None \<Rightarrow> None | Some d \<Rightarrow> digits_value cs (10 * n + d))"

lemma decimal_digits: "\<forall>c \<in> set (decimal n). 48 \<le> (of_char c :: nat) \<and> of_char c \<le> (57 :: nat)"
proof (induction n rule: decimal.induct)
  case (1 n)
  then show ?case by (subst decimal.simps) auto
qed

lemma decimal_not_Nil [simp]: "decimal n \<noteq> []"
  by (subst decimal.simps) simp

lemma digits_value_append:
  "digits_value (xs @ ys) n = (case digits_value xs n of None \<Rightarrow> None | Some m \<Rightarrow> digits_value ys m)"
  by (induction xs arbitrary: n) (auto split: option.splits)

lemma digit_value_char: "d < 10 \<Longrightarrow> digit_value (char_of (48 + d)) = Some d"
  by (simp add: digit_value_def Let_def)

lemma digits_value_decimal: "digits_value (decimal n) 0 = Some n"
proof (induction n rule: decimal.induct)
  case (1 n)
  show ?case
  proof (cases "n < 10")
    case True
    then show ?thesis by (subst decimal.simps) (simp add: digit_value_char)
  next
    case False
    then have "digits_value (decimal (n div 10)) 0 = Some (n div 10)" using 1 by simp
    then show ?thesis
      using False by (subst decimal.simps) (simp add: digits_value_append digit_value_char)
  qed
qed

text \<open>What \<open>c_str()\<close> hands to the system ends at the first NUL.\<close>

definition c_str :: "string \<Rightarrow> string" where
  "c_str s = takeWhile (\<lambda>c. c \<noteq> CHR 0x00) s"

section \<open>Overwriting part of an array\<close>

text \<open>
  \<open>overwrite xs i ys\<close> is the array after \<open>memcpy(xs + i, ys, length ys)\<close>. The operations
  check the bounds themselves; within them the length does not change.
\<close>

definition overwrite :: "'a list \<Rightarrow> nat \<Rightarrow> 'a list \<Rightarrow> 'a list" where
  "overwrite xs i ys = take i xs @ ys @ drop (i + length ys) xs"

named_theorems array_simps "lengths and elements of overwritten arrays"

lemma length_overwrite [simp, array_simps]:
  "i + length ys \<le> length xs \<Longrightarrow> length (overwrite xs i ys) = length xs"
  by (simp add: overwrite_def)

lemma overwrite_Nil [simp, array_simps]: "overwrite xs i [] = xs"
  by (simp add: overwrite_def)

lemma nth_overwrite [array_simps]:
  assumes "i + length ys \<le> length xs" "k < length xs"
  shows "overwrite xs i ys ! k = (if i \<le> k \<and> k < i + length ys then ys ! (k - i) else xs ! k)"
  using assms by (auto simp: overwrite_def nth_append min_def)

lemma take_overwrite [simp, array_simps]:
  "i + length ys \<le> length xs \<Longrightarrow> take i (overwrite xs i ys) = take i xs"
  by (simp add: overwrite_def)

lemma take_drop_overwrite:
  assumes "i \<le> j" "j + length ys \<le> length xs"
  shows "take (j + length ys - i) (drop i (overwrite xs j ys)) = take (j - i) (drop i xs) @ ys"
proof -
  have "drop i (overwrite xs j ys) = take (j - i) (drop i xs) @ ys @ drop (j + length ys) xs"
    using assms by (simp add: overwrite_def drop_take min_def)
  moreover have "length (take (j - i) (drop i xs)) = j - i"
    using assms by simp
  ultimately show ?thesis using assms by simp
qed

end
