(* ===== verification/Queues.thy ===== *)
theory Queues
  imports Fx_Prelude
begin

text \<open>
  The two first-in first-out contracts the program relies on, as interfaces.
  \<open>chunk_queue\<close> is a growing byte queue: elements go in and come out in runs of any
  length (the I/O buffer between a socket and a codec). \<open>message_queue\<close> holds whole
  messages (the ring buffer between two processes). Each interface comes with a runner
  for a sequence of operations and with the lemma that nothing is lost, duplicated or
  reordered by any such sequence.
\<close>

section \<open>Byte queues\<close>

datatype 'a chunk_op = Put "'a list" | Take nat

text \<open>Runs a sequence of operations; the first component collects what was taken out.\<close>

fun chunk_run ::
  "('s \<Rightarrow> 'a list \<Rightarrow> 's result) \<Rightarrow> ('s \<Rightarrow> nat \<Rightarrow> 's result) \<Rightarrow> ('s \<Rightarrow> 'a list)
    \<Rightarrow> 'a chunk_op list \<Rightarrow> 's \<Rightarrow> ('a list \<times> 's) result" where
  "chunk_run app con cont [] q = Inr ([], q)"
| "chunk_run app con cont (Put xs # ops) q = andthen (app q xs) (chunk_run app con cont ops)"
| "chunk_run app con cont (Take n # ops) q =
     andthen (con q n) (\<lambda>q'.
       andthen (chunk_run app con cont ops q') (\<lambda>(out, q'').
         Inr (take n (cont q) @ out, q'')))"

fun puts :: "'a chunk_op list \<Rightarrow> 'a list" where
  "puts [] = []"
| "puts (Put xs # ops) = xs @ puts ops"
| "puts (Take n # ops) = puts ops"

text \<open>No operation of the sequence takes more than is there.\<close>

fun takes_fit :: "nat \<Rightarrow> 'a chunk_op list \<Rightarrow> bool" where
  "takes_fit have [] = True"
| "takes_fit have (Put xs # ops) = takes_fit (have + length xs) ops"
| "takes_fit have (Take n # ops) = (n \<le> have \<and> takes_fit (have - n) ops)"

locale chunk_queue =
  fixes ok :: "'s \<Rightarrow> bool"
    and cont :: "'s \<Rightarrow> 'a list"
    and space :: "'s \<Rightarrow> nat"
    and app :: "'s \<Rightarrow> 'a list \<Rightarrow> 's result"
    and con :: "'s \<Rightarrow> nat \<Rightarrow> 's result"
  assumes app_law: "ok q \<Longrightarrow> length xs \<le> space q \<Longrightarrow>
      \<exists>q'. app q xs = Inr q' \<and> ok q' \<and> cont q' = cont q @ xs \<and> space q - length xs \<le> space q'"
    and con_law: "ok q \<Longrightarrow> n \<le> length (cont q) \<Longrightarrow>
      \<exists>q'. con q n = Inr q' \<and> ok q' \<and> cont q' = drop n (cont q) \<and> space q \<le> space q'"
begin

lemma run_conserves:
  assumes "ok q" and "length (puts ops) \<le> space q" and "takes_fit (length (cont q)) ops"
  shows "\<exists>out q'. chunk_run app con cont ops q = Inr (out, q') \<and> ok q' \<and>
           out @ cont q' = cont q @ puts ops"
  using assms
proof (induction ops arbitrary: q)
  case Nil
  then show ?case by simp
next
  case (Cons oper ops)
  show ?case
  proof (cases oper)
    case (Put xs)
    with Cons.prems have fits: "length xs \<le> space q" by simp
    from app_law [OF Cons.prems(1) fits]
    obtain q1 where q1: "app q xs = Inr q1" "ok q1" "cont q1 = cont q @ xs"
      "space q - length xs \<le> space q1" by blast
    have "length (puts ops) \<le> space q1" and "takes_fit (length (cont q1)) ops"
      using Cons.prems(2,3) Put q1(3,4) by auto
    from Cons.IH [OF q1(2) this] show ?thesis
      using Put q1(1,3) by fastforce
  next
    case (Take n)
    with Cons.prems have fits: "n \<le> length (cont q)" by simp
    from con_law [OF Cons.prems(1) fits]
    obtain q1 where q1: "con q n = Inr q1" "ok q1" "cont q1 = drop n (cont q)"
      "space q \<le> space q1" by blast
    have "length (puts ops) \<le> space q1" and "takes_fit (length (cont q1)) ops"
      using Cons.prems(2,3) Take q1(3,4) by auto
    from Cons.IH [OF q1(2) this] obtain out q' where
      r: "chunk_run app con cont ops q1 = Inr (out, q')" "ok q'"
         "out @ cont q' = cont q1 @ puts ops" by blast
    have "(take n (cont q) @ out) @ cont q' = cont q @ puts (oper # ops)"
      using r(3) q1(3) Take by (metis append.assoc append_take_drop_id puts.simps(3))
    then show ?thesis using Take q1(1) r(1,2) by simp
  qed
qed

end

section \<open>Message queues\<close>

datatype 'm queue_op = Send 'm | Receive

text \<open>
  Runs a sequence of operations and collects the messages accepted and the messages
  received. A refused message is dropped, as the callers of \<open>Push\<close> are told by its result.
\<close>

fun queue_run ::
  "('s \<Rightarrow> 'm \<Rightarrow> (bool \<times> 's) result) \<Rightarrow> ('s \<Rightarrow> ('m option \<times> 's) result)
    \<Rightarrow> 'm queue_op list \<Rightarrow> 's \<Rightarrow> ('m list \<times> 'm list \<times> 's) result" where
  "queue_run push pop [] q = Inr ([], [], q)"
| "queue_run push pop (Send m # ops) q =
     andthen (push q m) (\<lambda>(b, q'). andthen (queue_run push pop ops q') (\<lambda>(sent, got, q'').
       Inr (if b then m # sent else sent, got, q'')))"
| "queue_run push pop (Receive # ops) q =
     andthen (pop q) (\<lambda>(r, q'). andthen (queue_run push pop ops q') (\<lambda>(sent, got, q'').
       Inr (sent, case r of None \<Rightarrow> got | Some m \<Rightarrow> m # got, q'')))"

text \<open>Every message of the sequence meets the provider's condition at the moment it is sent.\<close>

fun sends_fit ::
  "('s \<Rightarrow> 'm \<Rightarrow> bool) \<Rightarrow> ('s \<Rightarrow> 'm \<Rightarrow> (bool \<times> 's) result) \<Rightarrow> ('s \<Rightarrow> ('m option \<times> 's) result)
    \<Rightarrow> 'm queue_op list \<Rightarrow> 's \<Rightarrow> bool" where
  "sends_fit fits push pop [] q = True"
| "sends_fit fits push pop (Send m # ops) q =
     (fits q m \<and> (case push q m of Inl _ \<Rightarrow> False | Inr (_, q') \<Rightarrow> sends_fit fits push pop ops q'))"
| "sends_fit fits push pop (Receive # ops) q =
     (case pop q of Inl _ \<Rightarrow> False | Inr (_, q') \<Rightarrow> sends_fit fits push pop ops q')"

locale message_queue =
  fixes rep :: "'s \<Rightarrow> 'm list \<Rightarrow> bool"
    and fits :: "'s \<Rightarrow> 'm \<Rightarrow> bool"
    and push :: "'s \<Rightarrow> 'm \<Rightarrow> (bool \<times> 's) result"
    and pop :: "'s \<Rightarrow> ('m option \<times> 's) result"
  assumes push_law: "rep q ms \<Longrightarrow> fits q m \<Longrightarrow>
      \<exists>b q'. push q m = Inr (b, q') \<and> rep q' (if b then ms @ [m] else ms)"
    and pop_law: "rep q ms \<Longrightarrow>
      \<exists>q'. pop q = Inr (case ms of [] \<Rightarrow> None | m # _ \<Rightarrow> Some m, q') \<and> rep q' (tl ms)"
begin

lemma run_fifo:
  assumes "rep q ms" and "sends_fit fits push pop ops q"
  shows "\<exists>sent got q' ms'. queue_run push pop ops q = Inr (sent, got, q') \<and> rep q' ms' \<and>
           got @ ms' = ms @ sent"
  using assms
proof (induction ops arbitrary: q ms)
  case Nil
  then show ?case by auto
next
  case (Cons oper ops)
  show ?case
  proof (cases oper)
    case (Send m)
    with Cons.prems have v: "fits q m" by simp
    from push_law [OF Cons.prems(1) v] obtain b q1 where
      q1: "push q m = Inr (b, q1)" "rep q1 (if b then ms @ [m] else ms)" by blast
    have "sends_fit fits push pop ops q1" using Cons.prems(2) Send q1(1) by simp
    from Cons.IH [OF q1(2) this] show ?thesis
      using Send q1(1) by (cases b) fastforce+
  next
    case Receive
    from pop_law [OF Cons.prems(1)] obtain q1 where
      q1: "pop q = Inr (case ms of [] \<Rightarrow> None | m # _ \<Rightarrow> Some m, q1)" "rep q1 (tl ms)"
      by blast
    have "sends_fit fits push pop ops q1" using Cons.prems(2) Receive q1(1) by simp
    from Cons.IH [OF q1(2) this] show ?thesis
      using Receive q1(1) by (cases ms) fastforce+
  qed
qed

end

end
