(* ===== verification/Io_Buffer.thy ===== *)
theory Io_Buffer
  imports Queues
begin

text \<open>
  The I/O buffer \<open>fx::Buffer\<close> (include/fx_buffer.h, src/fx_buffer.cc): a \<open>std::vector<char>\<close>
  with a read and a write index. Operations keep their names, prefixed by \<open>Buffer_\<close>
  where the bare name is taken; a pointer into the vector is the index it points at.
  \<open>unread\<close> is the abstract value, the bytes between the two indices; the lemmas show that
  the operations are those of a byte queue and exactly when an assertion stops them.
\<close>

section \<open>State\<close>

record buffer =
  internal_buf :: string
  read_index :: nat
  write_index :: nat

definition kDefaultReservedSize :: nat where
  "kDefaultReservedSize = 65536"

text \<open>\<open>std::vector<char>::max_size()\<close>: beyond it \<open>resize\<close> throws \<open>std::length_error\<close>.\<close>

definition vector_max_size :: nat where
  "vector_max_size = 2 ^ 63 - 1"

definition vector_resize :: "string \<Rightarrow> nat \<Rightarrow> string result" where
  "vector_resize v n =
     (if n \<le> vector_max_size then Inr (take n v @ replicate (n - length v) (CHR 0x00))
      else Inl Length_error)"

definition Buffer_init :: "nat \<Rightarrow> buffer" where
  "Buffer_init reserved_size =
     \<lparr>internal_buf = replicate reserved_size (CHR 0x00), read_index = 0, write_index = 0\<rparr>"

section \<open>Operations\<close>

definition BytesCanWrite :: "buffer \<Rightarrow> nat result" where
  "BytesCanWrite b = asserting (write_index b \<le> length (internal_buf b))
     (Inr (length (internal_buf b) - write_index b))"

definition WriteBegin :: "buffer \<Rightarrow> nat result" where
  "WriteBegin b = asserting (write_index b \<le> length (internal_buf b)) (Inr (write_index b))"

definition AddBytes :: "buffer \<Rightarrow> nat \<Rightarrow> buffer result" where
  "AddBytes b len =
     (let w = size_add (write_index b) len
      in asserting (w \<le> length (internal_buf b)) (Inr (b\<lparr>write_index := w\<rparr>)))"

definition BytesToRead :: "buffer \<Rightarrow> nat result" where
  "BytesToRead b = asserting (read_index b \<le> write_index b)
     (Inr (write_index b - read_index b))"

definition ReadBegin :: "buffer \<Rightarrow> nat result" where
  "ReadBegin b = asserting (read_index b \<le> length (internal_buf b)) (Inr (read_index b))"

definition Buffer_Clear :: "buffer \<Rightarrow> buffer" where
  "Buffer_Clear b = b\<lparr>read_index := 0, write_index := 0\<rparr>"

definition ConsumeBytes :: "buffer \<Rightarrow> nat \<Rightarrow> buffer result" where
  "ConsumeBytes b len =
     (let r = size_add (read_index b) len
      in asserting (r \<le> write_index b)
           (Inr (if r = write_index b then Buffer_Clear (b\<lparr>read_index := r\<rparr>)
                 else b\<lparr>read_index := r\<rparr>)))"

definition EnsureSpace :: "buffer \<Rightarrow> nat \<Rightarrow> buffer result" where
  "EnsureSpace b len =
     andthen (BytesCanWrite b) (\<lambda>bytes_left.
       if bytes_left < len then
         let space_need = len - bytes_left in
         andthen (vector_resize (internal_buf b)
                    (size_add (length (internal_buf b)) (size_mul space_need 2)))
           (\<lambda>v. Inr (b\<lparr>internal_buf := v\<rparr>))
       else Inr b)"

text \<open>
  \<open>Append(buf, len)\<close>, with the \<open>len\<close> bytes at \<open>buf\<close> as a list. A \<open>memcpy\<close> past the end
  of the vector would be \<open>Out_of_bounds\<close>; the assertion before it is what excludes it.
\<close>

definition Buffer_Append :: "buffer \<Rightarrow> string \<Rightarrow> buffer result" where
  "Buffer_Append b buf =
     andthen (EnsureSpace b (length buf)) (\<lambda>b1.
     andthen (BytesCanWrite b1) (\<lambda>n. asserting (length buf \<le> n)
     (andthen (WriteBegin b1) (\<lambda>i.
        if i + length buf \<le> length (internal_buf b1) then
          Inr (b1\<lparr>internal_buf := overwrite (internal_buf b1) i buf,
                  write_index := size_add (write_index b1) (length buf)\<rparr>)
        else Inl Out_of_bounds))))"

text \<open>The bytes a reader sees through \<open>ReadBegin()\<close> and \<open>BytesToRead()\<close>.\<close>

definition ReadRange :: "buffer \<Rightarrow> string result" where
  "ReadRange b =
     andthen (ReadBegin b) (\<lambda>i. andthen (BytesToRead b) (\<lambda>n.
       if i + n \<le> length (internal_buf b) then Inr (take n (drop i (internal_buf b)))
       else Inl Out_of_bounds))"

definition ReadAndClear :: "buffer \<Rightarrow> (string \<times> buffer) result" where
  "ReadAndClear b = andthen (ReadRange b) (\<lambda>tmp. Inr (tmp, Buffer_Clear b))"

definition ByteSize :: "buffer \<Rightarrow> nat" where
  "ByteSize b = length (internal_buf b)"

section \<open>Invariant and abstract value\<close>

definition buffer_ok :: "buffer \<Rightarrow> bool" where
  "buffer_ok b \<longleftrightarrow> read_index b \<le> write_index b \<and> write_index b \<le> length (internal_buf b)
     \<and> length (internal_buf b) \<le> vector_max_size"

definition unread :: "buffer \<Rightarrow> string" where
  "unread b = take (write_index b - read_index b) (drop (read_index b) (internal_buf b))"

text \<open>How many more bytes can be appended for sure before the vector's maximal size.\<close>

definition buffer_space :: "buffer \<Rightarrow> nat" where
  "buffer_space b = (vector_max_size - length (internal_buf b)) div 2"

lemma below_size_max: "a \<le> vector_max_size \<Longrightarrow> a < 2 ^ 64"
  by (simp add: vector_max_size_def)

lemma buffer_init_ok: "n \<le> vector_max_size \<Longrightarrow> buffer_ok (Buffer_init n)"
  and unread_init: "unread (Buffer_init n) = []"
  by (simp_all add: buffer_ok_def Buffer_init_def unread_def)

lemma unread_length: "buffer_ok b \<Longrightarrow> length (unread b) = write_index b - read_index b"
  by (auto simp: buffer_ok_def unread_def min_def)

lemma BytesToRead_ok: "buffer_ok b \<Longrightarrow> BytesToRead b = Inr (length (unread b))"
  by (auto simp: buffer_ok_def BytesToRead_def unread_def min_def)

lemma ReadRange_ok: "buffer_ok b \<Longrightarrow> ReadRange b = Inr (unread b)"
  by (simp add: buffer_ok_def ReadRange_def ReadBegin_def BytesToRead_def unread_def)

lemma Clear_ok: "buffer_ok b \<Longrightarrow> buffer_ok (Buffer_Clear b)"
  and unread_Clear: "unread (Buffer_Clear b) = []"
  and ByteSize_Clear: "ByteSize (Buffer_Clear b) = ByteSize b"
  by (simp_all add: buffer_ok_def Buffer_Clear_def unread_def ByteSize_def)

section \<open>Appending\<close>

lemma EnsureSpace_ok:
  assumes "buffer_ok b" and "len \<le> buffer_space b"
  shows "\<exists>v. EnsureSpace b len = Inr (b\<lparr>internal_buf := internal_buf b @ v\<rparr>)
           \<and> write_index b + len \<le> length (internal_buf b @ v)
           \<and> length v = 2 * (write_index b + len - length (internal_buf b))"
proof -
  define n where "n = length (internal_buf b)"
  have n: "write_index b \<le> n" "n \<le> vector_max_size" "n + 2 * len \<le> vector_max_size"
    using assms by (auto simp: buffer_ok_def buffer_space_def n_def)
  show ?thesis
  proof (cases "n - write_index b < len")
    case False
    then have "EnsureSpace b len = Inr (b\<lparr>internal_buf := internal_buf b @ []\<rparr>)"
      using n by (simp add: EnsureSpace_def BytesCanWrite_def n_def)
    then show ?thesis using False n by (intro exI [of _ "[]"]) (simp add: n_def)
  next
    case True
    define k where "k = len - (n - write_index b)"
    have k: "n + 2 * k \<le> vector_max_size"
      using n by (simp add: k_def)
    have "2 * k < 2 ^ 64" "n + 2 * k < 2 ^ 64"
      using k by (auto simp: vector_max_size_def)
    then have "size_add n (size_mul k 2) = n + 2 * k"
      by (simp add: mult.commute)
    then have "EnsureSpace b len
        = Inr (b\<lparr>internal_buf := internal_buf b @ replicate (2 * k) (CHR 0x00)\<rparr>)"
      using True n k by (simp add: EnsureSpace_def BytesCanWrite_def n_def k_def vector_resize_def)
    then show ?thesis using True n
      by (intro exI [of _ "replicate (2 * k) (CHR 0x00)"]) (auto simp: n_def k_def)
  qed
qed

lemma Append_shape:
  assumes "buffer_ok b" and "length s \<le> buffer_space b"
  shows "\<exists>v. Buffer_Append b s = Inr (b\<lparr>internal_buf := overwrite (internal_buf b @ v) (write_index b) s,
                                    write_index := write_index b + length s\<rparr>)
           \<and> write_index b + length s \<le> length (internal_buf b @ v)
           \<and> length v = 2 * (write_index b + length s - length (internal_buf b))"
proof -
  obtain v where v:
    "EnsureSpace b (length s) = Inr (b\<lparr>internal_buf := internal_buf b @ v\<rparr>)"
    "write_index b + length s \<le> length (internal_buf b @ v)"
    "length v = 2 * (write_index b + length s - length (internal_buf b))"
    using EnsureSpace_ok [OF assms] by blast
  have "length (internal_buf b @ v) \<le> vector_max_size"
    using v(3) assms by (auto simp: buffer_ok_def buffer_space_def)
  then have "write_index b + length s < 2 ^ 64"
    using v(2) by (intro below_size_max) simp
  then show ?thesis using v
    by (intro exI [of _ v]) (simp add: Buffer_Append_def BytesCanWrite_def WriteBegin_def)
qed

lemma Append_ok:
  assumes "buffer_ok b" and "length s \<le> buffer_space b"
  shows "\<exists>b'. Buffer_Append b s = Inr b' \<and> buffer_ok b' \<and> unread b' = unread b @ s
           \<and> buffer_space b - length s \<le> buffer_space b'"
proof -
  obtain v where v:
    "Buffer_Append b s = Inr (b\<lparr>internal_buf := overwrite (internal_buf b @ v) (write_index b) s,
                          write_index := write_index b + length s\<rparr>)"
    "write_index b + length s \<le> length (internal_buf b @ v)"
    "length v = 2 * (write_index b + length s - length (internal_buf b))"
    using Append_shape [OF assms] by blast
  let ?b = "b\<lparr>internal_buf := overwrite (internal_buf b @ v) (write_index b) s,
              write_index := write_index b + length s\<rparr>"
  have rw: "read_index b \<le> write_index b" "write_index b \<le> length (internal_buf b)"
    using assms by (auto simp: buffer_ok_def)
  have "unread ?b = take (write_index b - read_index b) (drop (read_index b) (internal_buf b @ v)) @ s"
    unfolding unread_def using take_drop_overwrite [OF rw(1) v(2)] by simp
  then have "unread ?b = unread b @ s"
    using rw by (simp add: unread_def)
  moreover have "length v \<le> 2 * length s"
    using v(3) rw(2) by simp
  moreover have "buffer_ok ?b"
    using v(2,3) assms by (auto simp: buffer_ok_def buffer_space_def)
  moreover have "buffer_space b - length s \<le> buffer_space ?b"
    using v(2) \<open>length v \<le> 2 * length s\<close> by (simp add: buffer_space_def)
  ultimately show ?thesis using v(1) by blast
qed

section \<open>Consuming\<close>

lemma ConsumeBytes_ok:
  assumes "buffer_ok b" and "n \<le> length (unread b)"
  shows "\<exists>b'. ConsumeBytes b n = Inr b' \<and> buffer_ok b' \<and> unread b' = drop n (unread b)
           \<and> internal_buf b' = internal_buf b"
proof -
  have n: "read_index b + n \<le> write_index b" "write_index b < 2 ^ 64"
    using assms unread_length [OF assms(1)] by (auto simp: buffer_ok_def vector_max_size_def)
  then have "size_add (read_index b) n = read_index b + n" by simp
  then have "ConsumeBytes b n = Inr (if read_index b + n = write_index b
      then Buffer_Clear (b\<lparr>read_index := read_index b + n\<rparr>) else b\<lparr>read_index := read_index b + n\<rparr>)"
    using n by (simp add: ConsumeBytes_def Let_def)
  then show ?thesis using n assms(1)
    by (auto simp: Buffer_Clear_def buffer_ok_def unread_def drop_take add.commute)
qed

lemma ConsumeBytes_refused:
  assumes "buffer_ok b" and "length (unread b) < n" and "n \<le> vector_max_size"
  shows "ConsumeBytes b n = Inl Assertion_failed"
proof -
  have "read_index b + n < 2 ^ 64" "write_index b < read_index b + n"
    using assms unread_length [OF assms(1)]
    by (auto simp: buffer_ok_def vector_max_size_def)
  then show ?thesis by (simp add: ConsumeBytes_def)
qed

lemma ReadAndClear_ok:
  "buffer_ok b \<Longrightarrow> ReadAndClear b = Inr (unread b, Buffer_Clear b)"
  by (simp add: ReadAndClear_def ReadRange_ok)

text \<open>\<open>AddBytes\<close>: the caller has written \<open>s\<close> behind \<open>WriteBegin()\<close> (as \<open>readv\<close> does).\<close>

definition write_direct :: "buffer \<Rightarrow> string \<Rightarrow> buffer" where
  "write_direct b s = b\<lparr>internal_buf := overwrite (internal_buf b) (write_index b) s\<rparr>"

lemma AddBytes_ok:
  assumes "buffer_ok b" and "write_index b + length s \<le> length (internal_buf b)"
  shows "\<exists>b'. AddBytes (write_direct b s) (length s) = Inr b' \<and> buffer_ok b'
           \<and> unread b' = unread b @ s"
proof -
  have rw: "read_index b \<le> write_index b" "write_index b + length s < 2 ^ 64"
    using assms by (auto simp: buffer_ok_def vector_max_size_def)
  let ?b = "(write_direct b s)\<lparr>write_index := write_index b + length s\<rparr>"
  have "AddBytes (write_direct b s) (length s) = Inr ?b"
    using rw assms by (simp add: AddBytes_def write_direct_def)
  moreover have "unread ?b = unread b @ s"
    using take_drop_overwrite [OF rw(1) assms(2)] by (simp add: unread_def write_direct_def)
  moreover have "buffer_ok ?b"
    using assms by (simp add: buffer_ok_def write_direct_def)
  ultimately show ?thesis by blast
qed

section \<open>The buffer is a byte queue\<close>

interpretation io: chunk_queue buffer_ok unread buffer_space Buffer_Append ConsumeBytes
proof unfold_locales
  fix q and xs :: string
  assume "buffer_ok q" "length xs \<le> buffer_space q"
  then show "\<exists>q'. Buffer_Append q xs = Inr q' \<and> buffer_ok q' \<and> unread q' = unread q @ xs
               \<and> buffer_space q - length xs \<le> buffer_space q'"
    by (rule Append_ok)
next
  fix q n
  assume "buffer_ok q" "n \<le> length (unread q)"
  from ConsumeBytes_ok [OF this] show
    "\<exists>q'. ConsumeBytes q n = Inr q' \<and> buffer_ok q' \<and> unread q' = drop n (unread q)
        \<and> buffer_space q \<le> buffer_space q'"
    by (auto simp: buffer_space_def)
qed

text \<open>A buffer that holds exactly the given bytes.\<close>

definition buffer_of :: "string \<Rightarrow> buffer" where
  "buffer_of s = \<lparr>internal_buf = s, read_index = 0, write_index = length s\<rparr>"

lemma buffer_of_ok: "length s \<le> vector_max_size \<Longrightarrow> buffer_ok (buffer_of s)" "unread (buffer_of s) = s"
  by (simp_all add: buffer_ok_def buffer_of_def unread_def)

section \<open>Properties of the buffer\<close>

text \<open>C22: Any sequence of appends and consumptions that takes no more than is there and stays
  below the vector's maximal size runs without a fault, and the bytes taken out followed by
  the unread bytes are the initial unread bytes followed by everything appended: no byte is
  lost, duplicated or reordered.\<close>

theorem buffer_run_conserves:
  assumes "buffer_ok b" and "length (puts ops) \<le> buffer_space b"
    and "takes_fit (length (unread b)) ops"
  shows "\<exists>out b'. chunk_run Buffer_Append ConsumeBytes unread ops b = Inr (out, b') \<and>
     buffer_ok b' \<and> out @ unread b' = unread b @ puts ops"
  using assms by (rule io.run_conserves)

theorem buffer_run_conserves_witness:
  "\<exists>out b'. chunk_run Buffer_Append ConsumeBytes unread [Put ''abc'', Take 2, Put ''d''] (Buffer_init 2)
       = Inr (out, b') \<and>
     buffer_ok b' \<and> out @ unread b' = unread (Buffer_init 2) @ puts [Put ''abc'', Take 2, Put ''d'']"
  by (rule buffer_run_conserves)
     (simp_all add: buffer_ok_def vector_max_size_def buffer_space_def Buffer_init_def unread_def)

text \<open>\<open>Append\<close> puts the bytes behind the unread ones; the vector keeps its size when they fit
  behind the write index and otherwise grows by twice what is missing.\<close>

theorem Append_grows:
  assumes "buffer_ok b" and "length s \<le> buffer_space b"
  shows "\<exists>b'. Buffer_Append b s = Inr b' \<and> buffer_ok b' \<and> unread b' = unread b @ s \<and>
     ByteSize b' = ByteSize b + 2 * (write_index b + length s - ByteSize b)"
proof -
  obtain v where v:
    "Buffer_Append b s = Inr (b\<lparr>internal_buf := overwrite (internal_buf b @ v) (write_index b) s,
                          write_index := write_index b + length s\<rparr>)"
    "write_index b + length s \<le> length (internal_buf b @ v)"
    "length v = 2 * (write_index b + length s - length (internal_buf b))"
    using Append_shape [OF assms] by blast
  obtain b' where "Buffer_Append b s = Inr b'" "buffer_ok b'" "unread b' = unread b @ s"
    using Append_ok [OF assms] by blast
  then show ?thesis using v by (auto simp: ByteSize_def)
qed

theorem Append_grows_witness:
  "\<exists>b'. Buffer_Append (Buffer_init 2) ''abc'' = Inr b' \<and> buffer_ok b' \<and>
     unread b' = unread (Buffer_init 2) @ ''abc'' \<and>
     ByteSize b' = ByteSize (Buffer_init 2) +
       2 * (write_index (Buffer_init 2) + length ''abc'' - ByteSize (Buffer_init 2))"
  by (rule Append_grows)
     (simp_all add: buffer_ok_def vector_max_size_def buffer_space_def Buffer_init_def)

text \<open>\<open>ConsumeBytes\<close> with a length no vector can have exceeded: it drops exactly that many
  unread bytes, resets both indices when none is left, and fails its assertion when asked for
  more than is there.\<close>

theorem ConsumeBytes_total:
  assumes "buffer_ok b" and "n \<le> vector_max_size"
  shows "if n \<le> length (unread b)
     then \<exists>b'. ConsumeBytes b n = Inr b' \<and> buffer_ok b' \<and> unread b' = drop n (unread b) \<and>
            ByteSize b' = ByteSize b \<and> (unread b' = [] \<longrightarrow> read_index b' = 0 \<and> write_index b' = 0)
     else ConsumeBytes b n = Inl Assertion_failed"
proof (cases "n \<le> length (unread b)")
  case True
  then obtain b' where b': "ConsumeBytes b n = Inr b'" "buffer_ok b'" "unread b' = drop n (unread b)"
    "internal_buf b' = internal_buf b" using ConsumeBytes_ok [OF assms(1)] by blast
  have "unread b' = [] \<longrightarrow> read_index b' = 0 \<and> write_index b' = 0"
  proof
    assume "unread b' = []"
    then have "read_index b' = write_index b'"
      using b'(2) unread_length [OF b'(2)] by (simp add: buffer_ok_def)
    then show "read_index b' = 0 \<and> write_index b' = 0"
      using b'(1) by (auto simp: ConsumeBytes_def Let_def Buffer_Clear_def split: if_splits)
  qed
  then show ?thesis using True b' by (simp add: ByteSize_def)
next
  case False
  then show ?thesis using ConsumeBytes_refused [OF assms(1)] assms(2) by simp
qed

theorem ConsumeBytes_total_witness:
  "if 3 \<le> length (unread (Buffer_init 2))
     then \<exists>b'. ConsumeBytes (Buffer_init 2) 3 = Inr b' \<and> buffer_ok b' \<and>
            unread b' = drop 3 (unread (Buffer_init 2)) \<and> ByteSize b' = ByteSize (Buffer_init 2) \<and>
            (unread b' = [] \<longrightarrow> read_index b' = 0 \<and> write_index b' = 0)
     else ConsumeBytes (Buffer_init 2) 3 = Inl Assertion_failed"
  by (rule ConsumeBytes_total) (simp_all add: buffer_init_ok vector_max_size_def)

end
