(* ===== verification/Slice.thy ===== *)
theory Slice
  imports Fx_Prelude
begin

text \<open>
  The byte-range view \<open>fx::Slice\<close> (include/fx_slice.h, src/fx_slice.cc). A slice is a
  pointer and a length; the memory it points into is a list of characters and the pointer
  an index into it (\<open>None\<close> is \<open>NULL\<close>). \<open>Slice_find\<close> is the substring search: its table
  of borders, its scanning loop and the assertion that compares it with
  \<open>std::string::find\<close>. The lemmas show that the scan always ends, that a match it
  reports is a match, that it finds the first occurrence whenever the table is exact, and
  which patterns make it exact.
\<close>

section \<open>State and simple operations\<close>

record slice =
  slice_buf :: "nat option"
  slice_len :: nat

definition npos :: nat where
  "npos = 2 ^ 64 - 1"

definition Slice_null :: slice where
  "Slice_null = \<lparr>slice_buf = None, slice_len = 0\<rparr>"

definition Slice_of :: "nat \<Rightarrow> nat \<Rightarrow> slice" where
  "Slice_of p n = \<lparr>slice_buf = Some p, slice_len = n\<rparr>"

definition Slice_clear :: "slice \<Rightarrow> slice" where
  "Slice_clear s = s\<lparr>slice_buf := None, slice_len := 0\<rparr>"

definition Slice_swap :: "slice \<Rightarrow> slice \<Rightarrow> slice \<times> slice" where
  "Slice_swap s rhs = (s\<lparr>slice_buf := slice_buf rhs, slice_len := slice_len rhs\<rparr>, rhs\<lparr>slice_buf := slice_buf s, slice_len := slice_len s\<rparr>)"

definition Slice_assign :: "slice \<Rightarrow> slice \<Rightarrow> slice" where
  "Slice_assign s rhs = s\<lparr>slice_buf := slice_buf rhs, slice_len := slice_len rhs\<rparr>"

definition Slice_empty :: "slice \<Rightarrow> bool" where
  "Slice_empty s \<longleftrightarrow> slice_buf s = None"

definition Slice_eq :: "slice \<Rightarrow> slice \<Rightarrow> bool" where
  "Slice_eq l r \<longleftrightarrow> slice_buf l = slice_buf r \<and> slice_len l = slice_len r"

text \<open>The bytes a slice denotes in a memory; what \<open>std::string(slice_buf, slice_len)\<close> copies.\<close>

definition Slice_to_string :: "string \<Rightarrow> slice \<Rightarrow> string result" where
  "Slice_to_string mem s =
     (case slice_buf s of
        None \<Rightarrow> if slice_len s = 0 then Inr [] else Inl Null_dereference
      | Some p \<Rightarrow> if p + slice_len s \<le> length mem then Inr (take (slice_len s) (drop p mem))
                  else Inl Out_of_bounds)"

definition Slice_Equals :: "string \<Rightarrow> slice \<Rightarrow> string \<Rightarrow> slice \<Rightarrow> bool result" where
  "Slice_Equals mem s mem' rhs =
     (if slice_len s = slice_len rhs then
        andthen (Slice_to_string mem s) (\<lambda>x. andthen (Slice_to_string mem' rhs) (\<lambda>y. Inr (x = y)))
      else Inr False)"

definition subslice :: "slice \<Rightarrow> nat \<Rightarrow> nat \<Rightarrow> slice result" where
  "subslice s pos len =
     (if pos = slice_len s then Inr Slice_null
      else asserting (pos < slice_len s)
        (Inr (if len > slice_len s - pos
              then \<lparr>slice_buf = map_option (\<lambda>p. p + pos) (slice_buf s), slice_len = slice_len s - pos\<rparr>
              else \<lparr>slice_buf = map_option (\<lambda>p. p + pos) (slice_buf s), slice_len = len\<rparr>)))"

lemma subslice_bytes:
  assumes "Slice_to_string mem s = Inr x" and "pos \<le> slice_len s"
  shows "\<exists>t. subslice s pos len = Inr t \<and> Slice_to_string mem t = Inr (take len (drop pos x))"
proof (cases "pos = slice_len s")
  case True
  have "length x = slice_len s"
    using assms(1) by (auto simp: Slice_to_string_def split: option.splits if_splits)
  then show ?thesis using True
    by (simp add: subslice_def Slice_null_def Slice_to_string_def)
next
  case False
  then obtain p where "slice_buf s = Some p" "p + slice_len s \<le> length mem" "x = take (slice_len s) (drop p mem)"
    using assms by (auto simp: Slice_to_string_def split: option.splits if_splits)
  then show ?thesis using False assms(2)
    by (auto simp: subslice_def Slice_to_string_def drop_take min_def add.commute)
qed

section \<open>std::string::find\<close>

text \<open>The first position not before \<open>pos\<close> where \<open>p\<close> occurs in \<open>s\<close>.\<close>

definition occurs_at :: "string \<Rightarrow> string \<Rightarrow> nat \<Rightarrow> bool" where
  "occurs_at s p i \<longleftrightarrow> i + length p \<le> length s \<and> take (length p) (drop i s) = p"

definition string_find :: "string \<Rightarrow> string \<Rightarrow> nat \<Rightarrow> nat option" where
  "string_find s p pos = List.find (occurs_at s p) [pos ..< Suc (length s) - length p]"

lemma occurs_at_iff:
  "occurs_at s p i \<longleftrightarrow> i + length p \<le> length s \<and> (\<forall>k < length p. s ! (i + k) = p ! k)"
  unfolding occurs_at_def by (auto simp: list_eq_iff_nth_eq)

lemma find_upt_Some:
  "List.find P [a ..< b] = Some i \<longleftrightarrow> a \<le> i \<and> i < b \<and> P i \<and> (\<forall>j. a \<le> j \<and> j < i \<longrightarrow> \<not> P j)"
proof
  assume "List.find P [a ..< b] = Some i"
  then obtain k where k: "k < b - a" "P (a + k)" "i = a + k" "\<forall>j < k. \<not> P ([a ..< b] ! j)"
    by (auto simp: find_Some_iff)
  have "\<not> P j" if "a \<le> j" "j < i" for j
  proof -
    have "j - a < k" using that k(3) by simp
    then have "\<not> P ([a ..< b] ! (j - a))" using k(4) by simp
    then show ?thesis using that k(1,3) by simp
  qed
  then show "a \<le> i \<and> i < b \<and> P i \<and> (\<forall>j. a \<le> j \<and> j < i \<longrightarrow> \<not> P j)"
    using k(1-3) by simp
next
  assume *: "a \<le> i \<and> i < b \<and> P i \<and> (\<forall>j. a \<le> j \<and> j < i \<longrightarrow> \<not> P j)"
  then have "\<forall>j < i - a. \<not> P ([a ..< b] ! j)"
    by auto
  then show "List.find P [a ..< b] = Some i"
    unfolding find_Some_iff using * by (intro exI [of _ "i - a"]) auto
qed

lemma string_find_Some:
  "string_find s p pos = Some i \<longleftrightarrow>
     pos \<le> i \<and> occurs_at s p i \<and> (\<forall>j. pos \<le> j \<and> j < i \<longrightarrow> \<not> occurs_at s p j)"
  by (auto simp: string_find_def find_upt_Some occurs_at_def)

lemma string_find_None:
  "string_find s p pos = None \<longleftrightarrow> (\<forall>j \<ge> pos. \<not> occurs_at s p j)"
  by (auto simp: string_find_def find_None_iff occurs_at_def)

section \<open>The table of borders\<close>

text \<open>
  The inner \<open>do ... while(base != 0)\<close> loop for one position: it follows the table until
  the character at \<open>pos\<close> continues a border, and ends with 0 when the chain does.
\<close>

partial_function (option) border_chain :: "string \<Rightarrow> nat list \<Rightarrow> nat \<Rightarrow> nat \<Rightarrow> nat option" where
  "border_chain p next pos base =
     (if p ! pos = p ! base then Some base
      else let base' = next ! (base - 1) in
           if base' \<noteq> 0 then border_chain p next pos base' else Some 0)"

definition table_step :: "string \<Rightarrow> nat list \<Rightarrow> nat \<Rightarrow> nat list option" where
  "table_step p next pos =
     (let base = next ! (pos - 1) in
      if base = 0 then Some (next[pos := (if p ! pos = p ! 0 then 1 else 0)])
      else (case border_chain p next pos base of
              None \<Rightarrow> None
            | Some b \<Rightarrow> Some (if b \<noteq> 0 then next[pos := b + 1] else next)))"

fun table_loop :: "string \<Rightarrow> nat list \<Rightarrow> nat list \<Rightarrow> nat list option" where
  "table_loop p next [] = Some next"
| "table_loop p next (pos # ps) =
     (case table_step p next pos of None \<Rightarrow> None | Some next' \<Rightarrow> table_loop p next' ps)"

definition next_table :: "string \<Rightarrow> nat list option" where
  "next_table p = table_loop p (replicate (length p) 0) [2 ..< length p]"

section \<open>The scanning loop\<close>

text \<open>
  \<open>m\<close> is the candidate position, \<open>i\<close> the number of characters matched there. The result
  is the pair at which the loop stops. The characters \<open>p[i]\<close> are those of a C string: at
  \<open>i = length p\<close> its terminating zero, beyond it nothing.
\<close>

partial_function (option) scan ::
  "string \<Rightarrow> string \<Rightarrow> nat list \<Rightarrow> nat \<Rightarrow> nat \<Rightarrow> (nat \<times> nat) result option" where
  "scan s p next m i =
     (if m + i < length s then
        if length p < i then Some (Inl Out_of_bounds)
        else if s ! (m + i) = (if i < length p then p ! i else CHR 0x00) then
          if i + 1 = length p then Some (Inr (m, i + 1)) else scan s p next m (i + 1)
        else if i = 0 then scan s p next (m + 1) 0
        else if length next \<le> i - 1 then Some (Inl Out_of_bounds)
        else scan s p next (m + i - next ! (i - 1)) (next ! (i - 1))
      else Some (Inr (m, i)))"

text \<open>
  What \<open>find\<close> computes when assertions are compiled out: \<open>Some\<close> of the position or, for
  \<open>npos\<close>, \<open>None\<close>. The outer \<open>option\<close> is \<open>None\<close> when a loop does not end.
\<close>

definition kmp_find :: "string \<Rightarrow> string \<Rightarrow> nat option result option" where
  "kmp_find s p =
     (if length s < length p then Some (Inr None)
      else case next_table p of
        None \<Rightarrow> None
      | Some next \<Rightarrow>
          (case scan s p next 0 0 of
             None \<Rightarrow> None
           | Some (Inl e) \<Rightarrow> Some (Inl e)
           | Some (Inr (m, i)) \<Rightarrow>
               Some (Inr (if m + i < length s \<or> (m + i = length s \<and> i = length p)
                          then Some m else None))))"

text \<open>
  \<open>find\<close> itself: both exits assert that \<open>std::string(slice_buf, slice_len).find(p)\<close> agrees. The early
  return for a pattern longer than the slice comes before it.
\<close>

definition Slice_find :: "string \<Rightarrow> slice \<Rightarrow> string \<Rightarrow> nat option result option" where
  "Slice_find mem sl p =
     (if slice_len sl < length p then Some (Inr None)
      else case Slice_to_string mem sl of
        Inl e \<Rightarrow> Some (Inl e)
      | Inr s \<Rightarrow>
          (case kmp_find s p of
             None \<Rightarrow> None
           | Some r \<Rightarrow> Some (andthen r (\<lambda>pos. asserting (string_find s p 0 = pos) (Inr pos)))))"

section \<open>Borders\<close>

text \<open>\<open>border p i n\<close>: the first \<open>n\<close> characters of \<open>p\<close> are also the last \<open>n\<close> of its first \<open>i\<close>.\<close>

definition border :: "string \<Rightarrow> nat \<Rightarrow> nat \<Rightarrow> bool" where
  "border p i n \<longleftrightarrow> n < i \<and> i \<le> length p \<and> (\<forall>k < n. p ! (i + k - n) = p ! k)"

definition table_ok :: "string \<Rightarrow> nat list \<Rightarrow> bool" where
  "table_ok p next \<longleftrightarrow> length next = length p \<and> (\<forall>k < length p. border p (Suc k) (next ! k))"

definition table_exact :: "string \<Rightarrow> nat list \<Rightarrow> bool" where
  "table_exact p next \<longleftrightarrow>
     (\<forall>i < length p. 0 < i \<longrightarrow> (\<forall>n < i. border p i n \<longrightarrow> n \<le> next ! (i - 1)))"

lemma border_0 [simp]: "border p i 0 \<longleftrightarrow> 0 < i \<and> i \<le> length p"
  by (simp add: border_def)

lemma border_trans:
  assumes "border p i b" and "border p b n"
  shows "border p i n"
  unfolding border_def
proof (intro conjI allI impI)
  show "n < i" "i \<le> length p" using assms by (auto simp: border_def)
  fix k assume "k < n"
  moreover have "n < b" "b < i" using assms by (auto simp: border_def)
  ultimately have "b + k - n < b" by simp
  then have "p ! (i + (b + k - n) - b) = p ! (b + k - n)"
    using assms(1) unfolding border_def by blast
  moreover have "p ! (b + k - n) = p ! k"
    using assms(2) \<open>k < n\<close> unfolding border_def by blast
  moreover have "i + (b + k - n) - b = i + k - n"
    using \<open>n < b\<close> \<open>b < i\<close> by simp
  ultimately show "p ! (i + k - n) = p ! k" by simp
qed

lemma border_extend:
  assumes "border p i b" and "i < length p" and "p ! i = p ! b"
  shows "border p (Suc i) (Suc b)"
  using assms by (auto simp: border_def less_Suc_eq)

lemma border_chain_ends:
  assumes "table_ok p next" and "border p pos base" and "0 < base" and "pos < length p"
  shows "\<exists>b. border_chain p next pos base = Some b \<and>
             (b \<noteq> 0 \<longrightarrow> border p pos b \<and> p ! pos = p ! b)"
  using assms(2,3)
proof (induction base rule: less_induct)
  case (less base)
  show ?case
  proof (cases "p ! pos = p ! base")
    case True
    then show ?thesis using less.prems by (simp add: border_chain.simps)
  next
    case False
    let ?b = "next ! (base - 1)"
    have "base - 1 < length p" "Suc (base - 1) = base"
      using assms(4) less.prems by (auto simp: border_def)
    then have "border p base ?b"
      using assms(1) unfolding table_ok_def by metis
    then have b: "?b < base" "border p pos ?b"
      using border_trans [OF less.prems(1)] by (auto simp: border_def)
    show ?thesis
    proof (cases "?b = 0")
      case True
      then show ?thesis using False by (simp add: border_chain.simps)
    next
      case False
      with less.IH [OF b] \<open>p ! pos \<noteq> p ! base\<close> show ?thesis
        by (simp add: border_chain.simps [of p "next" pos base])
    qed
  qed
qed

lemma table_ok_update:
  assumes "table_ok p next" and "border p (Suc pos) b"
  shows "table_ok p (next[pos := b])"
  unfolding table_ok_def
proof (intro conjI allI impI)
  show "length (next[pos := b]) = length p"
    using assms(1) by (simp add: table_ok_def)
  fix k assume "k < length p"
  then show "border p (Suc k) (next[pos := b] ! k)"
    using assms by (cases "k = pos") (simp_all add: table_ok_def)
qed

lemma table_step_ok:
  assumes "table_ok p next" and "0 < pos" and "pos < length p"
  shows "\<exists>next'. table_step p next pos = Some next' \<and> table_ok p next'"
proof -
  let ?base = "next ! (pos - 1)"
  have "pos - 1 < length p" "Suc (pos - 1) = pos" using assms(2,3) by auto
  then have base: "border p pos ?base"
    using assms(1) unfolding table_ok_def by metis
  show ?thesis
  proof (cases "?base = 0")
    case True
    have "border p (Suc pos) (if p ! pos = p ! 0 then 1 else 0)"
      using assms(2,3) by (auto simp: border_def)
    from table_ok_update [OF assms(1) this] show ?thesis
      using True by (simp add: table_step_def)
  next
    case False
    then obtain b where b: "border_chain p next pos ?base = Some b"
      "b \<noteq> 0 \<longrightarrow> border p pos b \<and> p ! pos = p ! b"
      using border_chain_ends [OF assms(1) base] assms(3) by auto
    then have "b \<noteq> 0 \<longrightarrow> border p (Suc pos) (Suc b)"
      using border_extend assms(3) by blast
    then show ?thesis
      using b(1) False assms(1) table_ok_update [OF assms(1)] by (auto simp: table_step_def)
  qed
qed

lemma table_loop_ok:
  assumes "table_ok p next" and "\<forall>pos \<in> set ps. 0 < pos \<and> pos < length p"
  shows "\<exists>next'. table_loop p next ps = Some next' \<and> table_ok p next'"
  using assms
proof (induction ps arbitrary: "next")
  case Nil
  then show ?case by simp
next
  case (Cons pos ps)
  from Cons.prems table_step_ok obtain n1 where "table_step p next pos = Some n1" "table_ok p n1"
    by (metis list.set_intros(1))
  with Cons.IH [of n1] Cons.prems(2) show ?case by auto
qed

lemma next_table_ok: "\<exists>next. next_table p = Some next \<and> table_ok p next"
  unfolding next_table_def
  by (rule table_loop_ok) (auto simp: table_ok_def)

section \<open>The scan\<close>

definition matched :: "string \<Rightarrow> string \<Rightarrow> nat \<Rightarrow> nat \<Rightarrow> bool" where
  "matched s p m i \<longleftrightarrow> i < length p \<and> m + i \<le> length s \<and> (\<forall>k < i. s ! (m + k) = p ! k)"

lemma matched_shift:
  assumes "matched s p m i" and "border p i n"
  shows "matched s p (m + i - n) n"
  unfolding matched_def
proof (intro conjI allI impI)
  have n: "n < i" using assms(2) by (simp add: border_def)
  then show "n < length p" "m + i - n + n \<le> length s"
    using assms(1) by (auto simp: matched_def)
  fix k assume "k < n"
  then have "i + k - n < i" using n by simp
  then have "s ! (m + (i + k - n)) = p ! (i + k - n)"
    using assms(1) unfolding matched_def by blast
  moreover have "p ! (i + k - n) = p ! k"
    using assms(2) \<open>k < n\<close> unfolding border_def by blast
  moreover have "m + i - n + k = m + (i + k - n)" using n by simp
  ultimately show "s ! (m + i - n + k) = p ! k" by simp
qed

text \<open>No occurrence lies between two candidates when the table is exact.\<close>

lemma no_occurrence_skipped:
  assumes "matched s p m i" and "0 < i" and "s ! (m + i) \<noteq> p ! i"
    and "table_exact p next" and "m \<le> j" and "j < m + i - next ! (i - 1)"
  shows "\<not> occurs_at s p j"
proof
  assume occ: "occurs_at s p j"
  define d where "d = j - m"
  have i: "i < length p" using assms(1) by (simp add: matched_def)
  have d: "d < i - next ! (i - 1)" "j = m + d" using assms(5,6) by (auto simp: d_def)
  have s: "s ! (m + d + k) = p ! k" if "k < length p" for k
    using occ that d(2) by (auto simp: occurs_at_iff)
  show False
  proof (cases "d = 0")
    case True
    with s [OF i] assms(3) show False by simp
  next
    case False
    have "border p i (i - d)"
      unfolding border_def
    proof (intro conjI allI impI)
      show "i - d < i" "i \<le> length p" using False assms(2) i by auto
      fix k assume k: "k < i - d"
      then have "s ! (m + (d + k)) = p ! (d + k)"
        using assms(1) by (simp add: matched_def)
      moreover have "s ! (m + d + k) = p ! k" using s k i by simp
      moreover have "i + k - (i - d) = d + k" using d(1) by simp
      ultimately show "p ! (i + k - (i - d)) = p ! k"
        by (simp add: add.assoc)
    qed
    moreover have "i - d < i" using False assms(2) by simp
    ultimately have "i - d \<le> next ! (i - 1)"
      using assms(2,4) i unfolding table_exact_def by blast
    then show False using d(1) by simp
  qed
qed

text \<open>One turn of the loop, by the branch taken.\<close>

lemma scan_more:
  "m + i < length s \<Longrightarrow> i + 1 < length p \<Longrightarrow> s ! (m + i) = p ! i \<Longrightarrow>
     scan s p next m i = scan s p next m (i + 1)"
  by (simp add: scan.simps [of s p "next" m i])

lemma scan_next:
  "m < length s \<Longrightarrow> p \<noteq> [] \<Longrightarrow> s ! m \<noteq> p ! 0 \<Longrightarrow> scan s p next m 0 = scan s p next (m + 1) 0"
  by (simp add: scan.simps [of s p "next" m 0])

lemma scan_shift:
  "m + i < length s \<Longrightarrow> 0 < i \<Longrightarrow> i < length p \<Longrightarrow> i - 1 < length next \<Longrightarrow> s ! (m + i) \<noteq> p ! i \<Longrightarrow>
     scan s p next m i = scan s p next (m + i - next ! (i - 1)) (next ! (i - 1))"
  by (simp add: scan.simps [of s p "next" m i])

lemma scan_ends:
  assumes "table_ok p next" and "matched s p m i"
  shows "\<exists>m' i'. scan s p next m i = Some (Inr (m', i')) \<and> m \<le> m' \<and>
     ((i' = length p \<and> occurs_at s p m') \<or> (i' < length p \<and> m' + i' = length s)) \<and>
     (table_exact p next \<longrightarrow> (\<forall>j. m \<le> j \<and> j < m' \<longrightarrow> \<not> occurs_at s p j))"
  using assms(2)
proof (induction "2 * length s - (2 * m + i)" arbitrary: m i rule: less_induct)
  case less
  note mt = less.prems
  then have i: "i < length p" "m + i \<le> length s" by (auto simp: matched_def)
  consider (stop) "m + i = length s" | (full) "m + i < length s" "s ! (m + i) = p ! i" "i + 1 = length p"
    | (more) "m + i < length s" "s ! (m + i) = p ! i" "i + 1 < length p"
    | (next_m) "m + i < length s" "s ! (m + i) \<noteq> p ! i" "i = 0"
    | (shift) "m + i < length s" "s ! (m + i) \<noteq> p ! i" "0 < i"
    using i by (metis Suc_eq_plus1 Suc_lessI gr0I le_neq_implies_less)
  then show ?case
  proof cases
    case stop
    then show ?thesis using i by (auto simp: scan.simps)
  next
    case full
    have "s ! (m + k) = p ! k" if "k < length p" for k
      using that full mt by (cases "k = i") (auto simp: matched_def)
    then have "occurs_at s p m" using full by (auto simp: occurs_at_iff)
    then show ?thesis using full i by (auto simp: scan.simps)
  next
    case more
    then have "matched s p m (i + 1)"
      using mt by (auto simp: matched_def less_Suc_eq)
    moreover have "scan s p next m i = scan s p next m (i + 1)"
      using more i by (simp add: scan_more)
    moreover have "2 * length s - (2 * m + (i + 1)) < 2 * length s - (2 * m + i)"
      using more by simp
    ultimately show ?thesis using less.hyps by simp
  next
    case next_m
    then have "matched s p (m + 1) 0" using i by (simp add: matched_def)
    moreover have "2 * length s - (2 * (m + 1) + 0) < 2 * length s - (2 * m + i)"
      using next_m by simp
    ultimately obtain m' i' where r: "scan s p next (m + 1) 0 = Some (Inr (m', i'))" "m + 1 \<le> m'"
      "(i' = length p \<and> occurs_at s p m') \<or> (i' < length p \<and> m' + i' = length s)"
      "table_exact p next \<longrightarrow> (\<forall>j. m + 1 \<le> j \<and> j < m' \<longrightarrow> \<not> occurs_at s p j)"
      using less.hyps by blast
    have "scan s p next m i = scan s p next (m + 1) 0"
      using next_m i scan_next [of m s p "next"] by auto
    moreover have "\<not> occurs_at s p m"
      using next_m i by (auto simp: occurs_at_iff)
    moreover from this have "table_exact p next \<longrightarrow> (\<forall>j. m \<le> j \<and> j < m' \<longrightarrow> \<not> occurs_at s p j)"
      using r(4) by (metis Suc_eq_plus1 Suc_leI le_neq_implies_less)
    ultimately show ?thesis
      using r(1-3) by (intro exI [of _ m'] exI [of _ i']) auto
  next
    case shift
    let ?n = "next ! (i - 1)"
    have "i - 1 < length p" "Suc (i - 1) = i" using i(1) shift(3) by auto
    then have b: "border p i ?n"
      using assms(1) unfolding table_ok_def by metis
    then have n: "?n < i" by (simp add: border_def)
    have "matched s p (m + i - ?n) ?n" by (rule matched_shift [OF mt b])
    moreover have "2 * length s - (2 * (m + i - ?n) + ?n) < 2 * length s - (2 * m + i)"
      using n shift(1) by simp
    ultimately obtain m' i' where r: "scan s p next (m + i - ?n) ?n = Some (Inr (m', i'))"
      "m + i - ?n \<le> m'"
      "(i' = length p \<and> occurs_at s p m') \<or> (i' < length p \<and> m' + i' = length s)"
      "table_exact p next \<longrightarrow> (\<forall>j. m + i - ?n \<le> j \<and> j < m' \<longrightarrow> \<not> occurs_at s p j)"
      using less.hyps by blast
    have "scan s p next m i = scan s p next (m + i - ?n) ?n"
      using shift i assms(1) by (intro scan_shift) (auto simp: table_ok_def)
    moreover have "table_exact p next \<longrightarrow> (\<forall>j. m \<le> j \<and> j < m' \<longrightarrow> \<not> occurs_at s p j)"
      using r(4) no_occurrence_skipped [OF mt shift(3,2)] by (meson not_le)
    ultimately show ?thesis
      using r(1-3) n by (intro exI [of _ m'] exI [of _ i']) auto
  qed
qed

section \<open>The result of the search\<close>

text \<open>The outcome of the search in terms of occurrences, for any non-empty pattern.\<close>

lemma kmp_find_spec:
  assumes "p \<noteq> []"
  shows "\<exists>next pos. next_table p = Some next \<and> kmp_find s p = Some (Inr pos) \<and>
     (case pos of Some m \<Rightarrow> occurs_at s p m | None \<Rightarrow> True) \<and>
     (table_exact p next \<longrightarrow> pos = string_find s p 0)"
proof -
  obtain "next" where tab: "next_table p = Some next" "table_ok p next"
    using next_table_ok by blast
  show ?thesis
  proof (cases "length s < length p")
    case True
    then have "string_find s p 0 = None" by (simp add: string_find_def)
    then show ?thesis using True tab by (simp add: kmp_find_def)
  next
    case False
    then have "matched s p 0 0" using assms by (simp add: matched_def)
    from scan_ends [OF tab(2) this] obtain m i where r: "scan s p next 0 0 = Some (Inr (m, i))"
      "(i = length p \<and> occurs_at s p m) \<or> (i < length p \<and> m + i = length s)"
      "table_exact p next \<longrightarrow> (\<forall>j < m. \<not> occurs_at s p j)" by auto
    have res: "kmp_find s p = Some (Inr (if i = length p then Some m else None))"
      using r(1,2) False tab(1) by (auto simp: kmp_find_def occurs_at_def)
    have "table_exact p next \<longrightarrow> (if i = length p then Some m else None) = string_find s p 0"
    proof (cases "i = length p")
      case True
      then have "occurs_at s p m" using r(2) by auto
      then have "table_exact p next \<longrightarrow> string_find s p 0 = Some m"
        using r(3) by (simp add: string_find_Some)
      then show ?thesis using True by simp
    next
      case False
      then have "\<forall>j \<ge> m. \<not> occurs_at s p j"
        using r(2) by (auto simp: occurs_at_def)
      then have "table_exact p next \<longrightarrow> string_find s p 0 = None"
        using r(3) by (auto simp: string_find_None) (meson not_le)
      then show ?thesis using False by simp
    qed
    then show ?thesis using res tab(1) r(2) by auto
  qed
qed

text \<open>
  The table is exact when the first character does not come back before the last position:
  then every proper prefix has only the empty border. All patterns of at most two
  characters are of this kind.
\<close>

lemma first_once_exact:
  assumes "table_ok p next" and "\<forall>k. 0 < k \<and> Suc k < length p \<longrightarrow> p ! k \<noteq> p ! 0"
  shows "table_exact p next"
  unfolding table_exact_def
proof (intro allI impI)
  fix i n assume i: "i < length p" "0 < i" and n: "n < i" "border p i n"
  have "n = 0"
  proof (rule ccontr)
    assume "n \<noteq> 0"
    then have "p ! (i + 0 - n) = p ! 0"
      using n unfolding border_def by blast
    moreover have "0 < i - n" "Suc (i - n) < length p"
      using i n(1) \<open>n \<noteq> 0\<close> by auto
    ultimately show False using assms(2) by auto
  qed
  then show "n \<le> next ! (i - 1)" by simp
qed

section \<open>Properties of the search\<close>

text \<open>For every text and every non-empty pattern the two loops of \<open>Slice::find\<close> end
  without reading out of bounds, and a position they report is an occurrence of the
  pattern (with assertions compiled out).\<close>

theorem kmp_find_sound:
  assumes "p \<noteq> []"
  shows "\<exists>pos. kmp_find s p = Some (Inr pos) \<and>
     (\<forall>m \<in> set_option pos. m + length p \<le> length s \<and> take (length p) (drop m s) = p)"
  using kmp_find_spec [OF assms, of s] by (auto simp: occurs_at_def split: option.splits)

theorem kmp_find_sound_witness:
  "\<exists>pos. kmp_find ''abcabd'' ''abd'' = Some (Inr pos) \<and>
     (\<forall>m \<in> set_option pos. m + length ''abd'' \<le> length ''abcabd'' \<and>
        take (length ''abd'') (drop m ''abcabd'') = ''abd'')"
  by (rule kmp_find_sound) simp

lemma Slice_find_exact:
  assumes "Slice_to_string mem sl = Inr s" and "p \<noteq> []"
    and "\<forall>k. 0 < k \<and> Suc k < length p \<longrightarrow> p ! k \<noteq> p ! 0"
  shows "Slice_find mem sl p = Some (Inr (string_find s p 0))"
proof -
  obtain "next" pos where k: "next_table p = Some next" "kmp_find s p = Some (Inr pos)"
    "table_exact p next \<longrightarrow> pos = string_find s p 0"
    using kmp_find_spec [OF assms(2), of s] by blast
  have "table_ok p next" using next_table_ok [of p] k(1) by auto
  then have "pos = string_find s p 0" using first_once_exact assms(3) k(3) by blast
  moreover have "length s = slice_len sl"
    using assms(1) by (auto simp: Slice_to_string_def split: option.splits if_splits)
  ultimately show ?thesis
    using k(2) assms(1) by (simp add: Slice_find_def string_find_def)
qed

text \<open>C29: \<open>Slice::find\<close> returns the first occurrence, exactly as \<open>std::string::find\<close>, and its
  assertion holds, for every non-empty pattern whose first character does not come back
  before its last position; this covers the line separator CRLF the HTTP codec looks for.\<close>

theorem Slice_find_first:
  assumes "Slice_to_string mem sl = Inr s" and "p \<noteq> []"
    and "\<forall>k. 0 < k \<and> Suc k < length p \<longrightarrow> p ! k \<noteq> p ! 0"
  shows "Slice_find mem sl p = Some (Inr (string_find s p 0))"
  by (rule Slice_find_exact [OF assms])

theorem Slice_find_first_witness:
  "Slice_find ''GET /'' (Slice_of 1 4) ''T '' = Some (Inr (string_find ''ET /'' ''T '' 0))"
proof (rule Slice_find_first)
  show "Slice_to_string ''GET /'' (Slice_of 1 4) = Inr ''ET /''"
    by (simp add: Slice_to_string_def Slice_of_def)
qed auto

text \<open>The loop over the positions never touches index 1.\<close>

lemma table_loop_keeps_1:
  "table_loop p nx ps = Some nx' \<Longrightarrow> \<forall>q \<in> set ps. 2 \<le> q \<Longrightarrow> nx' ! 1 = nx ! 1"
proof (induction ps arbitrary: nx)
  case Nil
  then show ?case by simp
next
  case (Cons q ps)
  then obtain n1 where n1: "table_step p nx q = Some n1" "table_loop p n1 ps = Some nx'"
    by (auto split: option.splits)
  have "n1 ! 1 = nx ! 1"
    using n1(1) Cons.prems(2) by (auto simp: table_step_def Let_def split: option.splits if_splits)
  then show ?case using Cons.IH [OF n1(2)] Cons.prems(2) by simp
qed

lemma next_table_1: "2 \<le> length p \<Longrightarrow> next_table p = Some next \<Longrightarrow> next ! 1 = 0"
  unfolding next_table_def by (drule table_loop_keeps_1) auto

lemma doubled_head_scan:
  assumes "a \<noteq> b" and "p = a # a # b # r" and "next_table p = Some next"
  shows "scan (a # p) p next 0 0 = scan (a # p) p next 2 0"
proof -
  have t: "table_ok p next" "next ! 1 = 0"
    using next_table_ok [of p] next_table_1 [of p] assms(2,3) by auto
  have "scan (a # p) p next 0 0 = scan (a # p) p next 0 1"
    using assms(2) scan_more [of 0 0 "a # p" p] by simp
  also have "\<dots> = scan (a # p) p next 0 2"
    using assms(2) scan_more [of 0 1 "a # p" p] by (simp add: numeral_2_eq_2)
  also have "\<dots> = scan (a # p) p next (0 + 2 - next ! 1) (next ! 1)"
    using assms(1,2) t(1) scan_shift [of 0 2 "a # p" p "next"] by (simp add: table_ok_def)
  finally show ?thesis using t(2) by (simp add: numeral_2_eq_2)
qed

text \<open>C30: A pattern that begins with a doubled character followed by a different one is
  missed when the text is the pattern with that character once more in front: the table
  keeps 0 at index 1, the scan jumps over the occurrence at position 1, returns \<open>npos\<close> with
  assertions compiled out, and fails its own assertion in the default build.\<close>

theorem Slice_find_misses:
  assumes "a \<noteq> b" and "p = a # a # b # r"
  shows "kmp_find (a # p) p = Some (Inr None) \<and> string_find (a # p) p 0 = Some 1 \<and>
    Slice_find (a # p) (Slice_of 0 (length (a # p))) p = Some (Inl Assertion_failed)"
proof -
  let ?s = "a # p"
  obtain "next" where tab: "next_table p = Some next" "table_ok p next"
    using next_table_ok by blast
  have "matched ?s p 2 0" using assms by (simp add: matched_def)
  from scan_ends [OF tab(2) this] doubled_head_scan [OF assms tab(1)]
  obtain m i where r: "scan ?s p next 0 0 = Some (Inr (m, i))" "2 \<le> m"
    "(i = length p \<and> occurs_at ?s p m) \<or> (i < length p \<and> m + i = length ?s)" by auto
  then have "i < length p" "m + i = length ?s" by (auto simp: occurs_at_def)
  then have miss: "kmp_find ?s p = Some (Inr None)"
    using r(1) tab(1) by (simp add: kmp_find_def)
  have "occurs_at ?s p 1" by (simp add: occurs_at_def)
  moreover have "\<not> occurs_at ?s p 0" using assms by (simp add: occurs_at_def)
  ultimately have first: "string_find ?s p 0 = Some 1"
    by (simp add: string_find_Some)
  have "Slice_to_string ?s (Slice_of 0 (length ?s)) = Inr ?s"
    by (simp add: Slice_to_string_def Slice_of_def)
  then have "Slice_find ?s (Slice_of 0 (length ?s)) p = Some (Inl Assertion_failed)"
    using miss first by (simp add: Slice_find_def Slice_of_def)
  with miss first show ?thesis by blast
qed

theorem Slice_find_misses_witness:
  "kmp_find ''aaab'' ''aab'' = Some (Inr None) \<and> string_find ''aaab'' ''aab'' 0 = Some 1"
  using Slice_find_misses [of "CHR ''a''" "CHR ''b''" "''aab''" "[]"] by simp

end
