(* ===== verification/Slice_Automaton.thy ===== *)
theory Slice_Automaton
  imports Slice "HOL-Library.AList" "HOL-Library.Sublist"
begin

text \<open>
  \<open>Slice::InternalFind\<close> (src/fx_slice.cc): the search with an automaton, a private function that
  nobody calls. The automaton is a table from characters to vectors of states; its \<open>std::map\<close> is
  an association list, whose order plays no role. An index beyond a vector is a fault. The
  result is that of \<open>std::string::find\<close>, for every pattern but the empty one.
\<close>

section \<open>The search\<close>

type_synonym dfa = "(char \<times> nat list) list"

text \<open>\<open>dfa[c]\<close>, which makes an empty vector for a new key; \<open>dfa[c][i]\<close> as a value and as a target.\<close>

definition dfa_vector :: "dfa \<Rightarrow> char \<Rightarrow> nat list" where
  "dfa_vector d c = (case map_of d c of None \<Rightarrow> [] | Some v \<Rightarrow> v)"

definition dfa_get :: "dfa \<Rightarrow> char \<Rightarrow> nat \<Rightarrow> nat result" where
  "dfa_get d c i = (let v = dfa_vector d c in if i < length v then Inr (v ! i) else Inl Out_of_bounds)"

definition dfa_put :: "dfa \<Rightarrow> char \<Rightarrow> nat \<Rightarrow> nat \<Rightarrow> dfa result" where
  "dfa_put d c i x =
     (let v = dfa_vector d c in if i < length v then Inr (AList.update c (v[i := x]) d) else Inl Out_of_bounds)"

definition dfa_resize :: "nat \<Rightarrow> char \<Rightarrow> dfa \<Rightarrow> dfa" where
  "dfa_resize n c d = (let v = dfa_vector d c in AList.update c (take n v @ replicate (n - length v) 0) d)"

text \<open>The loop over all keys, which copies column \<open>x\<close> to column \<open>idx\<close>.\<close>

fun dfa_copy :: "nat \<Rightarrow> nat \<Rightarrow> dfa \<Rightarrow> dfa result" where
  "dfa_copy idx x [] = Inr []"
| "dfa_copy idx x ((c, v) # d) =
     (if x < length v \<and> idx < length v
      then andthen (dfa_copy idx x d) (\<lambda>d1. Inr ((c, v[idx := v ! x]) # d1))
      else Inl Out_of_bounds)"

text \<open>The columns from \<open>idx\<close> on; an entry is an \<open>unsigned\<close>.\<close>

fun dfa_loop :: "string \<Rightarrow> nat list \<Rightarrow> nat \<Rightarrow> dfa \<Rightarrow> dfa result" where
  "dfa_loop p [] x d = Inr d"
| "dfa_loop p (idx # rest) x d =
     andthen (dfa_copy idx x d) (\<lambda>d1.
     andthen (dfa_put d1 (p ! idx) idx (to_uint32 (int idx + 1))) (\<lambda>d2.
     andthen (dfa_get d2 (p ! idx) x) (\<lambda>x1. dfa_loop p rest x1 d2)))"

definition make_dfa :: "string \<Rightarrow> string \<Rightarrow> dfa result" where
  "make_dfa s p =
     (let d = fold (dfa_resize (length p)) (s @ p) [];
          p0 = (if p = [] then CHR 0x00 else p ! 0) in
      andthen (dfa_put d p0 0 1) (dfa_loop p [1 ..< length p] 0))"

text \<open>The loop over the text: what is left of it, the index and the state.\<close>

fun dfa_scan :: "dfa \<Rightarrow> nat \<Rightarrow> string \<Rightarrow> nat \<Rightarrow> nat \<Rightarrow> (nat \<times> nat) result" where
  "dfa_scan d n [] idx m = Inr (idx, m)"
| "dfa_scan d n (c # s) idx m =
     (if m < n then andthen (dfa_get d c m) (dfa_scan d n s (idx + 1)) else Inr (idx, m))"

definition InternalFind :: "string \<Rightarrow> slice \<Rightarrow> string \<Rightarrow> nat option result" where
  "InternalFind mem sl p =
     andthen (Slice_to_string mem sl) (\<lambda>s.
     andthen (make_dfa s p) (\<lambda>d.
     andthen (dfa_scan d (length p) s 0 0) (\<lambda>(idx, m).
       Inr (if m = length p then Some (idx - length p) else None))))"

section \<open>What a state stands for\<close>

text \<open>The state after \<open>t\<close> is the length of the longest prefix of the pattern that \<open>t\<close> ends with.\<close>

definition longest :: "string \<Rightarrow> string \<Rightarrow> nat" where
  "longest p t = Max {k. k \<le> length p \<and> suffix (take k p) t}"

lemma longest_max:
  "longest p t \<le> length p" "suffix (take (longest p t) p) t"
  "k \<le> length p \<Longrightarrow> suffix (take k p) t \<Longrightarrow> k \<le> longest p t"
proof -
  let ?K = "{k. k \<le> length p \<and> suffix (take k p) t}"
  have fin: "finite ?K" by simp
  have "0 \<in> ?K" by simp
  then have "Max ?K \<in> ?K" using fin Max_in by blast
  then show "longest p t \<le> length p" "suffix (take (longest p t) p) t" by (simp_all add: longest_def)
  show "k \<le> length p \<Longrightarrow> suffix (take k p) t \<Longrightarrow> k \<le> longest p t"
    using fin by (simp add: longest_def)
qed

lemma longest_eqI:
  assumes "k \<le> length p" "suffix (take k p) t" "\<And>j. j \<le> length p \<Longrightarrow> suffix (take j p) t \<Longrightarrow> j \<le> k"
  shows "longest p t = k"
  using longest_max(3) [OF assms(1,2)] assms(3) [OF longest_max(1) longest_max(2)] by simp

lemma longest_Nil [simp]: "longest p [] = 0"
  by (rule longest_eqI) auto

lemma longest_le: "longest p t \<le> length t"
  using suffix_length_le [OF longest_max(2) [of p t]] longest_max(1) [of p t] by simp

text \<open>A character later, only the state matters.\<close>

lemma suffix_take_snoc:
  assumes "j < length p"
  shows "suffix (take (Suc j) p) (t @ [c]) \<longleftrightarrow> suffix (take j p) t \<and> p ! j = c"
  using assms by (simp add: take_Suc_conv_app_nth) blast

lemma longest_same:
  assumes "\<And>j. j \<le> length p \<Longrightarrow> suffix (take j p) t \<longleftrightarrow> suffix (take j p) u"
  shows "longest p t = longest p u"
proof -
  have "{k. k \<le> length p \<and> suffix (take k p) t} = {k. k \<le> length p \<and> suffix (take k p) u}"
    using assms by auto
  then show ?thesis by (simp add: longest_def)
qed

lemma longest_snoc: "longest p (t @ [c]) = longest p (take (longest p t) p @ [c])"
proof (rule longest_same)
  fix j assume j: "j \<le> length p"
  show "suffix (take j p) (t @ [c]) \<longleftrightarrow> suffix (take j p) (take (longest p t) p @ [c])"
  proof (cases j)
    case 0
    then show ?thesis by simp
  next
    case (Suc i)
    have "suffix (take i p) t \<longleftrightarrow> suffix (take i p) (take (longest p t) p)"
    proof
      assume i: "suffix (take i p) t"
      then have "i \<le> longest p t" using j Suc by (intro longest_max(3)) simp_all
      then have "length (take i p) \<le> length (take (longest p t) p)" by simp
      with i longest_max(2) [of p t] show "suffix (take i p) (take (longest p t) p)"
        by (metis suffix_length_suffix)
    qed (use longest_max(2) [of p t] in \<open>blast intro: suffix_order.trans\<close>)
    then show ?thesis using j Suc by (simp add: suffix_take_snoc del: suffix_snoc)
  qed
qed

text \<open>The transition of a state by a character, and its three cases.\<close>

definition goto_state :: "string \<Rightarrow> nat \<Rightarrow> char \<Rightarrow> nat" where
  "goto_state p m c = longest p (take m p @ [c])"

lemma goto_match: "m < length p \<Longrightarrow> p ! m = c \<Longrightarrow> goto_state p m c = Suc m"
  unfolding goto_state_def
proof (rule longest_eqI)
  show "j \<le> length p \<Longrightarrow> suffix (take j p) (take m p @ [c]) \<Longrightarrow> j \<le> Suc m" for j
    by (drule suffix_length_le) simp
qed (simp_all add: suffix_take_snoc del: suffix_snoc)

lemma goto_other:
  assumes "m < length p" "p ! m \<noteq> c"
  shows "goto_state p m c = (if m = 0 then 0 else goto_state p (longest p (drop 1 (take m p))) c)"
proof (cases "m = 0")
  case True
  have "longest p [c] = 0"
  proof (rule longest_eqI)
    fix j assume "j \<le> length p" "suffix (take j p) [c]"
    then show "j \<le> 0" using assms True by (cases j) (auto simp: suffix_take_snoc [of _ p "[]", simplified])
  qed simp_all
  then show ?thesis using True by (simp add: goto_state_def)
next
  case False
  have "longest p (take m p @ [c]) = longest p (drop 1 (take m p) @ [c])"
  proof (rule longest_same)
    fix j assume j: "j \<le> length p"
    show "suffix (take j p) (take m p @ [c]) \<longleftrightarrow> suffix (take j p) (drop 1 (take m p) @ [c])"
    proof (cases j)
      case 0
      then show ?thesis by simp
    next
      case (Suc i)
      have "suffix (take i p) (take m p) \<and> p ! i = c \<longleftrightarrow> suffix (take i p) (drop 1 (take m p)) \<and> p ! i = c"
      proof
        assume i: "suffix (take i p) (take m p) \<and> p ! i = c"
        then have "length (take i p) \<le> length (take m p)" by (blast dest: suffix_length_le)
        then have "i < m" using i assms j Suc by (cases "i = m") auto
        then have "length (take i p) \<le> length (drop 1 (take m p))" using assms(1) by simp
        then show "suffix (take i p) (drop 1 (take m p)) \<and> p ! i = c"
          using i suffix_drop [where n = 1 and as = "take m p"] by (metis suffix_length_suffix)
      qed (use suffix_drop [where n = 1 and as = "take m p"] in \<open>blast intro: suffix_order.trans\<close>)
      then show ?thesis using j Suc by (simp add: suffix_take_snoc del: suffix_snoc)
    qed
  qed
  then show ?thesis using False longest_snoc [of p "drop 1 (take m p)" c] by (simp add: goto_state_def)
qed

section \<open>The table\<close>

definition dfa_upto :: "string \<Rightarrow> nat \<Rightarrow> dfa \<Rightarrow> bool" where
  "dfa_upto p idx d \<longleftrightarrow>
     distinct (map fst d) \<and>
     (\<forall>c v. map_of d c = Some v \<longrightarrow> length v = length p \<and> (\<forall>j < idx. v ! j = goto_state p j c))"

lemma dfa_copy_ok:
  "\<forall>(c, v) \<in> set d. x < length v \<and> idx < length v \<Longrightarrow>
     dfa_copy idx x d = Inr (map (\<lambda>(c, v). (c, v[idx := v ! x])) d)"
  by (induction d) auto

lemma dfa_put_ok: "map_of d c = Some v \<Longrightarrow> i < length v \<Longrightarrow> dfa_put d c i y = Inr (AList.update c (v[i := y]) d)"
  by (simp add: dfa_put_def dfa_vector_def)

lemma dfa_get_ok: "map_of d c = Some v \<Longrightarrow> i < length v \<Longrightarrow> dfa_get d c i = Inr (v ! i)"
  by (simp add: dfa_get_def dfa_vector_def)

lemma dfa_step_ok:
  assumes d: "dfa_upto p idx d" and idx: "0 < idx" "idx < length p" "length p < 2 ^ 32"
    and x: "x = longest p (drop 1 (take idx p))" and key: "map_of d (p ! idx) \<noteq> None"
  shows "\<exists>d1 d2. dfa_copy idx x d = Inr d1 \<and> dfa_put d1 (p ! idx) idx (to_uint32 (int idx + 1)) = Inr d2 \<and>
     dfa_get d2 (p ! idx) x = Inr (longest p (drop 1 (take (Suc idx) p))) \<and>
     dfa_upto p (Suc idx) d2 \<and> dom (map_of d2) = dom (map_of d)"
proof -
  have "x < idx" using longest_le [of p "drop 1 (take idx p)"] idx(1,2) by (simp add: x)
  have len: "length v = length p" "\<And>j. j < idx \<Longrightarrow> v ! j = goto_state p j c" if "map_of d c = Some v" for c v
    using d that by (auto simp: dfa_upto_def)
  define d1 where "d1 = map (\<lambda>(c, v). (c, v[idx := v ! x])) d"
  have "\<forall>(c, v) \<in> set d. x < length v \<and> idx < length v"
  proof safe
    fix c v assume "(c, v) \<in> set d"
    then have "map_of d c = Some v" using d by (simp add: dfa_upto_def)
    from len(1) [OF this] show "x < length v" "idx < length v" using idx(2) \<open>x < idx\<close> by simp_all
  qed
  then have copy: "dfa_copy idx x d = Inr d1" unfolding d1_def by (rule dfa_copy_ok)
  have d1: "map_of d1 = map_option (\<lambda>v. v[idx := v ! x]) \<circ> map_of d" unfolding d1_def by (rule map_of_map)
  obtain v where v: "map_of d (p ! idx) = Some v" using key by blast
  define v2 where "v2 = v[idx := Suc idx]"
  define d2 where "d2 = AList.update (p ! idx) v2 d1"
  have "to_uint32 (int idx + 1) = Suc idx" using idx(2,3) by (simp add: to_uint32_def nat_add_distrib)
  then have put: "dfa_put d1 (p ! idx) idx (to_uint32 (int idx + 1)) = Inr d2"
    using dfa_put_ok [of d1 "p ! idx" "v[idx := v ! x]" idx] v len(1) [OF v] idx(2) by (simp add: d1 d2_def v2_def)
  have d2: "map_of d2 = (map_of d1)(p ! idx \<mapsto> v2)" by (simp add: d2_def update_conv')
  have take: "drop 1 (take (Suc idx) p) = drop 1 (take idx p) @ [p ! idx]"
    using idx by (simp add: take_Suc_conv_app_nth)
  have get: "dfa_get d2 (p ! idx) x = Inr (longest p (drop 1 (take (Suc idx) p)))"
  proof -
    have "dfa_get d2 (p ! idx) x = Inr (v2 ! x)"
      by (rule dfa_get_ok) (use d2 len(1) [OF v] \<open>x < idx\<close> idx(2) in \<open>simp_all add: v2_def\<close>)
    also have "v2 ! x = goto_state p x (p ! idx)" using len(2) [OF v] \<open>x < idx\<close> by (simp add: v2_def)
    also have "\<dots> = longest p (drop 1 (take (Suc idx) p))"
      unfolding goto_state_def take x by (rule longest_snoc [symmetric])
    finally show ?thesis .
  qed
  have "dfa_upto p (Suc idx) d2"
    unfolding dfa_upto_def
  proof (intro conjI allI impI)
    have "map fst d1 = map fst d" by (simp add: d1_def case_prod_beta' o_def)
    then show "distinct (map fst d2)" using d by (simp add: d2_def dfa_upto_def distinct_update)
    fix c u assume u: "map_of d2 c = Some u"
    then obtain v1 where v1: "map_of d c = Some v1" "u = (if c = p ! idx then v2 else v1[idx := v1 ! x])"
      using v by (auto simp: d2 d1 split: if_splits)
    then have same: "c = p ! idx \<Longrightarrow> v1 = v" using v by simp
    show "length u = length p" using len(1) [OF v1(1)] v1(2) same by (auto simp: v2_def)
    fix j assume "j < Suc idx"
    then consider "j < idx" | "j = idx" by linarith
    then show "u ! j = goto_state p j c"
    proof cases
      case 1
      then show ?thesis using len(2) [OF v1(1)] v1(2) same by (auto simp: v2_def)
    next
      case 2
      show ?thesis
      proof (cases "c = p ! idx")
        case True
        then show ?thesis using 2 v1(2) len(1) [OF v] idx(2) goto_match [of idx p c] by (simp add: v2_def)
      next
        case False
        then have "u ! j = v1 ! x" using 2 v1(2) len(1) [OF v1(1)] idx(2) by simp
        also have "\<dots> = goto_state p x c" using len(2) [OF v1(1)] \<open>x < idx\<close> by simp
        finally show ?thesis using goto_other [of idx p c] idx(1,2) False 2 by (simp add: x)
      qed
    qed
  qed
  moreover have "dom (map_of d2) = dom (map_of d)" using v by (auto simp: d2 d1)
  ultimately show ?thesis using copy put get by blast
qed

lemma dfa_loop_ok:
  assumes "dfa_upto p i d" "0 < i" "i \<le> length p" "length p < 2 ^ 32" "set p \<subseteq> dom (map_of d)"
  shows "\<exists>d1. dfa_loop p [i ..< length p] (longest p (drop 1 (take i p))) d = Inr d1 \<and>
     dfa_upto p (length p) d1 \<and> dom (map_of d1) = dom (map_of d)"
  using assms
proof (induction "length p - i" arbitrary: i d)
  case 0
  then show ?case by simp
next
  case (Suc k)
  then have i: "i < length p" by simp
  have "p ! i \<in> set p" using i by simp
  with Suc.prems(5) have "map_of d (p ! i) \<noteq> None" by blast
  from dfa_step_ok [OF Suc.prems(1,2) i Suc.prems(4) refl this] obtain d1 d2 where d:
    "dfa_copy i (longest p (drop 1 (take i p))) d = Inr d1" "dfa_put d1 (p ! i) i (to_uint32 (int i + 1)) = Inr d2"
    "dfa_get d2 (p ! i) (longest p (drop 1 (take i p))) = Inr (longest p (drop 1 (take (Suc i) p)))"
    "dfa_upto p (Suc i) d2" "dom (map_of d2) = dom (map_of d)" by blast
  have "k = length p - Suc i" "set p \<subseteq> dom (map_of d2)" using Suc.hyps(2) Suc.prems(5) d(5) by auto
  from Suc.hyps(1) [OF this(1) d(4) _ _ Suc.prems(4) this(2)] i obtain d3 where
    "dfa_loop p [Suc i ..< length p] (longest p (drop 1 (take (Suc i) p))) d2 = Inr d3"
    "dfa_upto p (length p) d3" "dom (map_of d3) = dom (map_of d)" using d(5) by auto
  then show ?case using d(1-3) i by (simp add: upt_conv_Cons)
qed

text \<open>The vectors before the first column is set.\<close>

definition blank :: "nat \<Rightarrow> dfa \<Rightarrow> bool" where
  "blank n d \<longleftrightarrow> distinct (map fst d) \<and> (\<forall>c v. map_of d c = Some v \<longrightarrow> v = replicate n 0)"

lemma blank_resize: "blank n d \<Longrightarrow> blank n (dfa_resize n c d) \<and> dom (map_of (dfa_resize n c d)) = insert c (dom (map_of d))"
proof -
  assume b: "blank n d"
  have v: "take n v @ replicate (n - length v) 0 = replicate n 0" if "v = dfa_vector d c" for v
  proof (cases "map_of d c")
    case None
    then show ?thesis using that by (simp add: dfa_vector_def)
  next
    case (Some u)
    then have "u = replicate n 0" using b by (simp add: blank_def)
    then show ?thesis using that Some by (simp add: dfa_vector_def)
  qed
  have "dfa_resize n c d = AList.update c (replicate n 0) d"
    unfolding dfa_resize_def Let_def v [OF refl] ..
  then show ?thesis using b by (auto simp: blank_def update_conv' distinct_update split: if_splits)
qed

lemma blank_fold:
  "blank n d \<Longrightarrow> blank n (fold (dfa_resize n) cs d) \<and> dom (map_of (fold (dfa_resize n) cs d)) = set cs \<union> dom (map_of d)"
  by (induction cs arbitrary: d) (auto simp: blank_resize)

lemma make_dfa_ok:
  assumes "p \<noteq> []" "length p < 2 ^ 32"
  shows "\<exists>d. make_dfa s p = Inr d \<and> dfa_upto p (length p) d \<and> dom (map_of d) = set s \<union> set p"
proof -
  define d0 where "d0 = fold (dfa_resize (length p)) (s @ p) []"
  have "blank (length p) []" by (simp add: blank_def)
  from blank_fold [OF this, of "s @ p"] have d0: "blank (length p) d0" "dom (map_of d0) = set s \<union> set p"
    by (simp_all add: d0_def)
  have "p ! 0 \<in> dom (map_of d0)" using assms(1) d0(2) by simp
  then have v0: "map_of d0 (p ! 0) = Some (replicate (length p) 0)" using d0(1) by (auto simp: blank_def)
  define d1 where "d1 = AList.update (p ! 0) ((replicate (length p) 0)[0 := 1]) d0"
  have put: "dfa_put d0 (p ! 0) 0 1 = Inr d1"
    unfolding d1_def by (rule dfa_put_ok [OF v0]) (simp add: assms(1))
  have "dfa_upto p 1 d1"
    unfolding dfa_upto_def
  proof (intro conjI allI impI)
    show "distinct (map fst d1)" using d0(1) by (simp add: d1_def blank_def distinct_update)
    fix c v assume "map_of d1 c = Some v"
    then have v: "v = (if c = p ! 0 then (replicate (length p) 0)[0 := 1] else replicate (length p) 0)"
      using d0(1) by (auto simp: d1_def update_conv' blank_def split: if_splits)
    then show "length v = length p" by simp
    fix j :: nat assume "j < 1"
    then show "v ! j = goto_state p j c"
      using v assms(1) goto_match [of 0 p c] goto_other [of 0 p c] by auto
  qed
  moreover have "dom (map_of d1) = set s \<union> set p" using assms(1) d0(2) by (auto simp: d1_def update_conv')
  ultimately obtain d2 where "dfa_loop p [1 ..< length p] (longest p (drop 1 (take 1 p))) d1 = Inr d2"
    "dfa_upto p (length p) d2" "dom (map_of d2) = set s \<union> set p"
    using dfa_loop_ok [of p 1 d1] assms by (auto simp: Suc_le_eq)
  moreover have "drop 1 (take 1 p) = []" using assms(1) by (cases p) simp_all
  moreover have "make_dfa s p = andthen (dfa_put d0 (p ! 0) 0 1) (dfa_loop p [1 ..< length p] 0)"
    using assms(1) by (simp only: make_dfa_def Let_def d0_def if_False)
  ultimately show ?thesis using put by simp
qed

section \<open>The search is that of the standard library\<close>

lemma dfa_scan_ok:
  assumes d: "dfa_upto p (length p) d" "set s \<subseteq> dom (map_of d)" and "p \<noteq> []"
    and before: "\<forall>j. j + length p < length t \<longrightarrow> \<not> occurs_at (t @ s) p j"
  shows "\<exists>idx m. dfa_scan d (length p) s (length t) (longest p t) = Inr (idx, m) \<and> m \<le> length p \<and>
     (if m = length p then Some (idx - length p) else None) = string_find (t @ s) p 0"
  using d(2) before
proof (induction s arbitrary: t)
  case Nil
  let ?m = "longest p t"
  have "(if ?m = length p then Some (length t - length p) else None) = string_find t p 0"
  proof (cases "?m = length p")
    case True
    then have "suffix p t" using longest_max(2) [of p t] by simp
    then obtain u where "t = u @ p" by (auto simp: suffix_def)
    then have "occurs_at t p (length u)" "length t - length p = length u" by (simp_all add: occurs_at_def)
    then have "string_find t p 0 = Some (length u)"
      using Nil.prems(2) \<open>t = u @ p\<close> by (auto simp: string_find_Some)
    then show ?thesis using True \<open>length t - length p = length u\<close> by simp
  next
    case False
    have "\<not> occurs_at t p j" for j
    proof
      assume o: "occurs_at t p j"
      then have "\<not> j + length p < length t" using Nil.prems(2) by auto
      then have "drop j t = p" using o by (simp add: occurs_at_def)
      then have "suffix (take (length p) p) t" using suffix_drop [where n = j and as = t] by simp
      then show False using longest_max(3) [of "length p" p t] longest_max(1) [of p t] False by simp
    qed
    then have "string_find t p 0 = None" by (simp add: string_find_None)
    then show ?thesis using False by simp
  qed
  then show ?case using longest_max(1) [of p t] by simp
next
  case (Cons c s)
  let ?m = "longest p t"
  show ?case
  proof (cases "?m = length p")
    case True
    then have "suffix p t" using longest_max(2) [of p t] by simp
    then obtain u where u: "t = u @ p" by (auto simp: suffix_def)
    then have "occurs_at (t @ c # s) p (length u)" by (simp add: occurs_at_def)
    then have "string_find (t @ c # s) p 0 = Some (length t - length p)"
      using Cons.prems(2) u by (auto simp: string_find_Some)
    then show ?thesis using True by simp
  next
    case False
    then have m: "?m < length p" using longest_max(1) [of p t] by simp
    obtain v where v: "map_of d c = Some v" using Cons.prems(1) by auto
    then have "length v = length p" "v ! ?m = goto_state p ?m c" using d(1) m by (auto simp: dfa_upto_def)
    then have get: "dfa_get d c ?m = Inr (longest p (t @ [c]))"
      using dfa_get_ok [OF v, of ?m] m longest_snoc [of p t c] by (simp add: goto_state_def)
    have "\<forall>j. j + length p < length (t @ [c]) \<longrightarrow> \<not> occurs_at ((t @ [c]) @ s) p j"
    proof (intro allI impI notI)
      fix j assume j: "j + length p < length (t @ [c])" "occurs_at ((t @ [c]) @ s) p j"
      show False
      proof (cases "j + length p < length t")
        case True
        then show ?thesis using Cons.prems(2) j(2) by simp
      next
        case False
        then have "take (length p) (drop j (t @ c # s)) = drop j t" using j(1) by simp
        then have "drop j t = p" using j(2) by (simp add: occurs_at_def)
        then have "suffix (take (length p) p) t" using suffix_drop [where n = j and as = t] by simp
        then show ?thesis using longest_max(3) [of "length p" p t] m by simp
      qed
    qed
    from Cons.IH [OF _ this] Cons.prems(1) obtain idx m' where
      "dfa_scan d (length p) s (length (t @ [c])) (longest p (t @ [c])) = Inr (idx, m')" "m' \<le> length p"
      "(if m' = length p then Some (idx - length p) else None) = string_find (t @ c # s) p 0" by auto
    then show ?thesis using get m by auto
  qed
qed

text \<open>C31: the automaton of \<open>InternalFind\<close> finds what \<open>std::string::find\<close> finds, for every text and every
  pattern that is not empty: no index of its tables is out of bounds, and the result is the first
  occurrence or \<open>npos\<close>. (The search \<open>find\<close> that is used in its place does not have this property.)\<close>

theorem InternalFind_string_find:
  assumes "Slice_to_string mem sl = Inr s" "p \<noteq> []" "length p < 2 ^ 32"
  shows "InternalFind mem sl p = Inr (string_find s p 0)"
proof -
  obtain d where d: "make_dfa s p = Inr d" "dfa_upto p (length p) d" "dom (map_of d) = set s \<union> set p"
    using make_dfa_ok [OF assms(2,3)] by blast
  have "set s \<subseteq> dom (map_of d)" using d(3) by simp
  from dfa_scan_ok [OF d(2) this assms(2), of "[]"] show ?thesis
    using assms(1) d(1) by (auto simp: InternalFind_def)
qed

theorem InternalFind_string_find_witness:
  "InternalFind ''xaaab'' (Slice_of 1 4) ''aab'' = Inr (string_find ''aaab'' ''aab'' 0)"
proof (rule InternalFind_string_find)
  show "Slice_to_string ''xaaab'' (Slice_of 1 4) = Inr ''aaab''"
    by (simp add: Slice_to_string_def Slice_of_def)
qed auto

text \<open>The empty pattern indexes an empty vector.\<close>

theorem InternalFind_empty_pattern:
  assumes "Slice_to_string mem sl = Inr s"
  shows "InternalFind mem sl [] = Inl Out_of_bounds"
proof -
  have "blank 0 (fold (dfa_resize 0) s [])" using blank_fold [of 0 "[]" s] by (simp add: blank_def)
  then have "dfa_vector (fold (dfa_resize 0) s []) (CHR 0x00) = []"
    by (cases "map_of (fold (dfa_resize 0) s []) (CHR 0x00)") (auto simp: dfa_vector_def blank_def)
  then show ?thesis using assms by (simp add: InternalFind_def make_dfa_def Let_def dfa_put_def)
qed

end
