(* ===== verification/Ring_Buffer.thy ===== *)
theory Ring_Buffer
  imports Queues "HOL-Library.Word"
begin

text \<open>
  The shared-memory ring of framed messages \<open>fx::base::RingBuffer\<close>
  (base/bus/ring_buffer.h, base/bus/ring_buffer.cc). The record holds what lies in the
  mapping: the two offsets and the counter of \<open>OffsetData\<close>, and the bytes from \<open>start_\<close> to
  \<open>end_\<close>. Pointers are offsets from \<open>start_\<close>. A frame is the four bytes of the message
  length (little-endian, as the code copies an \<open>int\<close>) and the message.

  The contract is a first-in first-out queue of messages. The lemmas show that \<open>Push\<close> and
  \<open>Pop\<close> keep it as long as a pushed frame fits together with its header and the header does
  not start in the last three bytes or at the end of the area, and what happens otherwise.
\<close>

type_synonym byte = "8 word"
type_synonym message = "byte list"

section \<open>State and constants\<close>

record ring =
  front_offset :: int
  back_offset :: int
  element_size :: nat
  area :: "byte list"

definition kMaxBufferBodyLength :: nat where
  "kMaxBufferBodyLength = 65536"

definition kBufferHeaderLength :: nat where
  "kBufferHeaderLength = 4"

definition kExtraSpace :: nat where
  "kExtraSpace = 1"

definition sizeof_OffsetData :: nat where
  "sizeof_OffsetData = 24"

abbreviation area_len :: "ring \<Rightarrow> int" where
  "area_len rb \<equiv> int (length (area rb))"

text \<open>
  The constructor over \<open>nbytes\<close> bytes of memory that already hold \<open>seg\<close>: both assertions,
  then the offsets are reset unless the old ones are reused.
\<close>

definition RingBuffer_init :: "nat \<Rightarrow> ring \<Rightarrow> bool \<Rightarrow> ring result" where
  "RingBuffer_init nbytes seg reuse_offsetdata =
     asserting (sizeof_OffsetData + kExtraSpace \<le> nbytes)
       (Inr (if reuse_offsetdata then seg
             else seg\<lparr>front_offset := 0, back_offset := 0, element_size := 0\<rparr>))"

section \<open>Reading and writing the area\<close>

definition mem_write :: "byte list \<Rightarrow> int \<Rightarrow> byte list \<Rightarrow> byte list result" where
  "mem_write a off bs =
     (if 0 \<le> off \<and> nat off + length bs \<le> length a then Inr (overwrite a (nat off) bs)
      else Inl Out_of_bounds)"

definition mem_read :: "byte list \<Rightarrow> int \<Rightarrow> int \<Rightarrow> byte list result" where
  "mem_read a off n =
     (if 0 \<le> off \<and> 0 \<le> n \<and> nat off + nat n \<le> length a then Inr (take (nat n) (drop (nat off) a))
      else Inl Out_of_bounds)"

text \<open>The object representation of an \<open>int\<close>.\<close>

definition int_bytes :: "int \<Rightarrow> byte list" where
  "int_bytes n = [word_of_int n, word_of_int (n div 256), word_of_int (n div 256 div 256),
     word_of_int (n div 256 div 256 div 256)]"

definition bytes_int :: "byte list \<Rightarrow> int" where
  "bytes_int bs = to_int32 (uint (bs ! 0) + 256 * (uint (bs ! 1) + 256 * (uint (bs ! 2)
     + 256 * uint (bs ! 3))))"

section \<open>Operations\<close>

definition space_left :: "ring \<Rightarrow> int" where
  "space_left rb =
     (let front = front_offset rb; back = back_offset rb in
      to_int32 (if back \<ge> front then area_len rb - back + front - int kExtraSpace
                else front - back - int kExtraSpace))"

definition ring_empty :: "ring \<Rightarrow> bool" where
  "ring_empty rb \<longleftrightarrow> front_offset rb = back_offset rb"

definition set_size :: "ring \<Rightarrow> nat \<Rightarrow> ring" where
  "set_size rb new_size = rb\<lparr>element_size := new_size\<rparr>"

definition set_front :: "ring \<Rightarrow> int \<Rightarrow> ring result" where
  "set_front rb front = asserting (0 \<le> front) (Inr (rb\<lparr>front_offset := front\<rparr>))"

definition set_back :: "ring \<Rightarrow> int \<Rightarrow> ring result" where
  "set_back rb back = asserting (0 \<le> back) (Inr (rb\<lparr>back_offset := back\<rparr>))"

definition ring_Write :: "ring \<Rightarrow> message \<Rightarrow> ring result" where
  "ring_Write rb buf =
     (let back = back_offset rb; len = int (length buf); hdr = int_bytes len; lim = area_len rb in
      asserting (back \<le> lim)
       (andthen
         (if back + len + 4 \<le> lim then
            andthen (mem_write (area rb) back hdr) (\<lambda>a1.
            andthen (mem_write a1 (back + 4) buf) (\<lambda>a2. Inr (a2, back + 4 + len)))
          else if back + 4 \<le> lim then
            andthen (mem_write (area rb) back hdr) (\<lambda>a1.
            let first = lim - (back + 4) in
            andthen (mem_write a1 (back + 4) (take (nat first) buf)) (\<lambda>a2.
            andthen (mem_write a2 0 (drop (nat first) buf)) (\<lambda>a3. Inr (a3, len - first))))
          else
            let first = lim - back in
            andthen (mem_write (area rb) back (take (nat first) hdr)) (\<lambda>a1.
            andthen (mem_write a1 0 (drop (nat first) hdr)) (\<lambda>a2.
            andthen (mem_write a2 (4 - first) buf) (\<lambda>a3. Inr (a3, 4 - first + len)))))
         (\<lambda>(a, back'). set_back (rb\<lparr>area := a\<rparr>) back')))"

definition ring_Push :: "ring \<Rightarrow> message \<Rightarrow> (bool \<times> ring) result" where
  "ring_Push rb buf =
     asserting (0 < length buf)
      (if int (length buf) > space_left rb then Inr (False, rb)
       else andthen (ring_Write rb buf) (\<lambda>rb'.
              Inr (True, set_size rb' (size_add 1 (element_size rb')))))"

definition NextBufferLength :: "ring \<Rightarrow> int result" where
  "NextBufferLength rb =
     (let front = front_offset rb; lim = area_len rb in
      asserting (\<not> ring_empty rb)
       (if front + 4 \<le> lim then andthen (mem_read (area rb) front 4) (\<lambda>bs. Inr (bytes_int bs))
        else
          let offset = lim - front in
          andthen (mem_read (area rb) front offset) (\<lambda>bs1.
          andthen (mem_read (area rb) 0 (4 - offset)) (\<lambda>bs2. Inr (bytes_int (bs1 @ bs2))))))"

text \<open>
  \<open>Read\<close> copies the message to a thread-local buffer of \<open>kMaxBufferBodyLength\<close> bytes and
  returns a pointer to it; the result here is its contents. The three branches are those of
  the code, the new front included.
\<close>

definition ring_Read :: "ring \<Rightarrow> (message option \<times> ring) result" where
  "ring_Read rb =
     (let front = front_offset rb; lim = area_len rb in
      if ring_empty rb then Inr (None, rb)
      else andthen (NextBufferLength rb) (\<lambda>n.
        asserting (0 < n) (asserting (nat n \<le> kMaxBufferBodyLength)
        (let content = front + 4 in
         andthen
          (if content > lim then
             let offset = content - lim in
             andthen (mem_read (area rb) offset n) (\<lambda>bs. Inr (bs, offset))
           else if content + n > lim then
             let tail_length = lim - content in
             andthen (mem_read (area rb) content tail_length) (\<lambda>bs1.
             andthen (mem_read (area rb) 0 (n - tail_length)) (\<lambda>bs2.
               Inr (bs1 @ bs2, n - tail_length)))
           else andthen (mem_read (area rb) content n) (\<lambda>bs. Inr (bs, content + n)))
          (\<lambda>(bs, front'). andthen (set_front rb front') (\<lambda>rb'. Inr (Some bs, rb')))))))"

text \<open>\<open>set_size(element_size() - 1)\<close> is a \<open>size_t\<close> subtraction: 0 becomes \<open>2 ^ 64 - 1\<close>.\<close>

definition ring_Pop :: "ring \<Rightarrow> (message option \<times> ring) result" where
  "ring_Pop rb =
     (if ring_empty rb then Inr (None, rb)
      else andthen (ring_Read rb) (\<lambda>(buf, rb').
             Inr (buf, set_size rb' (size_add (element_size rb') (2 ^ 64 - 1)))))"

section \<open>Headers\<close>

lemma int_bytes_length [simp]: "length (int_bytes n) = 4"
  by (simp add: int_bytes_def)

lemma low_digit: "0 \<le> k \<Longrightarrow> (x::int) mod 256 + 256 * (x div 256 mod k) = x mod (256 * k)"
  by (simp only: zmod_zmult2_eq add.commute)

lemma uint_byte: "uint (word_of_int x :: byte) = x mod 256"
  by (simp add: uint_word_of_int)

lemma bytes_int_int_bytes:
  assumes "- (2 ^ 31) \<le> n" and "n < 2 ^ 31"
  shows "bytes_int (int_bytes n) = n"
proof -
  have "bytes_int (int_bytes n) = to_int32 (n mod 256 + 256 * (n div 256 mod 256 +
      256 * (n div 256 div 256 mod 256 + 256 * (n div 256 div 256 div 256 mod 256))))"
    by (simp only: bytes_int_def int_bytes_def nth_Cons_0 nth_Cons_Suc One_nat_def
        numeral_2_eq_2 numeral_3_eq_3 uint_byte)
  also have "\<dots> = to_int32 (n mod (256 * (256 * (256 * 256))))"
    by (simp only: low_digit zero_le_numeral mult_nonneg_nonneg)
  also have "(256 * (256 * (256 * 256)) :: int) = 2 ^ 32"
    by simp
  also have "to_int32 (n mod 2 ^ 32) = to_int32 n"
    unfolding to_int32_def by (simp only: mod_add_left_eq)
  finally show ?thesis using assms by (simp only: to_int32_exact)
qed
section \<open>The queue a ring stands for\<close>

definition frame :: "message \<Rightarrow> byte list" where
  "frame m = int_bytes (int (length m)) @ m"

definition frames :: "message list \<Rightarrow> byte list" where
  "frames ms = concat (map frame ms)"

text \<open>The offset \<open>k\<close> bytes after \<open>f\<close>; the code lets an offset reach the end of the area.\<close>

definition place :: "nat \<Rightarrow> nat \<Rightarrow> nat \<Rightarrow> nat" where
  "place n f k = (if f + k \<le> n then f + k else f + k - n)"

definition valid_message :: "message \<Rightarrow> bool" where
  "valid_message m \<longleftrightarrow> 0 < length m \<and> length m \<le> kMaxBufferBodyLength"

text \<open>Every header of the queued frames lies in one piece.\<close>

fun headers_whole :: "nat \<Rightarrow> nat \<Rightarrow> message list \<Rightarrow> bool" where
  "headers_whole n f [] = True"
| "headers_whole n f (m # ms) = (f + 4 \<le> n \<and> headers_whole n (place n f (4 + length m)) ms)"

definition ring_rep :: "ring \<Rightarrow> message list \<Rightarrow> bool" where
  "ring_rep rb ms \<longleftrightarrow>
     (\<exists>f. front_offset rb = int f \<and> f \<le> length (area rb)
        \<and> back_offset rb = int (place (length (area rb)) f (length (frames ms)))
        \<and> length (frames ms) < length (area rb) \<and> length (area rb) < 2 ^ 31
        \<and> (\<forall>k < length (frames ms). area rb ! ((f + k) mod length (area rb)) = frames ms ! k)
        \<and> (\<forall>m \<in> set ms. valid_message m) \<and> headers_whole (length (area rb)) f ms
        \<and> element_size rb = length ms)"

lemma frames_simps [simp]:
  "frames [] = []" "frames (m # ms) = frame m @ frames ms" "frames (ms @ ms') = frames ms @ frames ms'"
  by (simp_all add: frames_def)

lemma length_frame [simp]: "length (frame m) = 4 + length m"
  by (simp add: frame_def)

lemma length_le_frames: "length ms \<le> length (frames ms)"
  by (induction ms) simp_all

lemma place_place:
  "f \<le> n \<Longrightarrow> a + b < n \<Longrightarrow> place n (place n f a) b = place n f (a + b)"
  by (auto simp: place_def)

lemma place_le: "f \<le> n \<Longrightarrow> a \<le> n \<Longrightarrow> place n f a \<le> n"
  by (auto simp: place_def)

lemma place_mod: "f \<le> n \<Longrightarrow> (place n f a + b) mod n = (f + (a + b)) mod n"
proof (cases "f + a \<le> n")
  case True
  then show ?thesis by (simp add: place_def add.assoc)
next
  case False
  then have "(f + (a + b)) mod n = (f + a - n + b + n) mod n" by (simp add: add.assoc)
  also have "\<dots> = (f + a - n + b) mod n" by (rule mod_add_self2)
  finally show ?thesis using False by (simp add: place_def)
qed

lemma headers_whole_append:
  "f \<le> n \<Longrightarrow> length (frames ms) + length (frames ms') < n \<Longrightarrow>
   headers_whole n f (ms @ ms') \<longleftrightarrow>
     headers_whole n f ms \<and> headers_whole n (place n f (length (frames ms))) ms'"
proof (induction ms arbitrary: f)
  case Nil
  then show ?case by (simp add: place_def)
next
  case (Cons m ms)
  have "place n f (4 + length m) \<le> n" using Cons.prems by (intro place_le) auto
  moreover have "place n (place n f (4 + length m)) (length (frames ms))
      = place n f (4 + length m + length (frames ms))"
    using Cons.prems by (intro place_place) auto
  ultimately show ?case using Cons.IH [of "place n f (4 + length m)"] Cons.prems
    by (simp add: add.assoc)
qed

lemma space_left_rep:
  assumes "ring_rep rb ms"
  shows "space_left rb = area_len rb - int (length (frames ms)) - 1"
proof -
  obtain f where "front_offset rb = int f" "f \<le> length (area rb)"
    "back_offset rb = int (place (length (area rb)) f (length (frames ms)))"
    "length (frames ms) < length (area rb)" "length (area rb) < 2 ^ 31"
    using assms by (auto simp: ring_rep_def)
  then show ?thesis
    by (auto simp: space_left_def place_def kExtraSpace_def Let_def)
qed

text \<open>Writing a frame at \<open>b\<close>, around the end of the area where it has to.\<close>

definition wrap_write :: "byte list \<Rightarrow> nat \<Rightarrow> byte list \<Rightarrow> byte list" where
  "wrap_write a b xs =
     (if b + length xs \<le> length a then overwrite a b xs
      else overwrite (overwrite a b (take (length a - b) xs)) 0 (drop (length a - b) xs))"

lemma wrap_write_length [simp]:
  "b \<le> length a \<Longrightarrow> length xs \<le> length a \<Longrightarrow> length (wrap_write a b xs) = length a"
  by (simp add: wrap_write_def)

lemma nth_wrap_write_in:
  assumes "b \<le> length a" "length xs < length a" "j < length xs"
  shows "wrap_write a b xs ! ((b + j) mod length a) = xs ! j"
proof (cases "b + j < length a")
  case True
  then show ?thesis using assms
    by (auto simp: wrap_write_def nth_overwrite)
next
  case False
  then have "(b + j) mod length a = b + j - length a"
    using assms by (simp add: le_mod_geq)
  then show ?thesis using assms False
    by (auto simp: wrap_write_def nth_overwrite)
qed

lemma nth_wrap_write_out:
  assumes "b \<le> length a" "length xs + k < length a" "0 < k"
  shows "wrap_write a b xs ! ((b + length a - k) mod length a) = a ! ((b + length a - k) mod length a)"
proof (cases "k \<le> b")
  case True
  then have "(b + length a - k) mod length a = b - k"
    using assms by (simp add: le_mod_geq)
  then show ?thesis using assms True
    by (auto simp: wrap_write_def nth_overwrite)
next
  case False
  then have "(b + length a - k) mod length a = b + length a - k"
    using assms by simp
  then show ?thesis using assms False
    by (auto simp: wrap_write_def nth_overwrite)
qed

section \<open>Push\<close>

lemma overwrite_append:
  assumes "i + length xs + length ys \<le> length a"
  shows "overwrite (overwrite a i xs) (i + length xs) ys = overwrite a i (xs @ ys)"
proof -
  have "length (take i a) = i" using assms by simp
  then have "take (i + length xs) (overwrite a i xs) = take i a @ xs"
    and "drop (i + length xs + length ys) (overwrite a i xs) = drop (i + (length xs + length ys)) a"
    by (simp_all add: overwrite_def add.assoc add.commute add.left_commute)
  then show ?thesis by (simp add: overwrite_def [of "overwrite a i xs"]) (simp add: overwrite_def)
qed

definition put_frame :: "ring \<Rightarrow> nat \<Rightarrow> message \<Rightarrow> ring" where
  "put_frame rb b m = rb\<lparr>area := wrap_write (area rb) b (frame m),
     back_offset := int (place (length (area rb)) b (4 + length m))\<rparr>"

lemma ring_Write_frame:
  assumes "back_offset rb = int b" and "b + 4 \<le> length (area rb)"
    and "length m + 4 \<le> length (area rb)"
  shows "ring_Write rb m = Inr (put_frame rb b m)"
proof (cases "b + 4 + length m \<le> length (area rb)")
  case True
  have ow: "overwrite (overwrite (area rb) b (int_bytes (int (length m)))) (b + 4) m
      = wrap_write (area rb) b (frame m)"
    using True overwrite_append [of b "int_bytes (int (length m))" m "area rb"]
    by (simp add: wrap_write_def frame_def)
  have [simp]: "nat (int b + 4) = b + 4" by simp
  show ?thesis using True assms ow
    by (simp add: ring_Write_def mem_write_def set_back_def put_frame_def place_def Let_def
        del: length_frame)
next
  case False
  define first where "first = length (area rb) - (b + 4)"
  have f: "first < length m" "b + 4 + first = length (area rb)"
    using False assms(2) by (auto simp: first_def)
  have i: "area_len rb - (int b + 4) = int first" using f(2) by simp
  have [simp]: "nat (int b + 4) = b + 4" by simp
  have "overwrite (overwrite (area rb) b (int_bytes (int (length m)))) (b + 4) (take first m)
      = overwrite (area rb) b (int_bytes (int (length m)) @ take first m)"
    using f overwrite_append [of b "int_bytes (int (length m))" "take first m" "area rb"] by simp
  also have "int_bytes (int (length m)) @ take first m = take (length (area rb) - b) (frame m)"
    using f by (simp add: frame_def first_def)
  finally have ow: "overwrite (overwrite (overwrite (area rb) b (int_bytes (int (length m)))) (b + 4)
      (take first m)) 0 (drop first m) = wrap_write (area rb) b (frame m)"
    using False f by (simp add: wrap_write_def frame_def first_def)
  have pl: "int (length m) - int first = int (place (length (area rb)) b (4 + length m))"
    using f False by (simp add: place_def)
  have c: "\<not> int b + int (length m) + 4 \<le> area_len rb" "int b + 4 \<le> area_len rb"
    "int b \<le> area_len rb" using False assms(2) by auto
  show ?thesis
    using assms(1,3) c f ow pl
    by (simp add: ring_Write_def mem_write_def set_back_def put_frame_def Let_def i
        del: length_frame)
qed

definition ring_fits :: "ring \<Rightarrow> message \<Rightarrow> bool" where
  "ring_fits rb m \<longleftrightarrow> valid_message m \<and>
     (space_left rb < int (length m) \<or>
      (int (length m) + 4 \<le> space_left rb \<and> back_offset rb + 4 \<le> area_len rb))"

lemma put_frame_rep:
  assumes "ring_rep rb ms" and "valid_message m" and "back_offset rb = int b"
    and "b + 4 \<le> length (area rb)" and "length (frames ms) + 4 + length m < length (area rb)"
  shows "ring_rep (set_size (put_frame rb b m) (Suc (length ms))) (ms @ [m])"
proof -
  let ?n = "length (area rb)" and ?S = "length (frames ms)"
  let ?rb = "set_size (put_frame rb b m) (Suc (length ms))"
  obtain f where r: "front_offset rb = int f" "f \<le> ?n" "b = place ?n f ?S" "?n < 2 ^ 31"
    "\<forall>k < ?S. area rb ! ((f + k) mod ?n) = frames ms ! k"
    "\<forall>m \<in> set ms. valid_message m" "headers_whole ?n f ms"
    using assms(1,3) by (auto simp: ring_rep_def)
  have b: "b \<le> ?n" and fl: "length (frame m) < ?n" using assms by auto
  have len: "length (area ?rb) = ?n" using b fl by (simp add: put_frame_def set_size_def)
  have a: "area ?rb = wrap_write (area rb) b (frame m)" by (simp add: put_frame_def set_size_def)
  have mem: "area ?rb ! ((f + k) mod ?n) = frames (ms @ [m]) ! k" if "k < ?S + (4 + length m)" for k
  proof (cases "k < ?S")
    case True
    have "f + (?S + (?n - (?S - k))) = f + k + ?n"
      using True assms(5) by simp
    then have "(f + k) mod ?n = (f + (?S + (?n - (?S - k)))) mod ?n"
      by (simp only: mod_add_self2)
    also have "\<dots> = (b + (?n - (?S - k))) mod ?n"
      unfolding r(3) using r(2) by (rule place_mod [symmetric])
    also have "b + (?n - (?S - k)) = b + ?n - (?S - k)" using True assms(5) by linarith
    finally have "(f + k) mod ?n = (b + ?n - (?S - k)) mod ?n" .
    then have "area ?rb ! ((f + k) mod ?n) = area rb ! ((f + k) mod ?n)"
      using nth_wrap_write_out [OF b, of "frame m" "?S - k"] True assms(5) a by simp
    then show ?thesis using True r(5) by (simp add: nth_append)
  next
    case False
    define j where "j = k - ?S"
    have j: "k = ?S + j" "j < length (frame m)"
      using False \<open>k < ?S + (4 + length m)\<close> by (auto simp: j_def)
    then have "(f + k) mod ?n = (b + j) mod ?n"
      using place_mod [OF r(2), of ?S j] r(3) by (simp add: add.assoc)
    then show ?thesis
      using nth_wrap_write_in [OF b fl j(2)] a j by (simp add: nth_append)
  qed
  have bk: "back_offset ?rb = int (place ?n f (?S + (4 + length m)))"
    using place_place [OF r(2), of ?S "4 + length m"] assms(5) r(3)
    by (simp add: put_frame_def set_size_def add.assoc)
  have hw: "headers_whole ?n f (ms @ [m])"
    using headers_whole_append [OF r(2), of ms "[m]"] r(3,7) assms(4,5) by simp
  have sz: "front_offset ?rb = front_offset rb" "element_size ?rb = Suc (length ms)"
    by (simp_all add: put_frame_def set_size_def)
  show ?thesis
    unfolding ring_rep_def len
    using r(1,2,4,6) assms(2,5) bk mem hw sz by (intro exI [of _ f]) auto
qed

lemma Push_rep:
  assumes "ring_rep rb ms" and "ring_fits rb m"
  shows "\<exists>b rb'. ring_Push rb m = Inr (b, rb') \<and> ring_rep rb' (if b then ms @ [m] else ms)
     \<and> b = (int (length m) \<le> space_left rb)"
proof (cases "space_left rb < int (length m)")
  case True
  then have "ring_Push rb m = Inr (False, rb)"
    using assms by (simp add: ring_Push_def ring_fits_def valid_message_def)
  then show ?thesis using True assms(1) by auto
next
  case False
  let ?n = "length (area rb)" and ?S = "length (frames ms)"
  obtain f where f: "front_offset rb = int f" "back_offset rb = int (place ?n f ?S)"
    "element_size rb = length ms" "?S < ?n" "?n < 2 ^ 31"
    using assms(1) by (auto simp: ring_rep_def)
  have sp: "?S + 4 + length m < ?n" "place ?n f ?S + 4 \<le> ?n" "valid_message m"
    using False assms(2) space_left_rep [OF assms(1)] f(2) by (auto simp: ring_fits_def)
  have "ring_Write rb m = Inr (put_frame rb (place ?n f ?S) m)"
    using f(2) sp by (intro ring_Write_frame) auto
  moreover have "size_add 1 (element_size rb) = Suc (length ms)"
    using f length_le_frames [of ms] by simp
  moreover have "element_size (put_frame rb (place ?n f ?S) m) = element_size rb"
    by (simp add: put_frame_def)
  ultimately have "ring_Push rb m
      = Inr (True, set_size (put_frame rb (place ?n f ?S) m) (Suc (length ms)))"
    using False sp(3) by (simp add: ring_Push_def valid_message_def)
  then show ?thesis
    using put_frame_rep [OF assms(1) sp(3) f(2) sp(2,1)] False by auto
qed

section \<open>Pop\<close>

text \<open>Reading \<open>k\<close> bytes from \<open>p\<close> on, around the end of the area where it has to.\<close>

definition wrap_read :: "byte list \<Rightarrow> nat \<Rightarrow> nat \<Rightarrow> byte list" where
  "wrap_read a p k =
     (if p + k \<le> length a then take k (drop p a)
      else drop p a @ take (k - (length a - p)) a)"

lemma wrap_read_nth:
  assumes "p \<le> length a" "k < length a"
  shows "wrap_read a p k = map (\<lambda>j. a ! ((p + j) mod length a)) [0 ..< k]"
proof (rule nth_equalityI)
  show "length (wrap_read a p k) = length (map (\<lambda>j. a ! ((p + j) mod length a)) [0 ..< k])"
    using assms by (auto simp: wrap_read_def)
  fix j assume "j < length (wrap_read a p k)"
  then have j: "j < k" using assms by (auto simp: wrap_read_def split: if_splits)
  show "wrap_read a p k ! j = map (\<lambda>j. a ! ((p + j) mod length a)) [0 ..< k] ! j"
  proof (cases "p + j < length a")
    case True
    then show ?thesis using j assms by (auto simp: wrap_read_def nth_append)
  next
    case False
    then have "(p + j) mod length a = p + j - length a"
      using assms j by (simp add: le_mod_geq)
    then show ?thesis using False j assms by (auto simp: wrap_read_def nth_append add.commute)
  qed
qed

lemma map_nth_take: "k \<le> length xs \<Longrightarrow> map (\<lambda>j. xs ! j) [0 ..< k] = take k xs"
  by (rule nth_equalityI) simp_all

lemma Pop_rep_Cons:
  assumes "ring_rep rb (m # ms)"
  shows "\<exists>rb'. ring_Pop rb = Inr (Some m, rb') \<and> ring_rep rb' ms"
proof -
  let ?n = "length (area rb)" and ?fr = "frames (m # ms)"
  obtain f where r: "front_offset rb = int f" "f \<le> ?n"
    "back_offset rb = int (place ?n f (length ?fr))" "length ?fr < ?n" "?n < 2 ^ 31"
    "\<forall>k < length ?fr. area rb ! ((f + k) mod ?n) = ?fr ! k"
    "valid_message m" "\<forall>m \<in> set ms. valid_message m" "f + 4 \<le> ?n"
    "headers_whole ?n (place ?n f (4 + length m)) ms"
    "element_size rb = Suc (length ms)"
    using assms by (auto simp: ring_rep_def)
  let ?k = "length m"
  have ne: "\<not> ring_empty rb"
    using r(1-4,9) by (auto simp: ring_empty_def place_def)
  have hdr: "take 4 (drop f (area rb)) = int_bytes (int ?k)"
  proof -
    have "take 4 (drop f (area rb)) = map (\<lambda>j. area rb ! ((f + j) mod ?n)) [0 ..< 4]"
      using wrap_read_nth [of f "area rb" 4] r(4,9) by (simp add: wrap_read_def)
    also have "\<dots> = map (\<lambda>j. ?fr ! j) [0 ..< 4]"
    proof (rule map_cong [OF refl])
      fix j assume "j \<in> set [0 ..< (4::nat)]"
      then have "j < length ?fr" by simp
      then show "area rb ! ((f + j) mod ?n) = ?fr ! j" using r(6) by blast
    qed
    also have "\<dots> = take 4 ?fr" by (rule map_nth_take) simp
    also have "\<dots> = int_bytes (int ?k)" by (simp add: frame_def)
    finally show ?thesis .
  qed
  have k: "0 < ?k" "?k \<le> kMaxBufferBodyLength" "?k < 2 ^ 31" "?k + 4 < ?n"
    using r(4,5,7) by (auto simp: valid_message_def kMaxBufferBodyLength_def)
  have nl: "NextBufferLength rb = Inr (int ?k)"
    using ne r(1,9) hdr k(3) bytes_int_int_bytes [of "int ?k"]
    by (simp add: NextBufferLength_def mem_read_def Let_def)
  have body: "wrap_read (area rb) (f + 4) ?k = m"
  proof (rule nth_equalityI)
    show len: "length (wrap_read (area rb) (f + 4) ?k) = ?k"
      using wrap_read_nth [of "f + 4" "area rb" ?k] r(9) k by simp
    fix j assume "j < length (wrap_read (area rb) (f + 4) ?k)"
    then have j: "j < ?k" using len by simp
    then have "wrap_read (area rb) (f + 4) ?k ! j = area rb ! ((f + (4 + j)) mod ?n)"
      using wrap_read_nth [of "f + 4" "area rb" ?k] r(9) k by (simp add: add.assoc)
    also have "\<dots> = ?fr ! (4 + j)" using r(6) j by simp
    also have "\<dots> = m ! j" using j by (simp add: frame_def nth_append)
    finally show "wrap_read (area rb) (f + 4) ?k ! j = m ! j" .
  qed
  let ?rb = "rb\<lparr>front_offset := int (place ?n f (4 + ?k))\<rparr>"
  have rd: "ring_Read rb = Inr (Some m, ?rb)"
  proof (cases "f + 4 + ?k \<le> ?n")
    case True
    then have "take ?k (drop (f + 4) (area rb)) = m"
      using body by (simp add: wrap_read_def)
    moreover have [simp]: "nat (int f + 4) = f + 4" by simp
    ultimately show ?thesis
      using True ne nl r(1,9) k
      by (simp add: ring_Read_def mem_read_def set_front_def place_def Let_def add.commute)
  next
    case False
    then have "drop (f + 4) (area rb) @ take (?k - (?n - (f + 4))) (area rb) = m"
      using body by (simp add: wrap_read_def)
    moreover have [simp]: "nat (int f + 4) = f + 4" by simp
    moreover have "nat (int ?k - (int ?n - (int f + 4))) = ?k - (?n - (f + 4))"
      and "nat (int ?n - (int f + 4)) = ?n - (f + 4)" using r(9) False by auto
    ultimately show ?thesis
      using False ne nl r(1,9) k
      by (simp add: ring_Read_def mem_read_def set_front_def place_def Let_def add.commute)
  qed
  have "size_add (element_size rb) (2 ^ 64 - 1) = length ms"
  proof -
    have "element_size rb + (2 ^ 64 - 1) = length ms + 2 ^ 64" using r(11) by simp
    then have "size_add (element_size rb) (2 ^ 64 - 1) = length ms mod 2 ^ 64"
      unfolding size_add_def by (simp only: mod_add_self2)
    moreover have "length ms < 2 ^ 64"
      using length_le_frames [of ms] r(4,5) by simp
    ultimately show ?thesis by simp
  qed
  then have pop: "ring_Pop rb = Inr (Some m, set_size ?rb (length ms))"
    using ne rd by (simp add: ring_Pop_def)
  have "ring_rep (set_size ?rb (length ms)) ms"
  proof -
    have "place ?n (place ?n f (4 + ?k)) (length (frames ms)) = place ?n f (length ?fr)"
      using place_place [OF r(2), of "4 + ?k" "length (frames ms)"] r(4) by simp
    moreover have "place ?n f (4 + ?k) \<le> ?n" using r(2) k by (intro place_le) auto
    moreover have "area rb ! ((place ?n f (4 + ?k) + j) mod ?n) = frames ms ! j"
      if "j < length (frames ms)" for j
    proof -
      have "area rb ! ((f + (4 + ?k + j)) mod ?n) = ?fr ! (4 + ?k + j)"
        using r(6) that by simp
      then show ?thesis using place_mod [OF r(2), of "4 + ?k" j] by (simp add: nth_append)
    qed
    ultimately show ?thesis
      unfolding ring_rep_def using r(3,4,5,8,10)
      by (intro exI [of _ "place ?n f (4 + ?k)"]) (auto simp: set_size_def)
  qed
  with pop show ?thesis by blast
qed

lemma Pop_rep_Nil: "ring_rep rb [] \<Longrightarrow> ring_Pop rb = Inr (None, rb)"
  by (auto simp: ring_rep_def ring_Pop_def ring_empty_def place_def)

section \<open>The ring is a message queue\<close>

interpretation bus_ring: message_queue ring_rep ring_fits ring_Push ring_Pop
proof unfold_locales
  fix q ms m
  assume "ring_rep q ms" "ring_fits q m"
  from Push_rep [OF this]
  show "\<exists>b q'. ring_Push q m = Inr (b, q') \<and> ring_rep q' (if b then ms @ [m] else ms)" by blast
next
  fix q ms
  assume "ring_rep q ms"
  then show "\<exists>q'. ring_Pop q = Inr (case ms of [] \<Rightarrow> None | m # _ \<Rightarrow> Some m, q') \<and> ring_rep q' (tl ms)"
    using Pop_rep_Nil Pop_rep_Cons by (cases ms) fastforce+
qed

section \<open>Headers around the end of the area\<close>

lemma ring_Write_split_header:
  assumes "back_offset rb = int b" and "b \<le> length (area rb)" and "length (area rb) < b + 4"
    and "length m + 4 \<le> length (area rb)"
  shows "ring_Write rb m = Inr (put_frame rb b m)"
proof -
  define first where "first = length (area rb) - b"
  let ?h = "int_bytes (int (length m))"
  have f: "first < 4" "b + first = length (area rb)" "area_len rb - int b = int first"
    using assms(2,3) by (auto simp: first_def)
  have "overwrite (overwrite (overwrite (area rb) b (take first ?h)) 0 (drop first ?h)) (4 - first) m
      = overwrite (overwrite (area rb) b (take first ?h)) 0 (drop first ?h @ m)"
    using f assms(4) overwrite_append [of 0 "drop first ?h" m "overwrite (area rb) b (take first ?h)"]
    by simp
  moreover have "take first ?h = take (length (area rb) - b) (frame m)"
    "drop first ?h @ m = drop (length (area rb) - b) (frame m)"
    using f(1) by (simp_all add: frame_def first_def)
  ultimately have ow: "overwrite (overwrite (overwrite (area rb) b (take first ?h)) 0 (drop first ?h))
      (4 - first) m = wrap_write (area rb) b (frame m)"
    using assms(2,3) by (simp add: wrap_write_def)
  have n4: "nat (4 - int first) = 4 - first" using f(1) by simp
  have pl: "4 - int first + int (length m) = int (place (length (area rb)) b (4 + length m))"
    using f assms(3) by (simp add: place_def)
  have bd: "4 - first \<le> length (area rb)" "4 + length m - first \<le> length (area rb)"
    using assms(4) by auto
  show ?thesis
    using assms f ow pl n4 bd
    by (simp add: ring_Write_def mem_write_def set_back_def put_frame_def Let_def
        del: length_frame)
qed

lemma put_frame_header:
  assumes "front_offset rb = int b" and "b \<le> length (area rb)"
    and "4 + length m < length (area rb)" and "length (area rb) < 2 ^ 31"
  shows "NextBufferLength (set_size (put_frame rb b m) k) = Inr (int (length m))"
proof -
  let ?rb = "set_size (put_frame rb b m) k" and ?n = "length (area rb)"
  let ?a = "wrap_write (area rb) b (frame m)"
  have a: "area ?rb = ?a" "front_offset ?rb = int b" "length ?a = ?n"
    using assms by (simp_all add: put_frame_def set_size_def)
  have "wrap_read ?a b 4 = map (\<lambda>j. ?a ! ((b + j) mod ?n)) [0 ..< 4]"
    using wrap_read_nth [of b ?a 4] a(3) assms(2,3) by simp
  also have "\<dots> = map (\<lambda>j. frame m ! j) [0 ..< 4]"
  proof (rule map_cong [OF refl])
    fix j assume "j \<in> set [0 ..< (4::nat)]"
    then show "?a ! ((b + j) mod ?n) = frame m ! j"
      using nth_wrap_write_in [of b "area rb" "frame m" j] assms(2,3) by simp
  qed
  also have "\<dots> = take 4 (frame m)" by (rule map_nth_take) simp
  also have "\<dots> = int_bytes (int (length m))" by (simp add: frame_def)
  finally have h: "wrap_read ?a b 4 = int_bytes (int (length m))" .
  have ne: "\<not> ring_empty ?rb"
    using assms by (auto simp: ring_empty_def put_frame_def set_size_def place_def)
  have v: "bytes_int (int_bytes (int (length m))) = int (length m)"
    using assms(3,4) by (intro bytes_int_int_bytes) auto
  show ?thesis
  proof (cases "b + 4 \<le> ?n")
    case True
    then show ?thesis using a ne h v
      by (simp add: NextBufferLength_def mem_read_def wrap_read_def Let_def)
  next
    case False
    then have "take (?n - b) (drop b ?a) @ take (4 - (?n - b)) ?a = int_bytes (int (length m))"
      using h a(3) by (simp add: wrap_read_def)
    moreover have "nat (int ?n - int b) = ?n - b" "nat (4 - (int ?n - int b)) = 4 - (?n - b)"
      using False assms(2) by auto
    ultimately show ?thesis using False a ne v assms(2,3)
      by (simp add: NextBufferLength_def mem_read_def Let_def)
  qed
qed


lemma ring_rep_empty:
  assumes "ring_rep rb []"
  obtains f where "front_offset rb = int f" "back_offset rb = int f" "f \<le> length (area rb)"
    "0 < length (area rb)" "length (area rb) < 2 ^ 31" "element_size rb = 0"
    "space_left rb = area_len rb - 1"
proof -
  obtain f where "front_offset rb = int f" "f \<le> length (area rb)"
    "back_offset rb = int (place (length (area rb)) f 0)" "0 < length (area rb)"
    "length (area rb) < 2 ^ 31" "element_size rb = 0"
    using assms by (auto simp: ring_rep_def)
  then show ?thesis using that [of f] space_left_rep [OF assms] by (simp add: place_def)
qed

text \<open>A push into an empty ring, wherever its offsets stand.\<close>

lemma Push_empty:
  assumes "ring_rep rb []" and "0 < length m" and "int (length m) + 4 \<le> space_left rb"
    and "front_offset rb = int f"
  shows "ring_Push rb m = Inr (True, set_size (put_frame rb f m) 1)"
proof -
  obtain g where g: "front_offset rb = int g" "back_offset rb = int g" "g \<le> length (area rb)"
    "0 < length (area rb)" "length (area rb) < 2 ^ 31" "element_size rb = 0"
    "space_left rb = area_len rb - 1"
    using ring_rep_empty [OF assms(1)] by metis
  have "g = f" using g(1) assms(4) by simp
  have "ring_Write rb m = Inr (put_frame rb f m)"
    using ring_Write_frame [of rb f m] ring_Write_split_header [of rb f m] g assms(3) \<open>g = f\<close>
    by (cases "f + 4 \<le> length (area rb)") auto
  moreover have "element_size (put_frame rb f m) = 0" using g(6) by (simp add: put_frame_def)
  ultimately show ?thesis using assms(2,3) by (simp add: ring_Push_def)
qed

lemma Read_split_header:
  assumes "front_offset rb = int f" and "f \<le> length (area rb)" and "length (area rb) < f + 4"
    and "4 + length m < length (area rb)" and "length (area rb) < 2 ^ 31" and "valid_message m"
  shows "ring_Pop (set_size (put_frame rb f m) 1) =
     Inr (Some m, set_size ((put_frame rb f m)\<lparr>front_offset := int (f + 4 - length (area rb))\<rparr>) 0)"
proof -
  let ?rb = "set_size (put_frame rb f m) 1" and ?n = "length (area rb)"
  let ?a = "wrap_write (area rb) f (frame m)"
  have a: "area ?rb = ?a" "front_offset ?rb = int f" "length ?a = ?n"
    using assms(1-4) by (simp_all add: put_frame_def set_size_def)
  have ne: "\<not> ring_empty ?rb"
    using assms(1-4) by (auto simp: ring_empty_def put_frame_def set_size_def place_def)
  have nl: "NextBufferLength ?rb = Inr (int (length m))"
    using assms(1,2,4,5) by (rule put_frame_header)
  have off: "int f + 4 - int ?n = int (f + 4 - ?n)" "f + 4 - ?n + length m \<le> ?n"
    using assms(2-4) by auto
  have "take (length m) (drop (f + 4 - ?n) ?a) = m"
  proof -
    have "?a = overwrite (overwrite (area rb) f (take (?n - f) (frame m))) 0 (drop (?n - f) (frame m))"
      using assms(3) by (simp add: wrap_write_def)
    also have "drop (?n - f) (frame m) = drop (?n - f) (int_bytes (int (length m))) @ m"
      using assms(2,3) by (simp add: frame_def)
    finally show ?thesis using assms(2,3,4) by (simp add: overwrite_def)
  qed
  then have rd: "mem_read ?a (int (f + 4 - ?n)) (int (length m)) = Inr m"
    using off(2) a(3) by (simp add: mem_read_def)
  have big: "0 < length m" "length m \<le> kMaxBufferBodyLength"
    using assms(6) by (auto simp: valid_message_def)
  have "ring_Read ?rb = Inr (Some m, ?rb\<lparr>front_offset := int (f + 4 - ?n)\<rparr>)"
    using ne nl a off(1) rd big assms(3) by (simp add: ring_Read_def set_front_def Let_def)
  then show ?thesis
    using ne by (simp add: ring_Pop_def set_size_def size_add_def)
qed

section \<open>Properties of the ring\<close>

text \<open>C5: Any sequence of pushes and pops on a ring that holds the messages \<open>ms\<close> ends without a
  fault and behaves as a first-in first-out queue: what was received, followed by what is
  still queued, is \<open>ms\<close> followed by what was accepted. Every message sent is one \<open>ring_fits\<close>
  allows: it is refused for lack of space, or it fits with its header and the header is not
  split at the end of the area.\<close>

theorem ring_run_fifo:
  assumes "ring_rep rb ms" and "sends_fit ring_fits ring_Push ring_Pop ops rb"
  shows "\<exists>sent got rb' ms'. queue_run ring_Push ring_Pop ops rb = Inr (sent, got, rb') \<and>
     ring_rep rb' ms' \<and> got @ ms' = ms @ sent"
  using assms by (rule bus_ring.run_fifo)

text \<open>An empty ring of \<open>n\<close> bytes whose offsets stand at \<open>f\<close>.\<close>

definition ring_at :: "nat \<Rightarrow> nat \<Rightarrow> ring" where
  "ring_at n f = \<lparr>front_offset = int f, back_offset = int f, element_size = 0, area = replicate n 0\<rparr>"

lemma ring_at_rep: "f \<le> n \<Longrightarrow> 0 < n \<Longrightarrow> n < 2 ^ 31 \<Longrightarrow> ring_rep (ring_at n f) []"
  by (auto simp: ring_rep_def ring_at_def place_def)

lemma space_left_ring_at: "f \<le> n \<Longrightarrow> 0 < n \<Longrightarrow> n < 2 ^ 31 \<Longrightarrow> space_left (ring_at n f) = int n - 1"
  using space_left_rep [OF ring_at_rep] by (simp add: ring_at_def)

definition ring16 :: ring where
  "ring16 = ring_at 16 0"

lemma ring16_rep: "ring_rep ring16 []"
  by (simp add: ring16_def ring_at_rep)

lemma ring16_fits: "ring_fits ring16 [7, 8]"
  using space_left_ring_at [of 0 16]
  by (simp add: ring_fits_def ring16_def valid_message_def kMaxBufferBodyLength_def) (simp add: ring_at_def)

theorem ring_run_fifo_witness:
  "\<exists>sent got rb' ms'. queue_run ring_Push ring_Pop [Send [7, 8], Receive] ring16 = Inr (sent, got, rb') \<and>
     ring_rep rb' ms' \<and> got @ ms' = [] @ sent"
proof (rule ring_run_fifo [OF ring16_rep])
  obtain b q where q: "ring_Push ring16 [7, 8] = Inr (b, q)" "ring_rep q (if b then [] @ [[7, 8]] else [])"
    using bus_ring.push_law [OF ring16_rep ring16_fits] by blast
  then obtain r q' where "ring_Pop q = Inr (r, q')"
    using bus_ring.pop_law [OF q(2)] by auto
  with q(1) ring16_fits show
    "sends_fit ring_fits ring_Push ring_Pop [Send [7, 8], Receive] ring16" by simp
qed

text \<open>\<open>Push\<close> on a ring that holds \<open>ms\<close> accepts a message exactly when its bytes (without the
  header) are at most \<open>space_left()\<close>; accepted it is appended to the queue, refused it leaves
  the ring as it is.\<close>

theorem ring_Push_appends:
  assumes "ring_rep rb ms" and "ring_fits rb m"
  shows "if int (length m) \<le> space_left rb
     then \<exists>rb'. ring_Push rb m = Inr (True, rb') \<and> ring_rep rb' (ms @ [m])
     else ring_Push rb m = Inr (False, rb)"
proof -
  obtain b rb' where "ring_Push rb m = Inr (b, rb')" "ring_rep rb' (if b then ms @ [m] else ms)"
    "b = (int (length m) \<le> space_left rb)" using Push_rep [OF assms] by blast
  moreover have "\<not> int (length m) \<le> space_left rb \<Longrightarrow> ring_Push rb m = Inr (False, rb)"
    using assms(2) by (simp add: ring_Push_def ring_fits_def valid_message_def)
  ultimately show ?thesis by auto
qed

theorem ring_Push_appends_witness:
  "if int (length [7, 8 :: byte]) \<le> space_left ring16
     then \<exists>rb'. ring_Push ring16 [7, 8] = Inr (True, rb') \<and> ring_rep rb' ([] @ [[7, 8]])
     else ring_Push ring16 [7, 8] = Inr (False, ring16)"
  by (rule ring_Push_appends [OF ring16_rep ring16_fits])

text \<open>\<open>Pop\<close> returns the oldest message byte for byte and leaves a ring that holds the others;
  on a ring that holds none it returns \<open>NULL\<close> and changes nothing.\<close>

theorem ring_Pop_oldest:
  assumes "ring_rep rb ms"
  shows "case ms of [] \<Rightarrow> ring_Pop rb = Inr (None, rb)
     | m # rest \<Rightarrow> \<exists>rb'. ring_Pop rb = Inr (Some m, rb') \<and> ring_rep rb' rest"
  using Pop_rep_Nil Pop_rep_Cons assms by (cases ms) auto

theorem ring_Pop_oldest_witness:
  "case [] of [] \<Rightarrow> ring_Pop ring16 = Inr (None, ring16)
     | m # rest \<Rightarrow> \<exists>rb'. ring_Pop ring16 = Inr (Some m, rb') \<and> ring_rep rb' rest"
  by (rule ring_Pop_oldest [OF ring16_rep])

text \<open>C33: \<open>space_left()\<close> does not count the header. On a ring whose front has moved, a message that
  fills the area exactly once its four header bytes are added is accepted, and the ring then
  looks empty: \<open>Pop\<close> returns \<open>NULL\<close> and every queued message is lost, although the counter has
  grown.\<close>

theorem ring_Push_hides_queue:
  assumes "ring_rep rb ms" and "0 < front_offset rb" and "0 < length m"
    and "length (frames ms) + 4 + length m = length (area rb)"
    and "back_offset rb + 4 \<le> area_len rb"
  shows "\<exists>rb'. ring_Push rb m = Inr (True, rb') \<and> ring_Pop rb' = Inr (None, rb') \<and>
     element_size rb' = Suc (length ms)"
proof -
  let ?n = "length (area rb)" and ?S = "length (frames ms)"
  obtain f where f: "front_offset rb = int f" "back_offset rb = int (place ?n f ?S)" "f \<le> ?n"
    "element_size rb = length ms" "?n < 2 ^ 31"
    using assms(1) by (auto simp: ring_rep_def)
  let ?b = "place ?n f ?S"
  have w: "ring_Write rb m = Inr (put_frame rb ?b m)"
    using assms(4,5) f(2) by (intro ring_Write_frame) auto
  have "place ?n ?b (4 + length m) = f"
    using assms(2,4,5) f(1,2,3) by (auto simp: place_def split: if_splits)
  then have e: "ring_empty (set_size (put_frame rb ?b m) k)" for k
    using f(1) by (simp add: ring_empty_def put_frame_def set_size_def)
  have "int (length m) \<le> space_left rb"
    using space_left_rep [OF assms(1)] assms(4) by simp
  moreover have "size_add 1 (element_size (put_frame rb ?b m)) = Suc (length ms)"
    using f(4,5) length_le_frames [of ms] assms(4) by (simp add: put_frame_def)
  ultimately have "ring_Push rb m = Inr (True, set_size (put_frame rb ?b m) (Suc (length ms)))"
    using w assms(3) by (simp add: ring_Push_def)
  then show ?thesis using e by (auto simp: ring_Pop_def set_size_def)
qed

theorem ring_Push_hides_queue_witness:
  "\<exists>rb'. ring_Push (ring_at 16 8) (replicate 12 1) = Inr (True, rb') \<and>
     ring_Pop rb' = Inr (None, rb') \<and> element_size rb' = Suc (length ([] :: message list))"
  by (rule ring_Push_hides_queue [OF ring_at_rep]) (simp_all add: ring_at_def)

text \<open>\<open>Read\<close> does not step over the message when its header crosses or touches the end of the
  area. A message pushed there into an empty ring is read back correctly once, but the front is
  left at its first byte: the ring then counts no message and yet is not empty.\<close>

theorem ring_split_header_stays:
  assumes "ring_rep rb []" and "area_len rb < front_offset rb + 4" and "valid_message m"
    and "int (length m) + 4 \<le> space_left rb"
  shows "\<exists>rb1 rb2. ring_Push rb m = Inr (True, rb1) \<and> ring_Pop rb1 = Inr (Some m, rb2) \<and>
     element_size rb2 = 0 \<and> \<not> ring_empty rb2"
proof -
  obtain f where f: "front_offset rb = int f" "f \<le> length (area rb)"
    "length (area rb) < 2 ^ 31" "space_left rb = area_len rb - 1"
    using ring_rep_empty [OF assms(1)] by metis
  have m: "0 < length m" using assms(3) by (simp add: valid_message_def)
  have sp: "length (area rb) < f + 4" "4 + length m < length (area rb)"
    using f(1,4) assms(2,4) by auto
  let ?rb = "set_size (put_frame rb f m) 1"
  let ?rb2 = "set_size ((put_frame rb f m)\<lparr>front_offset := int (f + 4 - length (area rb))\<rparr>) 0"
  have "ring_Push rb m = Inr (True, ?rb)"
    using assms(1) m assms(4) f(1) by (rule Push_empty)
  moreover have "ring_Pop ?rb = Inr (Some m, ?rb2)"
    using f(1,2) sp f(3) assms(3) by (rule Read_split_header)
  moreover have "element_size ?rb2 = 0" "\<not> ring_empty ?rb2"
    using sp f(2) m by (auto simp: set_size_def ring_empty_def put_frame_def place_def)
  ultimately show ?thesis by blast
qed

theorem ring_split_header_stays_witness:
  "\<exists>rb1 rb2. ring_Push (ring_at 16 14) [7] = Inr (True, rb1) \<and> ring_Pop rb1 = Inr (Some [7], rb2) \<and>
     element_size rb2 = 0 \<and> \<not> ring_empty rb2"
  using space_left_ring_at [of 14 16]
  by (intro ring_split_header_stays ring_at_rep)
     (simp_all add: ring_at_def valid_message_def kMaxBufferBodyLength_def)

text \<open>\<open>Push\<close> has no bound of its own on the length of a message, while \<open>Pop\<close> asserts that it is
  at most 64 KiB: a longer message is accepted and stops the process that reads it.\<close>

theorem ring_oversized_message:
  assumes "ring_rep rb []" and "kMaxBufferBodyLength < length m"
    and "int (length m) + 4 \<le> space_left rb"
  shows "\<exists>rb'. ring_Push rb m = Inr (True, rb') \<and> ring_Pop rb' = Inl Assertion_failed"
proof -
  obtain f where f: "front_offset rb = int f" "f \<le> length (area rb)"
    "length (area rb) < 2 ^ 31" "space_left rb = area_len rb - 1"
    using ring_rep_empty [OF assms(1)] by metis
  let ?rb = "set_size (put_frame rb f m) 1"
  have m: "0 < length m" using assms(2) by linarith
  have "4 + length m < length (area rb)" using f(4) assms(3) by simp
  then have "NextBufferLength ?rb = Inr (int (length m))"
    using f by (intro put_frame_header)
  moreover have "\<not> ring_empty ?rb"
    using \<open>4 + length m < length (area rb)\<close> f(1,2)
    by (auto simp: ring_empty_def put_frame_def set_size_def place_def)
  ultimately have "ring_Pop ?rb = Inl Assertion_failed"
    using assms(2) by (simp add: ring_Pop_def ring_Read_def Let_def asserting_def)
  moreover have "ring_Push rb m = Inr (True, ?rb)"
    using assms(1) m assms(3) f(1) by (rule Push_empty)
  ultimately show ?thesis by blast
qed

theorem ring_oversized_message_witness:
  "\<exists>rb'. ring_Push (ring_at 70000 0) (replicate 65537 1) = Inr (True, rb') \<and>
     ring_Pop rb' = Inl Assertion_failed"
  using space_left_ring_at [of 0 70000]
  by (intro ring_oversized_message ring_at_rep) (simp_all add: kMaxBufferBodyLength_def)

end
