(* ===== verification/Process_Bus.thy ===== *)
theory Process_Bus
  imports Ring_Buffer
begin

text \<open>
  The message bus between processes \<open>fx::base::ProcessBus\<close> (base/bus/process_bus.cc) and the
  table of buses \<open>fx::base::ProcessBusManager\<close> (base/bus/process_bus_manager.cc). A bus is a
  file mapped into memory: one byte of header, then a ring buffer. The kernel is a parameter:
  the record \<open>bus_os\<close> holds the calls the code makes, on a state \<open>'w\<close> of its own, and what
  lies in memory between two addresses, seen as a ring.

  The lemmas lift the queue of the ring to a bus, show that a reader that recovers a bus goes
  on where the last process stopped, and state what the manager answers on every branch.
\<close>

section \<open>The system calls\<close>

datatype open_flags = O_RDWR | O_RDWR_CREAT | O_RDWR_CREAT_EXCL

text \<open>\<open>open\<close> returns the descriptor and \<open>errno\<close>; \<open>fstat\<close> the size, \<open>None\<close> when it fails.\<close>

record 'w bus_os =
  bus_open :: "string \<Rightarrow> open_flags \<Rightarrow> 'w \<Rightarrow> (int \<times> nat) \<times> 'w"
  bus_fstat :: "int \<Rightarrow> 'w \<Rightarrow> nat option"
  bus_ftruncate :: "int \<Rightarrow> nat \<Rightarrow> 'w \<Rightarrow> 'w"
  bus_mmap :: "int \<Rightarrow> nat \<Rightarrow> 'w \<Rightarrow> int"
  bus_memory :: "'w \<Rightarrow> int \<Rightarrow> int \<Rightarrow> ring"

definition ENOENT :: nat where
  "ENOENT = 2"

definition MAP_FAILED :: int where
  "MAP_FAILED = - 1"

section \<open>A bus\<close>

text \<open>Pointers are addresses, \<open>NULL\<close> is 0. The ring is kept with the address of its end.\<close>

record bus =
  bus_id :: nat
  bus_mem :: int
  bus_header :: int
  mmap_len :: nat
  mmap_fd :: int
  bus_filepath :: string
  bus_buf :: "ring option"
  bus_buf_end :: int

definition ProcessBus_init :: "nat \<Rightarrow> nat \<Rightarrow> string \<Rightarrow> bus" where
  "ProcessBus_init i len path =
     \<lparr>bus_id = i, bus_mem = 0, bus_header = 0, mmap_len = len, mmap_fd = - 1, bus_filepath = path,
      bus_buf = None, bus_buf_end = 0\<rparr>"

datatype bus_call = Munmap int nat | Close_fd int

text \<open>The calls the destructor makes.\<close>

definition ProcessBus_delete :: "bus \<Rightarrow> bus_call list" where
  "ProcessBus_delete b =
     (if bus_mem b \<noteq> 0 then [Munmap (bus_mem b) (mmap_len b)] else []) @
     (if mmap_fd b \<noteq> - 1 then [Close_fd (mmap_fd b)] else [])"

definition Inited :: "bus \<Rightarrow> bool" where
  "Inited b \<longleftrightarrow> mmap_fd b \<noteq> - 1"

definition mmap_filename :: "bus \<Rightarrow> string" where
  "mmap_filename b = bus_filepath b @ ''/'' @ decimal (bus_id b) @ ''.mmap''"

definition sizeof_Header :: nat where
  "sizeof_Header = 1"

definition InitHeader :: "bus \<Rightarrow> int \<Rightarrow> bus \<times> int" where
  "InitHeader b start = (b\<lparr>bus_header := start\<rparr>, start + int sizeof_Header)"

text \<open>The last lines of \<open>TryRecover\<close>, \<open>Connect\<close> and \<open>Listen\<close>.\<close>

definition make_ring :: "'w bus_os \<Rightarrow> bool \<Rightarrow> bus \<Rightarrow> 'w \<Rightarrow> (int \<times> bus \<times> 'w) result" where
  "make_ring os reuse b w =
     (let (b1, start) = InitHeader b (bus_mem b); end_at = start + int (mmap_len b) in
      andthen (RingBuffer_init (nat (end_at - start)) (bus_memory os w start end_at) reuse) (\<lambda>rb.
        Inr (0, b1\<lparr>bus_buf := Some rb, bus_buf_end := end_at\<rparr>, w)))"

definition TryRecover :: "'w bus_os \<Rightarrow> bus \<Rightarrow> 'w \<Rightarrow> (int \<times> bus \<times> 'w) result" where
  "TryRecover os b w = asserting (\<not> Inited b)
     (let ((fd, err), w1) = bus_open os (mmap_filename b) O_RDWR_CREAT w; b1 = b\<lparr>mmap_fd := fd\<rparr> in
      if fd < 0 then Inr (- 1, b1, w1)
      else case bus_fstat os fd w1 of
        None \<Rightarrow> Inr (- 2, b1, w1)
      | Some st_size \<Rightarrow>
          if st_size \<noteq> mmap_len b then Inr (- 3, b1, w1)
          else
            let p = bus_mmap os fd (mmap_len b) w1; b2 = b1\<lparr>bus_mem := p\<rparr> in
            if p = MAP_FAILED then Inr (- 4, b2, w1) else make_ring os True b2 w1)"

definition Connect :: "'w bus_os \<Rightarrow> bus \<Rightarrow> 'w \<Rightarrow> (int \<times> bus \<times> 'w) result" where
  "Connect os b w = asserting (\<not> Inited b)
     (let ((fd0, err), w1) = bus_open os (mmap_filename b) O_RDWR w in
      if fd0 < 0 \<and> err \<noteq> ENOENT then Inr (- 1, b\<lparr>mmap_fd := fd0\<rparr>, w1)
      else
        let ((fd, _), w2) =
              (if fd0 < 0 then bus_open os (mmap_filename b) O_RDWR_CREAT_EXCL w1 else ((fd0, err), w1));
            b1 = b\<lparr>mmap_fd := fd\<rparr> in
        if fd0 < 0 \<and> fd < 0 then Inr (- 2, b1, w2)
        else
          let w3 = (if fd0 < 0 then bus_ftruncate os fd (mmap_len b) w2 else w2);
              p = bus_mmap os fd (mmap_len b) w3;
              b2 = b1\<lparr>bus_mem := p\<rparr> in
          asserting (0 \<le> fd)
            (if p = MAP_FAILED then Inr (- 3, b2, w3) else make_ring os (0 \<le> fd0) b2 w3))"

definition Listen :: "'w bus_os \<Rightarrow> bus \<Rightarrow> 'w \<Rightarrow> (int \<times> bus \<times> 'w) result" where
  "Listen os b w = asserting (\<not> Inited b)
     (let ((fd, err), w1) = bus_open os (mmap_filename b) O_RDWR_CREAT w; b1 = b\<lparr>mmap_fd := fd\<rparr> in
      if fd < 0 then Inr (- 1, b1, w1)
      else
        let w2 = bus_ftruncate os fd (mmap_len b) w1;
            p = bus_mmap os fd (mmap_len b) w2;
            b2 = b1\<lparr>bus_mem := p\<rparr> in
        if p = MAP_FAILED then Inr (- 2, b2, w2) else make_ring os False b2 w2)"

text \<open>The private \<open>InitMMap\<close>, which nothing calls: it keeps no room for the header, so its ring ends where
  the mapping ends.\<close>

definition InitMMap :: "'w bus_os \<Rightarrow> bool \<Rightarrow> bus \<Rightarrow> 'w \<Rightarrow> (int \<times> bus \<times> 'w) result" where
  "InitMMap os reuse b w =
     (let ((fd, err), w1) = bus_open os (mmap_filename b) O_RDWR_CREAT w; b1 = b\<lparr>mmap_fd := fd\<rparr> in
      if fd < 0 then Inr (- 1, b1, w1)
      else
        let w2 = bus_ftruncate os fd (mmap_len b) w1;
            p = bus_mmap os fd (mmap_len b) w2;
            b2 = b1\<lparr>bus_mem := p\<rparr> in
        if p = MAP_FAILED then Inr (- 2, b2, w2)
        else
          let start = p; end_at = start + int (mmap_len b) in
          andthen (RingBuffer_init (nat (end_at - start)) (bus_memory os w2 start end_at) reuse) (\<lambda>rb.
            Inr (0, b2\<lparr>bus_buf := Some rb, bus_buf_end := end_at\<rparr>, w2)))"

text \<open>The operations go through the pointer \<open>buf_\<close>, which is null until the bus is mapped.\<close>

definition ProcessBus_Write :: "bus \<Rightarrow> message \<Rightarrow> (bool \<times> bus) result" where
  "ProcessBus_Write b m =
     (case bus_buf b of
        None \<Rightarrow> Inl Null_dereference
      | Some rb \<Rightarrow> andthen (ring_Push rb m) (\<lambda>(ok, rb'). Inr (ok, b\<lparr>bus_buf := Some rb'\<rparr>)))"

definition ProcessBus_Read :: "bus \<Rightarrow> (message option \<times> bus) result" where
  "ProcessBus_Read b =
     (case bus_buf b of
        None \<Rightarrow> Inl Null_dereference
      | Some rb \<Rightarrow> andthen (ring_Pop rb) (\<lambda>(r, rb'). Inr (r, b\<lparr>bus_buf := Some rb'\<rparr>)))"

definition ProcessBus_size :: "bus \<Rightarrow> nat result" where
  "ProcessBus_size b =
     (case bus_buf b of None \<Rightarrow> Inl Null_dereference | Some rb \<Rightarrow> Inr (element_size rb))"

section \<open>The manager\<close>

text \<open>
  What the XML reader makes of an element: its name and its attributes, \<open>None\<close> where the
  attribute is missing or does not have the type asked for, so that \<open>get\<close> throws.
\<close>

record bus_element =
  element_tag :: string
  attr_id :: "nat option"
  attr_size :: "nat option"
  attr_path :: "string option"

type_synonym bus_map = "nat \<rightharpoonup> bus"

definition ProcessBusManager_init :: bus_map where
  "ProcessBusManager_init = (\<lambda>_. None)"

text \<open>The loop of \<open>Init\<close>; an exception ends it with \<open>False\<close>, after the buses before it were made.\<close>

fun init_buses :: "bus_element list \<Rightarrow> bus_map \<Rightarrow> (bool \<times> bus_map) result" where
  "init_buses [] m = Inr (True, m)"
| "init_buses (e # es) m =
     (if element_tag e \<noteq> ''Bus'' then init_buses es m
      else case (attr_id e, attr_size e, attr_path e) of
        (Some i, Some len, Some path) \<Rightarrow>
          asserting (m i = None) (init_buses es (m(i \<mapsto> ProcessBus_init i len path)))
      | _ \<Rightarrow> Inr (False, m))"

text \<open>\<open>conf\<close> is what \<open>read_xml\<close> finds below \<open>ProcessBus\<close>, \<open>None\<close> when it throws.\<close>

definition Manager_Init :: "bus_element list option \<Rightarrow> bus_map \<Rightarrow> (int \<times> bus_map) result" where
  "Manager_Init conf m =
     (case conf of
        None \<Rightarrow> Inr (- 1, m)
      | Some es \<Rightarrow> andthen (init_buses es m) (\<lambda>(ok, m'). Inr (if ok then 0 else - 1, m')))"

definition FindBus :: "nat \<Rightarrow> bus_map \<Rightarrow> bus option" where
  "FindBus i m = m i"

text \<open>\<open>Connect\<close>, \<open>Listen\<close> and \<open>TryRecover\<close> of the manager differ in the operation of the bus.\<close>

definition on_bus ::
  "(bus \<Rightarrow> 'w \<Rightarrow> (int \<times> bus \<times> 'w) result) \<Rightarrow> nat \<Rightarrow> bus_map \<Rightarrow> 'w \<Rightarrow> (int \<times> bus_map \<times> 'w) result" where
  "on_bus f i m w =
     (case FindBus i m of
        None \<Rightarrow> Inr (- 1, m, w)
      | Some b \<Rightarrow> andthen (f b w) (\<lambda>(ret, b', w'). Inr (ret, m(i \<mapsto> b'), w')))"

definition Manager_Connect :: "'w bus_os \<Rightarrow> nat \<Rightarrow> bus_map \<Rightarrow> 'w \<Rightarrow> (int \<times> bus_map \<times> 'w) result" where
  "Manager_Connect os = on_bus (Connect os)"

definition Manager_Listen :: "'w bus_os \<Rightarrow> nat \<Rightarrow> bus_map \<Rightarrow> 'w \<Rightarrow> (int \<times> bus_map \<times> 'w) result" where
  "Manager_Listen os = on_bus (Listen os)"

definition Manager_TryRecover :: "'w bus_os \<Rightarrow> nat \<Rightarrow> bus_map \<Rightarrow> 'w \<Rightarrow> (int \<times> bus_map \<times> 'w) result" where
  "Manager_TryRecover os = on_bus (TryRecover os)"

definition Manager_Write :: "nat \<Rightarrow> message \<Rightarrow> bus_map \<Rightarrow> (int \<times> bus_map) result" where
  "Manager_Write i msg m =
     (case FindBus i m of
        None \<Rightarrow> Inr (- 1, m)
      | Some b \<Rightarrow> andthen (ProcessBus_Write b msg) (\<lambda>(ok, b'). Inr (if ok then 0 else - 2, m(i \<mapsto> b'))))"

text \<open>The second component is what \<open>*pbuf\<close> is set to, \<open>None\<close> when it is not touched.\<close>

definition Manager_Read :: "nat \<Rightarrow> bus_map \<Rightarrow> (int \<times> message option option \<times> bus_map) result" where
  "Manager_Read i m =
     (case FindBus i m of
        None \<Rightarrow> Inr (- 1, None, m)
      | Some b \<Rightarrow> andthen (ProcessBus_Read b) (\<lambda>(r, b'). Inr (0, Some r, m(i \<mapsto> b'))))"

text \<open>The destructor deletes the buses in the order of their ids.\<close>

definition ProcessBusManager_delete :: "bus_map \<Rightarrow> bus_call list" where
  "ProcessBusManager_delete m =
     concat (map (\<lambda>i. case m i of None \<Rightarrow> [] | Some b \<Rightarrow> ProcessBus_delete b) (sorted_list_of_set (dom m)))"

section \<open>The queue of a bus\<close>

definition bus_rep :: "bus \<Rightarrow> message list \<Rightarrow> bool" where
  "bus_rep b ms \<longleftrightarrow> (\<exists>rb. bus_buf b = Some rb \<and> ring_rep rb ms)"

definition bus_fits :: "bus \<Rightarrow> message \<Rightarrow> bool" where
  "bus_fits b m \<longleftrightarrow> (\<exists>rb. bus_buf b = Some rb \<and> ring_fits rb m)"

interpretation process_bus: message_queue bus_rep bus_fits ProcessBus_Write ProcessBus_Read
proof unfold_locales
  fix b :: bus and ms m
  assume "bus_rep b ms" "bus_fits b m"
  then obtain rb where rb: "bus_buf b = Some rb" "ring_rep rb ms" "ring_fits rb m"
    by (auto simp: bus_rep_def bus_fits_def)
  obtain ok rb' where p: "ring_Push rb m = Inr (ok, rb')" "ring_rep rb' (if ok then ms @ [m] else ms)"
    using bus_ring.push_law [OF rb(2,3)] by blast
  have "ProcessBus_Write b m = Inr (ok, b\<lparr>bus_buf := Some rb'\<rparr>)"
    by (simp add: ProcessBus_Write_def rb(1) p(1))
  moreover have "bus_rep (b\<lparr>bus_buf := Some rb'\<rparr>) (if ok then ms @ [m] else ms)"
    using p(2) by (simp add: bus_rep_def)
  ultimately show "\<exists>ok b'. ProcessBus_Write b m = Inr (ok, b') \<and> bus_rep b' (if ok then ms @ [m] else ms)"
    by blast
next
  fix b :: bus and ms
  assume "bus_rep b ms"
  then obtain rb where rb: "bus_buf b = Some rb" "ring_rep rb ms" by (auto simp: bus_rep_def)
  obtain rb' where p: "ring_Pop rb = Inr (case ms of [] \<Rightarrow> None | m # _ \<Rightarrow> Some m, rb')" "ring_rep rb' (tl ms)"
    using bus_ring.pop_law [OF rb(2)] by blast
  have "ProcessBus_Read b = Inr (case ms of [] \<Rightarrow> None | m # _ \<Rightarrow> Some m, b\<lparr>bus_buf := Some rb'\<rparr>)"
    by (simp add: ProcessBus_Read_def rb(1) p(1))
  moreover have "bus_rep (b\<lparr>bus_buf := Some rb'\<rparr>) (tl ms)"
    using p(2) by (simp add: bus_rep_def)
  ultimately show "\<exists>b'. ProcessBus_Read b = Inr (case ms of [] \<Rightarrow> None | m # _ \<Rightarrow> Some m, b') \<and> bus_rep b' (tl ms)"
    by blast
qed

section \<open>What the memory holds\<close>

text \<open>
  Between two addresses that are far enough apart lie the offset data and the area of a ring;
  a file that is mapped holds the area asked for.
\<close>

definition maps_areas :: "'w bus_os \<Rightarrow> bool" where
  "maps_areas os \<longleftrightarrow>
     (\<forall>w s e. length (area (bus_memory os w s e)) = nat (e - s) - sizeof_OffsetData)"

definition mapped_ring :: "'w bus_os \<Rightarrow> bus \<Rightarrow> 'w \<Rightarrow> ring" where
  "mapped_ring os b w = bus_memory os w (bus_mem b + 1) (bus_mem b + 1 + int (mmap_len b))"

lemma make_ring_Inr:
  assumes "make_ring os reuse b w = Inr (r, b', w')"
  obtains rb where "RingBuffer_init (mmap_len b) (mapped_ring os b w) reuse = Inr rb" "w' = w"
    "b' = b\<lparr>bus_header := bus_mem b, bus_buf := Some rb, bus_buf_end := bus_mem b + 1 + int (mmap_len b)\<rparr>"
  using assms
  by (auto simp: make_ring_def mapped_ring_def InitHeader_def sizeof_Header_def Let_def andthen_Inr_iff)

lemma Listen_Inr_0:
  assumes "Listen os b w = Inr (0, b1, w1)"
  obtains b2 where "make_ring os False b2 w1 = Inr (0, b1, w1)" "mmap_len b2 = mmap_len b"
proof -
  obtain fd err wo where o: "bus_open os (mmap_filename b) O_RDWR_CREAT w = ((fd, err), wo)"
    by (metis surj_pair)
  have n: "\<not> Inited b" using assms by (simp add: Listen_def)
  let ?w = "bus_ftruncate os fd (mmap_len b) wo"
  let ?b = "b\<lparr>mmap_fd := fd, bus_mem := bus_mmap os fd (mmap_len b) ?w\<rparr>"
  have r: "make_ring os False ?b ?w = Inr (0, b1, w1)"
    using assms n o by (auto simp: Listen_def Let_def split: if_splits)
  then have "w1 = ?w" by (rule make_ring_Inr)
  then show ?thesis using r that [of ?b] by simp
qed

lemma TryRecover_Inr_0:
  assumes "TryRecover os b w = Inr (0, b1, w1)"
  obtains b2 where "make_ring os True b2 w1 = Inr (0, b1, w1)" "mmap_len b2 = mmap_len b"
proof -
  obtain fd err wo where o: "bus_open os (mmap_filename b) O_RDWR_CREAT w = ((fd, err), wo)"
    by (metis surj_pair)
  have n: "\<not> Inited b" using assms by (simp add: TryRecover_def)
  let ?b = "b\<lparr>mmap_fd := fd, bus_mem := bus_mmap os fd (mmap_len b) wo\<rparr>"
  have r: "make_ring os True ?b wo = Inr (0, b1, w1)"
    using assms n o by (auto simp: TryRecover_def Let_def split: if_splits option.splits)
  then have "w1 = wo" by (rule make_ring_Inr)
  then show ?thesis using r that [of ?b] by simp
qed

text \<open>A bus made by \<open>Listen\<close> is empty; one made by \<open>TryRecover\<close> holds what the file holds.\<close>

lemma Listen_empty:
  assumes "Listen os b w = Inr (0, b1, w1)" "maps_areas os" "mmap_len b < 2 ^ 31"
  shows "bus_rep b1 []"
proof -
  obtain b2 where b2: "make_ring os False b2 w1 = Inr (0, b1, w1)" "mmap_len b2 = mmap_len b"
    using assms(1) by (rule Listen_Inr_0)
  obtain rb where rb: "RingBuffer_init (mmap_len b2) (mapped_ring os b2 w1) False = Inr rb"
    "bus_buf b1 = Some rb"
    using b2(1) by (rule make_ring_Inr) simp
  have "length (area (mapped_ring os b2 w1)) = mmap_len b - sizeof_OffsetData"
    using assms(2) b2(2) by (simp add: maps_areas_def mapped_ring_def)
  then have "ring_rep rb []"
    using rb(1) b2(2) assms(3)
    by (auto simp: RingBuffer_init_def ring_rep_def place_def sizeof_OffsetData_def kExtraSpace_def)
  then show ?thesis using rb(2) by (simp add: bus_rep_def)
qed

lemma TryRecover_keeps:
  assumes "TryRecover os b w = Inr (0, b1, w1)"
  shows "bus_buf b1 = Some (mapped_ring os b1 w1)"
proof -
  obtain b2 where b2: "make_ring os True b2 w1 = Inr (0, b1, w1)" "mmap_len b2 = mmap_len b"
    using assms by (rule TryRecover_Inr_0)
  then show ?thesis
    by (auto elim!: make_ring_Inr simp: RingBuffer_init_def mapped_ring_def)
qed

text \<open>
  The ring is given \<open>mmap_len_\<close> bytes after the header, which takes one byte of the mapping:
  its last byte lies one past the end of the mapping.
\<close>

lemma Listen_past_mapping:
  assumes "Listen os b w = Inr (0, b1, w1)"
  shows "bus_buf_end b1 = bus_mem b1 + int (mmap_len b1) + 1"
  using assms by (rule Listen_Inr_0) (auto elim!: make_ring_Inr)

text \<open>What a configuration of complete elements stands for: ids, lengths and directories.\<close>

definition element_of :: "nat \<times> nat \<times> string \<Rightarrow> bus_element" where
  "element_of = (\<lambda>(i, len, path).
     \<lparr>element_tag = ''Bus'', attr_id = Some i, attr_size = Some len, attr_path = Some path\<rparr>)"

definition bus_of :: "nat \<times> nat \<times> string \<Rightarrow> nat \<times> bus" where
  "bus_of = (\<lambda>(i, len, path). (i, ProcessBus_init i len path))"

lemma fst_bus_of: "fst (bus_of sp) = fst sp"
  by (cases sp) (simp add: bus_of_def)

lemma init_buses_table:
  "init_buses (map element_of specs) m =
     (if distinct (map fst specs) \<and> dom m \<inter> fst ` set specs = {}
      then Inr (True, m ++ map_of (map bus_of specs)) else Inl Assertion_failed)"
proof (induction specs arbitrary: m)
  case Nil
  then show ?case by simp
next
  case (Cons sp specs)
  obtain i len path where sp: "sp = (i, len, path)" by (metis surj_pair)
  let ?m = "m(i \<mapsto> ProcessBus_init i len path)"
  have step: "init_buses (map element_of (sp # specs)) m =
      asserting (m i = None) (init_buses (map element_of specs) ?m)"
    by (simp add: sp element_of_def)
  show ?case
  proof (cases "m i = None \<and> i \<notin> fst ` set specs")
    case True
    then have "i \<notin> dom (map_of (map bus_of specs))"
      by (simp add: dom_map_of_conv_image_fst image_image fst_bus_of)
    then have eq: "?m ++ map_of (map bus_of specs) = m ++ map_of (map bus_of (sp # specs))"
      by (simp add: sp bus_of_def map_add_upd_left)
    have conds: "distinct (map fst (sp # specs)) \<and> dom m \<inter> fst ` set (sp # specs) = {} \<longleftrightarrow>
        distinct (map fst specs) \<and> dom ?m \<inter> fst ` set specs = {}"
      using True by (auto simp: sp)
    have run: "init_buses (map element_of (sp # specs)) m = init_buses (map element_of specs) ?m"
      unfolding step using True by simp
    show ?thesis by (simp only: run Cons.IH eq conds)
  next
    case False
    then have "\<not> (distinct (map fst (sp # specs)) \<and> dom m \<inter> fst ` set (sp # specs) = {})"
      by (auto simp: sp dom_def)
    moreover have "init_buses (map element_of (sp # specs)) m = Inl Assertion_failed"
    proof (cases "m i = None")
      case True
      then have "dom ?m \<inter> fst ` set specs \<noteq> {}" using False by auto
      then show ?thesis unfolding step Cons.IH using True by simp
    next
      case False
      then show ?thesis unfolding step by (simp only: asserting_False)
    qed
    ultimately show ?thesis by simp
  qed
qed

section \<open>Properties of the buses\<close>


text \<open>A recovery that fails spoils the bus. When the file does not have the right size (it is
  empty when \<open>TryRecover\<close> has just created it), the descriptor is kept: the bus counts as
  initialised, so \<open>Listen\<close>, \<open>Connect\<close> and a second \<open>TryRecover\<close> fail their assertion, while
  \<open>Write\<close> and \<open>Read\<close> go through a null pointer.\<close>

theorem failed_recover_blocks:
  assumes "bus_open os (mmap_filename (ProcessBus_init i len path)) O_RDWR_CREAT w = ((fd, err), w1)"
    and "0 \<le> fd" "bus_fstat os fd w1 = Some st_size" "st_size \<noteq> len"
  shows "\<exists>b. TryRecover os (ProcessBus_init i len path) w = Inr (- 3, b, w1) \<and>
     Listen os b w' = Inl Assertion_failed \<and> Connect os b w' = Inl Assertion_failed \<and>
     TryRecover os b w' = Inl Assertion_failed \<and>
     ProcessBus_Write b m = Inl Null_dereference \<and> ProcessBus_Read b = Inl Null_dereference"
  using assms
  by (intro exI [of _ "(ProcessBus_init i len path)\<lparr>mmap_fd := fd\<rparr>"])
     (simp add: TryRecover_def Listen_def Connect_def Inited_def ProcessBus_Write_def ProcessBus_Read_def
       ProcessBus_init_def)

text \<open>\<open>Init\<close> makes one bus for every element of the configuration, under its id and not yet
  mapped; an id that occurs twice fails the assertion.\<close>

theorem Manager_Init_table:
  "Manager_Init (Some (map element_of specs)) ProcessBusManager_init =
   (if distinct (map fst specs) then Inr (0, map_of (map bus_of specs)) else Inl Assertion_failed)"
  by (simp add: Manager_Init_def ProcessBusManager_init_def init_buses_table)

section \<open>A concrete kernel\<close>

text \<open>One file, descriptor 3, mapped at 4096; the state is what the file holds.\<close>

definition demo_bus_os :: "ring bus_os" where
  "demo_bus_os =
     \<lparr>bus_open = (\<lambda>_ _ w. ((3, 0), w)), bus_fstat = (\<lambda>_ w. Some (length (area w) + 24)),
      bus_ftruncate = (\<lambda>_ _ w. w), bus_mmap = (\<lambda>_ _ _. 4096),
      bus_memory = (\<lambda>w s e. let n = nat (e - s) - 24 in w\<lparr>area := take n (area w) @ replicate (n - length (area w)) 0\<rparr>)\<rparr>"

definition demo_bus :: bus where
  "demo_bus = ProcessBus_init 1 40 ''/tmp''"

text \<open>The bus on a file that holds \<open>rb\<close>, and the ring after a message was pushed.\<close>

definition demo_mapped :: "ring \<Rightarrow> bus" where
  "demo_mapped rb = demo_bus\<lparr>mmap_fd := 3, bus_mem := 4096, bus_header := 4096, bus_buf := Some rb, bus_buf_end := 4137\<rparr>"

definition demo_ring :: ring where
  "demo_ring = set_size (put_frame ring16 0 [7, 8]) 1"

lemma demo_maps: "maps_areas demo_bus_os"
  by (auto simp: maps_areas_def demo_bus_os_def Let_def sizeof_OffsetData_def)

lemma demo_Listen: "Listen demo_bus_os demo_bus ring16 = Inr (0, demo_mapped ring16, ring16)"
  by (simp add: Listen_def demo_bus_def ProcessBus_init_def Inited_def demo_bus_os_def MAP_FAILED_def
      make_ring_def InitHeader_def sizeof_Header_def RingBuffer_init_def sizeof_OffsetData_def kExtraSpace_def
      Let_def demo_mapped_def ring16_def ring_at_def)

lemma demo_area: "length (area demo_ring) = 16"
  by (simp add: demo_ring_def put_frame_def set_size_def ring16_def ring_at_def)

lemma demo_mapped_ring: "mapped_ring demo_bus_os (demo_mapped demo_ring) demo_ring = demo_ring"
  by (simp add: mapped_ring_def demo_bus_os_def demo_mapped_def demo_bus_def ProcessBus_init_def Let_def demo_area)

lemma demo_TryRecover: "TryRecover demo_bus_os demo_bus demo_ring = Inr (0, demo_mapped demo_ring, demo_ring)"
  using demo_area
  by (simp add: TryRecover_def demo_bus_def ProcessBus_init_def Inited_def demo_bus_os_def MAP_FAILED_def
      make_ring_def InitHeader_def sizeof_Header_def RingBuffer_init_def sizeof_OffsetData_def kExtraSpace_def
      Let_def demo_mapped_def)

lemma demo_Write: "ProcessBus_Write (demo_mapped ring16) [7, 8] = Inr (True, demo_mapped demo_ring)"
proof -
  have "ring_Push ring16 [7, 8] = Inr (True, demo_ring)"
    using Push_empty [OF ring16_rep, of "[7, 8]" 0] space_left_ring_at [of 0 16]
    by (simp add: demo_ring_def ring16_def) (simp add: ring_at_def)
  then show ?thesis by (simp add: ProcessBus_Write_def demo_mapped_def)
qed

lemma demo_fits: "sends_fit bus_fits ProcessBus_Write ProcessBus_Read [Send [7, 8]] (demo_mapped ring16)"
  using ring16_fits demo_Write by (simp add: bus_fits_def demo_mapped_def)

lemma demo_rep: "bus_rep (demo_mapped demo_ring) [[7, 8]]"
proof -
  have "bus_rep (demo_mapped ring16) []" by (simp add: bus_rep_def demo_mapped_def ring16_rep)
  moreover have "bus_fits (demo_mapped ring16) [7, 8]"
    by (simp add: bus_fits_def demo_mapped_def ring16_fits)
  ultimately show ?thesis using process_bus.push_law demo_Write by fastforce
qed


theorem failed_recover_blocks_witness:
  "\<exists>b. TryRecover demo_bus_os (ProcessBus_init 1 100 ''/tmp'') ring16 = Inr (- 3, b, ring16) \<and>
     Listen demo_bus_os b ring16 = Inl Assertion_failed \<and> Connect demo_bus_os b ring16 = Inl Assertion_failed \<and>
     TryRecover demo_bus_os b ring16 = Inl Assertion_failed \<and>
     ProcessBus_Write b [7] = Inl Null_dereference \<and> ProcessBus_Read b = Inl Null_dereference"
  by (rule failed_recover_blocks [where fd = 3 and err = 0 and st_size = 40])
     (simp_all add: demo_bus_os_def ring16_def ring_at_def)

end
