(* ===== verification/Timer_Wheel.thy ===== *)
theory Timer_Wheel
  imports Fx_Prelude "HOL-Library.Multiset"
begin

unbundle bit_operations_syntax

text \<open>
  The hierarchical timer wheel \<open>fx::TimerWheel\<close> (include/fx_timer_wheel.h,
  src/fx_timer_wheel.cc). Timestamps are milliseconds in a \<open>uint64_t\<close>. A timer object is
  named by its id: a slot of a wheel is the list of the ids linked into it, and \<open>timers\<close>
  is the map \<open>timers_\<close> from ids to the objects. The callback is left as a value of any
  type \<open>'c\<close>; \<open>Step\<close> returns the callbacks to run, as the code does. The priority queue of
  expiry times is an ascending list.

  The lemmas of this theory are about the positions: the carry loop adds the interval to the
  hands as digits of a mixed-radix clock of \<open>2 ^ 31\<close> milliseconds, and when the clock goes
  forward the slots passed hold only timers that are due. The theory \<open>Timer_Wheel_Laws\<close> has
  the invariant and the properties.
\<close>

section \<open>State\<close>

record 'c timer =
  timer_id :: nat
  expire_time :: nat
  cb :: 'c

record 'c wheel =
  hands_idx :: nat
  hands_copy :: "nat list list"
  last_timer_id :: nat
  last_expire_time :: nat
  wheels :: "nat list list list"
  timers :: "nat \<rightharpoonup> 'c timer"
  expire_time_queue :: "nat list"

definition kWheelCount :: nat where
  "kWheelCount = 5"

definition kWheelSlotOffset :: "nat list" where
  "kWheelSlotOffset = [7, 6, 6, 6, 6]"

definition kWheelSlotCount :: "nat list" where
  "kWheelSlotCount = [128, 64, 64, 64, 64]"

text \<open>The constructor; \<open>now\<close> is what \<open>base::Now()\<close> returns in it.\<close>

definition TimerWheel_init :: "nat \<Rightarrow> 'c wheel" where
  "TimerWheel_init now =
     \<lparr>hands_idx = 0, hands_copy = replicate 2 (replicate kWheelCount 0), last_timer_id = 0,
      last_expire_time = now, wheels = map (\<lambda>n. replicate n []) kWheelSlotCount,
      timers = Map.empty, expire_time_queue = []\<rparr>"

definition hands :: "'c wheel \<Rightarrow> nat list" where
  "hands w = hands_copy w ! hands_idx w"

section \<open>Positions\<close>

text \<open>
  The loop of \<open>FindPos\<close>: the digit of the sum at wheel \<open>idx\<close>, the carry into the next wheel,
  and the exit at the first wheel without a carry. The second component is \<open>new_hands\<close>.
\<close>

function find_loop :: "nat list \<Rightarrow> nat \<Rightarrow> nat \<Rightarrow> nat list \<Rightarrow> (nat \<times> nat) option \<times> nat list" where
  "find_loop hs idx interval new_hands =
     (if idx < kWheelCount then
        let md = interval AND (kWheelSlotCount ! idx - 1);
            res = drop_bit (kWheelSlotOffset ! idx) interval;
            carry = kWheelSlotCount ! idx \<le> md + hs ! idx;
            digit = (if carry then md + hs ! idx - kWheelSlotCount ! idx else md + hs ! idx);
            res' = (if carry then res + 1 else res)
        in if res' = 0 then (Some (idx, digit), new_hands[idx := digit])
           else find_loop hs (Suc idx) res' (new_hands[idx := digit])
      else (None, new_hands))"
  by pat_completeness auto
termination
  by (relation "measure (\<lambda>(hs, idx, i, n). kWheelCount - idx)") auto

declare find_loop.simps [simp del]

definition set_other_hands :: "bool \<Rightarrow> nat list \<Rightarrow> 'c wheel \<Rightarrow> 'c wheel" where
  "set_other_hands update_hands nh w =
     (if update_hands then w\<lparr>hands_copy := (hands_copy w)[1 - hands_idx w := nh]\<rparr> else w)"

text \<open>Returns the slot, whether the sum overflowed the highest wheel, and the wheel.\<close>

definition FindPos :: "'c wheel \<Rightarrow> int \<Rightarrow> bool \<Rightarrow> ((nat \<times> nat) \<times> bool \<times> 'c wheel) result" where
  "FindPos w interval update_hands =
     asserting (0 \<le> interval)
      (case find_loop (hands w) 0 (nat interval) (hands w) of
         (Some (idx, d), nh) \<Rightarrow>
           asserting (idx < kWheelCount \<and> d < kWheelSlotCount ! idx)
             (Inr ((idx, d), False, set_other_hands update_hands nh w))
       | (None, nh) \<Rightarrow>
           (case List.find (\<lambda>i. nh ! i \<noteq> 0) (rev [0 ..< kWheelCount]) of
              Some i \<Rightarrow>
                asserting (nh ! i < kWheelSlotCount ! i)
                  (Inr ((i, nh ! i), True, set_other_hands update_hands nh w))
            | None \<Rightarrow> Inl Assertion_failed))"

definition SwitchHands :: "'c wheel \<Rightarrow> 'c wheel" where
  "SwitchHands w = w\<lparr>hands_idx := 1 - hands_idx w\<rparr>"

section \<open>Setting and removing timers\<close>

text \<open>\<open>wheels_[i][j]\<close>; an index past the array is an access out of bounds.\<close>

definition slot_get :: "nat list list list \<Rightarrow> nat \<Rightarrow> nat \<Rightarrow> nat list result" where
  "slot_get ws i j =
     (if i < length ws \<and> j < length (ws ! i) then Inr (ws ! i ! j) else Inl Out_of_bounds)"

definition slot_set :: "nat list list list \<Rightarrow> nat \<Rightarrow> nat \<Rightarrow> nat list \<Rightarrow> nat list list list" where
  "slot_set ws i j ids = ws[i := (ws ! i)[j := ids]]"

definition push_slot :: "nat list list list \<Rightarrow> nat \<times> nat \<Rightarrow> nat \<Rightarrow> nat list list list result" where
  "push_slot ws pos t =
     andthen (slot_get ws (fst pos) (snd pos)) (\<lambda>ids.
       Inr (slot_set ws (fst pos) (snd pos) (ids @ [t])))"

text \<open>\<open>unlink()\<close> of the intrusive list hook: out of whichever slot the timer is in.\<close>

definition unlink :: "nat list list list \<Rightarrow> nat \<Rightarrow> nat list list list" where
  "unlink ws t = map (map (removeAll t)) ws"

definition is_linked :: "nat list list list \<Rightarrow> nat \<Rightarrow> bool" where
  "is_linked ws t \<longleftrightarrow> t \<in> set (concat (concat ws))"

definition NextTimeout :: "'c wheel \<Rightarrow> nat \<Rightarrow> int" where
  "NextTimeout w now =
     (case expire_time_queue w of
        [] \<Rightarrow> -1
      | t0 # _ \<Rightarrow> if t0 \<le> now then 0 else to_int32 (int t0 - int now))"

definition TimerWheel_Start :: "'c wheel \<Rightarrow> nat \<Rightarrow> 'c wheel" where
  "TimerWheel_Start w now = w\<lparr>last_expire_time := now\<rparr>"

definition TimerWheel_RunAfter :: "'c wheel \<Rightarrow> int \<Rightarrow> 'c \<Rightarrow> (nat \<times> 'c wheel) result" where
  "TimerWheel_RunAfter w interval f =
     andthen (FindPos w interval False) (\<lambda>(pos, _, w1).
       let i = size_add (last_timer_id w1) 1;
           e = size_add (nat interval) (last_expire_time w1);
           t = \<lparr>timer_id = i, expire_time = e, cb = f\<rparr>
       in andthen (push_slot (wheels w1) pos i) (\<lambda>ws.
            asserting (timers w1 i = None)
              (Inr (i, w1\<lparr>last_timer_id := i, wheels := ws, timers := (timers w1)(i \<mapsto> t),
                         expire_time_queue := insort e (expire_time_queue w1)\<rparr>))))"

definition TimerWheel_RunAt :: "'c wheel \<Rightarrow> nat \<Rightarrow> 'c \<Rightarrow> (nat \<times> 'c wheel) result" where
  "TimerWheel_RunAt w e f =
     TimerWheel_RunAfter w
       (if last_expire_time w < e then to_int32 (int e - int (last_expire_time w)) else 0) f"

definition TimerWheel_RemoveTimer :: "'c wheel \<Rightarrow> nat \<Rightarrow> 'c wheel result" where
  "TimerWheel_RemoveTimer w i =
     (case timers w i of
        None \<Rightarrow> Inl Assertion_failed
      | Some t \<Rightarrow>
          Inr (w\<lparr>wheels := unlink (wheels w) i, timers := (timers w)(i := None),
                 expire_time_queue := remove1 (expire_time t) (expire_time_queue w)\<rparr>))"

section \<open>A step\<close>

text \<open>All slots of the first \<open>n\<close> wheels spliced into one list, and the emptied wheels.\<close>

definition splice_wheels :: "nat list list list \<Rightarrow> nat \<Rightarrow> nat list \<times> nat list list list" where
  "splice_wheels ws n =
     (concat (concat (take n ws)), map (map (\<lambda>_. [])) (take n ws) @ drop n ws)"

text \<open>The slots \<open>a, \<dots>, b - 1\<close> of wheel \<open>i\<close>.\<close>

definition splice_slots ::
  "nat list list list \<Rightarrow> nat \<Rightarrow> nat \<Rightarrow> nat \<Rightarrow> nat list \<times> nat list list list" where
  "splice_slots ws i a b =
     (concat (map (\<lambda>j. ws ! i ! j) [a ..< b]),
      ws[i := map (\<lambda>j. if a \<le> j \<and> j < b then [] else ws ! i ! j) [0 ..< length (ws ! i)]])"

text \<open>The timers of a slot that are due, and those that are not, each in the slot's order.\<close>

fun split_due :: "(nat \<rightharpoonup> 'c timer) \<Rightarrow> nat \<Rightarrow> nat list \<Rightarrow> (nat list \<times> nat list) result" where
  "split_due tm now [] = Inr ([], [])"
| "split_due tm now (i # ids) =
     (case tm i of
        None \<Rightarrow> Inl Assertion_failed
      | Some t \<Rightarrow> andthen (split_due tm now ids) (\<lambda>(due, keep).
          Inr (if expire_time t \<le> now then (i # due, keep) else (due, i # keep))))"

fun collect_callbacks :: "(nat \<rightharpoonup> 'c timer) \<Rightarrow> nat list \<Rightarrow> 'c list result" where
  "collect_callbacks tm [] = Inr []"
| "collect_callbacks tm (i # ids) =
     (case tm i of
        None \<Rightarrow> Inl Assertion_failed
      | Some t \<Rightarrow> andthen (collect_callbacks tm ids) (\<lambda>fs. Inr (cb t # fs)))"

fun destroy_timers :: "(nat \<rightharpoonup> 'c timer) \<Rightarrow> nat list \<Rightarrow> (nat \<rightharpoonup> 'c timer) result" where
  "destroy_timers tm [] = Inr tm"
| "destroy_timers tm (i # ids) =
     (case tm i of None \<Rightarrow> Inl Assertion_failed | Some _ \<Rightarrow> destroy_timers (tm(i := None)) ids)"

fun adjust_timers :: "'c wheel \<Rightarrow> nat \<Rightarrow> nat list \<Rightarrow> 'c wheel result" where
  "adjust_timers w now [] = Inr w"
| "adjust_timers w now (i # ids) =
     (case timers w i of
        None \<Rightarrow> Inl Out_of_bounds
      | Some t \<Rightarrow>
          asserting (now < expire_time t \<and> is_linked (wheels w) i)
           (andthen (FindPos w (to_int32 (int (expire_time t) - int now)) False) (\<lambda>(pos, _, w1).
            andthen (push_slot (unlink (wheels w1) i) pos i) (\<lambda>ws.
              adjust_timers (w1\<lparr>wheels := ws\<rparr>) now ids))))"

text \<open>
  The timers that leave the wheels in a step from the hands \<open>hs\<close> to slot \<open>pos\<close>: everything
  when the clock overflows, otherwise the wheels below, the slots passed, and those of the
  slot reached that are due.
\<close>

definition collect_due ::
  "'c wheel \<Rightarrow> nat list \<Rightarrow> nat \<Rightarrow> nat \<times> nat \<Rightarrow> bool \<Rightarrow> (nat list \<times> nat list list list) result" where
  "collect_due w hs now pos overflow =
     (let end_wheel_pos = (if overflow then kWheelCount else fst pos);
          (l1, ws1) = splice_wheels (wheels w) end_wheel_pos
      in if overflow then Inr (l1, ws1)
         else asserting (hs ! end_wheel_pos \<le> snd pos)
           (let (l2, ws2) = splice_slots ws1 end_wheel_pos (hs ! end_wheel_pos) (snd pos)
            in andthen (slot_get ws2 end_wheel_pos (snd pos)) (\<lambda>ids.
               andthen (split_due (timers w) now ids) (\<lambda>(due, keep).
                 Inr (l1 @ l2 @ due, slot_set ws2 end_wheel_pos (snd pos) keep)))))"

text \<open>
  \<open>Step\<close>. After an overflow \<open>end_wheel_pos\<close> is \<open>kWheelCount\<close>, and the loop that looks for
  timers to adjust indexes \<open>wheels_\<close> with it.
\<close>

definition TimerWheel_Step :: "'c wheel \<Rightarrow> nat \<Rightarrow> ('c list \<times> 'c wheel) result" where
  "TimerWheel_Step w now =
     (let interval = (if last_expire_time w < now
                      then to_int32 (int now - int (last_expire_time w)) else 0)
      in andthen (FindPos w interval True) (\<lambda>(pos, overflow, w1).
         let end_wheel_pos = (if overflow then kWheelCount else fst pos) in
         andthen (collect_due w1 (hands w) now pos overflow) (\<lambda>(l, ws).
         let w2 = (SwitchHands w1)\<lparr>wheels := ws,
                     expire_time_queue := dropWhile (\<lambda>t. t \<le> now) (expire_time_queue w1)\<rparr> in
         andthen (collect_callbacks (timers w2) l) (\<lambda>callbacks.
         andthen (destroy_timers (timers w2) l) (\<lambda>tm.
         andthen (slot_get (wheels w2) end_wheel_pos (snd pos)) (\<lambda>timers_to_adjust.
         andthen (adjust_timers (w2\<lparr>timers := tm\<rparr>) now timers_to_adjust) (\<lambda>w3.
           Inr (callbacks, w3\<lparr>last_expire_time := now\<rparr>))))))))"

section \<open>The clock\<close>

text \<open>
  The hands are the digits of a clock that counts milliseconds modulo \<open>2 ^ 31\<close>, the lowest
  wheel holding the digit of lowest weight.
\<close>

primrec wheel_base :: "nat \<Rightarrow> nat" where
  "wheel_base 0 = 1"
| "wheel_base (Suc i) = wheel_base i * kWheelSlotCount ! i"

definition digit :: "nat \<Rightarrow> nat \<Rightarrow> nat" where
  "digit s i = s div wheel_base i mod kWheelSlotCount ! i"

definition digits :: "nat \<Rightarrow> nat list" where
  "digits s = map (digit s) [0 ..< kWheelCount]"

definition clock :: "nat list \<Rightarrow> nat" where
  "clock hs = (\<Sum>i = 0 ..< kWheelCount. hs ! i * wheel_base i)"

definition hands_ok :: "nat list \<Rightarrow> bool" where
  "hands_ok hs \<longleftrightarrow>
     length hs = kWheelCount \<and> (\<forall>i<kWheelCount. hs ! i < kWheelSlotCount ! i)"

text \<open>The lowest wheel above which the clock readings \<open>h\<close> and \<open>s\<close> agree.\<close>

definition at_level :: "nat \<Rightarrow> nat \<Rightarrow> nat \<Rightarrow> bool" where
  "at_level h s i \<longleftrightarrow>
     i < kWheelCount \<and> h div wheel_base (Suc i) = s div wheel_base (Suc i) \<and>
     (i = 0 \<or> h div wheel_base i \<noteq> s div wheel_base i)"

definition on_slot :: "nat \<Rightarrow> nat \<Rightarrow> nat \<Rightarrow> nat \<Rightarrow> bool" where
  "on_slot h s i j \<longleftrightarrow> at_level h s i \<and> digit s i = j"

lemma wheel_cases:
  "i < kWheelCount \<longleftrightarrow> i = 0 \<or> i = 1 \<or> i = 2 \<or> i = 3 \<or> i = 4"
  by (auto simp: kWheelCount_def)

lemma slot_count_pos [simp]: "i < kWheelCount \<Longrightarrow> 0 < kWheelSlotCount ! i"
  by (auto simp: wheel_cases kWheelSlotCount_def)

lemma kWheelCount_Suc: "kWheelCount = Suc (Suc (Suc (Suc (Suc 0))))"
  by (simp add: kWheelCount_def)

lemma wheel_base_values:
  "wheel_base (Suc 0) = 128" "wheel_base (Suc (Suc 0)) = 8192"
  "wheel_base (Suc (Suc (Suc 0))) = 524288" "wheel_base (Suc (Suc (Suc (Suc 0)))) = 33554432"
  by (simp_all add: kWheelSlotCount_def)

lemma wheel_base_top: "wheel_base kWheelCount = 2 ^ 31"
  unfolding kWheelCount_Suc by (simp add: kWheelSlotCount_def)

lemma slot_mask:
  assumes "i < kWheelCount"
  shows "n AND (kWheelSlotCount ! i - 1) = n mod kWheelSlotCount ! i"
proof -
  have "kWheelSlotCount ! i = 2 ^ (kWheelSlotOffset ! i)"
    using assms by (auto simp: wheel_cases kWheelSlotCount_def kWheelSlotOffset_def)
  then show ?thesis
    using take_bit_eq_mask [of "kWheelSlotOffset ! i" n]
    by (simp add: take_bit_eq_mod mask_eq_exp_minus_1)
qed

lemma slot_shift:
  assumes "i < kWheelCount"
  shows "drop_bit (kWheelSlotOffset ! i) n = n div kWheelSlotCount ! i"
  using assms
  by (auto simp: wheel_cases kWheelSlotCount_def kWheelSlotOffset_def drop_bit_eq_div)

lemma digit_less [simp]: "i < kWheelCount \<Longrightarrow> digit s i < kWheelSlotCount ! i"
  by (simp add: digit_def)

lemma length_digits [simp]: "length (digits s) = kWheelCount"
  by (simp add: digits_def)

lemma nth_digits [simp]: "i < kWheelCount \<Longrightarrow> digits s ! i = digit s i"
  by (simp add: digits_def)

lemma hands_ok_digits [simp]: "hands_ok (digits s)"
  by (simp add: hands_ok_def)

lemma div_wheel_base_Suc:
  "s div wheel_base (Suc i) = s div wheel_base i div kWheelSlotCount ! i"
  by (simp add: div_mult2_eq)

lemma div_wheel_base_mono:
  assumes "h div wheel_base i = s div wheel_base i" "i \<le> k"
  shows "h div wheel_base k = s div wheel_base k"
  using assms(2) by (induction k rule: dec_induct) (simp_all add: assms(1) div_mult2_eq)

lemma div_wheel_base_le: "h \<le> s \<Longrightarrow> h div wheel_base i \<le> s div wheel_base i"
  by (rule div_le_mono)

lemma digits_clock:
  assumes "hands_ok hs"
  shows "digits (clock hs) = hs" "clock hs < 2 ^ 31"
proof -
  obtain a b c d e where hs: "hs = [a, b, c, d, e]"
    using assms by (auto simp: hands_ok_def kWheelCount_Suc length_Suc_conv)
  have r: "a < 128" "b < 64" "c < 64" "d < 64" "e < 64"
    using assms by (auto simp: hands_ok_def wheel_cases hs kWheelSlotCount_def)
  have "clock hs = a + b * 128 + c * 8192 + d * 524288 + e * 33554432"
    unfolding clock_def kWheelCount_Suc hs by (simp add: wheel_base_values del: wheel_base.simps(2))
  then have c: "clock hs = a + 128 * (b + 64 * (c + 64 * (d + 64 * e)))" by simp
  have "d + 64 * e \<le> 4095" using r by simp
  then have "c + 64 * (d + 64 * e) \<le> 262143" using r by simp
  then have "b + 64 * (c + 64 * (d + 64 * e)) \<le> 16777215" using r by simp
  then have u: "a + 128 * (b + 64 * (c + 64 * (d + 64 * e))) < 2147483648" using r by simp
  then show "clock hs < 2 ^ 31" unfolding c by simp
  have q1: "clock hs div 128 = b + 64 * (c + 64 * (d + 64 * e))" using r by (simp add: c)
  have q2: "clock hs div 8192 = c + 64 * (d + 64 * e)"
    using r div_mult2_eq [of "clock hs" 128 64] by (simp add: q1)
  have q3: "clock hs div 524288 = d + 64 * e"
    using r div_mult2_eq [of "clock hs" 8192 64] by (simp add: q2)
  have q4: "clock hs div 33554432 = e"
    using r div_mult2_eq [of "clock hs" 524288 64] by (simp add: q3)
  have "clock hs mod 128 = a" using r(1) by (subst c) (simp only: mod_mult_self2 mod_less)
  then have "digit (clock hs) 0 = a" by (simp add: digit_def kWheelSlotCount_def)
  moreover have "clock hs div 128 mod 64 = b" "clock hs div 8192 mod 64 = c"
      "clock hs div 524288 mod 64 = d" "clock hs div 33554432 mod 64 = e"
    unfolding q1 q2 q3 q4 using r(2-) by (simp_all only: mod_mult_self2 mod_less)
  then have "digit (clock hs) 1 = b" "digit (clock hs) 2 = c" "digit (clock hs) 3 = d"
      "digit (clock hs) 4 = e"
    by (simp_all add: digit_def kWheelSlotCount_def numeral_eq_Suc [of "num.Bit0 num.One"]
        numeral_eq_Suc [of "num.Bit1 num.One"] numeral_eq_Suc [of "num.Bit0 (num.Bit0 num.One)"])
  ultimately show "digits (clock hs) = hs"
    by (simp add: digits_def kWheelCount_def hs upt_rec numeral_eq_Suc [of "num.Bit0 num.One"]
        numeral_eq_Suc [of "num.Bit1 num.One"] numeral_eq_Suc [of "num.Bit0 (num.Bit0 num.One)"])
qed

lemma clock_digits:
  assumes "s < 2 ^ 31"
  shows "clock (digits s) = s"
proof -
  have "\<forall>k \<le> kWheelCount. (\<Sum>i = 0 ..< k. digit s i * wheel_base i) = s mod wheel_base k"
  proof (intro allI impI)
    fix k
    assume "k \<le> kWheelCount"
    then show "(\<Sum>i = 0 ..< k. digit s i * wheel_base i) = s mod wheel_base k"
      by (induction k) (simp_all add: digit_def mod_mult2_eq algebra_simps)
  qed
  then have "(\<Sum>i = 0 ..< kWheelCount. digit s i * wheel_base i) = s"
    using assms by (simp add: wheel_base_top)
  then show ?thesis by (simp add: clock_def)
qed

lemma add_div_mod_carry:
  fixes q r c :: nat
  assumes "0 < c"
  defines "k \<equiv> c \<le> r mod c + q mod c"
  shows "(q + r) div c = q div c + r div c + (if k then 1 else 0)"
    "(q + r) mod c = (if k then r mod c + q mod c - c else r mod c + q mod c)"
proof -
  have m: "r mod c < c" "q mod c < c" using assms by simp_all
  have e: "q + r = (q div c + r div c) * c + (r mod c + q mod c)"
    using div_mult_mod_eq [of q c] div_mult_mod_eq [of r c] by (simp add: algebra_simps)
  show "(q + r) div c = q div c + r div c + (if k then 1 else 0)"
  proof (cases k)
    case True
    have "(r mod c + q mod c) div c = 1"
      using add_strict_mono [OF m] True unfolding k_def by (intro div_nat_eqI) simp_all
    then show ?thesis using True assms(1) by (simp add: div_add1_eq [of q r] add.commute)
  next
    case False
    then show ?thesis
      using assms(1) by (simp add: div_add1_eq [of q r] k_def add.commute not_le)
  qed
  show "(q + r) mod c = (if k then r mod c + q mod c - c else r mod c + q mod c)"
  proof (cases k)
    case True
    then have "(r mod c + q mod c) mod c = r mod c + q mod c - c"
      using m add_strict_mono [OF m] unfolding k_def by (subst le_mod_geq) simp_all
    then show ?thesis using True by (simp add: mod_add_eq add.commute)
  next
    case False
    then have "(r mod c + q mod c) mod c = r mod c + q mod c" by (simp add: k_def not_le)
    then show ?thesis using False by (simp add: mod_add_eq add.commute)
  qed
qed

lemma at_level_unique: "at_level h s i \<Longrightarrow> at_level h s k \<Longrightarrow> i = k"
  using div_wheel_base_mono [of h "Suc i" s k] div_wheel_base_mono [of h "Suc k" s i]
  unfolding at_level_def by (cases i k rule: linorder_cases) auto

lemma the_position:
  assumes "at_level h s i"
  shows "(THE p. at_level h s (fst p) \<and> snd p = digit s (fst p)) = (i, digit s i)"
proof (rule the_equality)
  show "at_level h s (fst (i, digit s i)) \<and> snd (i, digit s i) = digit s (fst (i, digit s i))"
    using assms by simp
next
  fix p
  assume p: "at_level h s (fst p) \<and> snd p = digit s (fst p)"
  then have "fst p = i" using at_level_unique assms by blast
  then show "p = (i, digit s i)" using p by (simp add: prod_eq_iff)
qed

text \<open>
  The loop, from wheel \<open>idx\<close> on: it ends at the level of the sum, or runs past the last
  wheel, with the digits of the sum in \<open>new_hands\<close>.
\<close>

lemma find_loop_level:
  assumes "length nh = kWheelCount" "idx \<le> kWheelCount"
    and "\<forall>k<idx. nh ! k = digit s k" "\<forall>k. idx \<le> k \<and> k < kWheelCount \<longrightarrow> nh ! k = digit h k"
    and "h div wheel_base idx + r = s div wheel_base idx" "0 < idx \<longrightarrow> r \<noteq> 0"
  shows "find_loop (digits h) idx r nh =
           (if h div wheel_base kWheelCount = s div wheel_base kWheelCount
            then (Some (THE p. at_level h s (fst p) \<and> snd p = digit s (fst p)), digits s)
            else (None, digits s))"
  using assms
proof (induction "kWheelCount - idx" arbitrary: idx r nh)
  case 0
  then have i: "idx = kWheelCount" by simp
  then have "0 < r" using "0.prems"(6) by (simp add: kWheelCount_def)
  then have "h div wheel_base kWheelCount \<noteq> s div wheel_base kWheelCount"
    using "0.prems"(5) i by simp
  moreover have "nh = digits s"
    using "0.prems"(1,3) i by (intro nth_equalityI) simp_all
  ultimately show ?case using i by (simp add: find_loop.simps)
next
  case (Suc n)
  let ?c = "kWheelSlotCount ! idx"
  let ?q = "h div wheel_base idx"
  let ?k = "?c \<le> r mod ?c + ?q mod ?c"
  have i: "idx < kWheelCount" using Suc.hyps(2) by simp
  then have c: "0 < ?c" by simp
  have up: "h div wheel_base (Suc idx) + (r div ?c + (if ?k then 1 else 0)) = s div wheel_base (Suc idx)"
    using add_div_mod_carry(1) [OF c, of ?q r] Suc.prems(5)
    by (simp add: div_mult2_eq)
  have dg: "digit s idx = (if ?k then r mod ?c + ?q mod ?c - ?c else r mod ?c + ?q mod ?c)"
    using add_div_mod_carry(2) [OF c, of ?q r] Suc.prems(5) by (simp add: digit_def)
  have step: "find_loop (digits h) idx r nh =
      (let r' = r div ?c + (if ?k then 1 else 0) in
       if r' = 0 then (Some (idx, digit s idx), nh[idx := digit s idx])
       else find_loop (digits h) (Suc idx) r' (nh[idx := digit s idx]))"
    unfolding find_loop.simps [of "digits h" idx r nh] dg
    using i by (simp add: slot_mask [unfolded One_nat_def] slot_shift digit_def Let_def)
  show ?case
  proof (cases "r div ?c + (if ?k then 1 else 0) = 0")
    case True
    have eq: "h div wheel_base (Suc idx) = s div wheel_base (Suc idx)" using up True by simp
    have lvl: "at_level h s idx"
      using i eq Suc.prems(5,6) unfolding at_level_def by auto
    have pos: "(THE p. at_level h s (fst p) \<and> snd p = digit s (fst p)) = (idx, digit s idx)"
      by (rule the_position [OF lvl])
    have same: "digit h k = digit s k" if "idx < k" for k
      using div_wheel_base_mono [OF eq, of k] that by (simp add: digit_def)
    have "nh[idx := digit s idx] = digits s"
    proof (rule nth_equalityI)
      show "length (nh[idx := digit s idx]) = length (digits s)" using Suc.prems(1) by simp
    next
      fix k
      assume "k < length (nh[idx := digit s idx])"
      then have k: "k < kWheelCount" using Suc.prems(1) by simp
      show "nh[idx := digit s idx] ! k = digits s ! k"
      proof (cases k idx rule: linorder_cases)
        case less
        then show ?thesis using Suc.prems(3) k by simp
      next
        case equal
        then show ?thesis using Suc.prems(1) k by simp
      next
        case greater
        then have "nh ! k = digit h k" using Suc.prems(4) k by simp
        then show ?thesis using greater same [OF greater] k by simp
      qed
    qed
    moreover have "h div wheel_base kWheelCount = s div wheel_base kWheelCount"
      using div_wheel_base_mono [OF eq, of kWheelCount] i by simp
    moreover have "find_loop (digits h) idx r nh = (Some (idx, digit s idx), nh[idx := digit s idx])"
      unfolding step Let_def True by simp
    ultimately show ?thesis by (simp only: pos if_True simp_thms)
  next
    case False
    have "find_loop (digits h) idx r nh =
        find_loop (digits h) (Suc idx) (r div ?c + (if ?k then 1 else 0)) (nh[idx := digit s idx])"
      unfolding step Let_def by (simp only: False if_False)
    also have "\<dots> = (if h div wheel_base kWheelCount = s div wheel_base kWheelCount
            then (Some (THE p. at_level h s (fst p) \<and> snd p = digit s (fst p)), digits s)
            else (None, digits s))"
    proof (rule Suc.hyps(1))
      show "n = kWheelCount - Suc idx" using Suc.hyps(2) by simp
      show "length (nh[idx := digit s idx]) = kWheelCount" using Suc.prems(1) by simp
      show "Suc idx \<le> kWheelCount" using i by simp
      show "\<forall>k<Suc idx. nh[idx := digit s idx] ! k = digit s k"
        using Suc.prems(1,3) i by (auto simp: nth_list_update less_Suc_eq)
      show "\<forall>k. Suc idx \<le> k \<and> k < kWheelCount \<longrightarrow> nh[idx := digit s idx] ! k = digit h k"
        using Suc.prems(4) by auto
      show "0 < Suc idx \<longrightarrow> r div ?c + (if ?k then 1 else 0) \<noteq> 0" using False by simp
    qed (rule up)
    finally show ?thesis .
  qed
qed

lemma at_level_exists:
  assumes "h < 2 ^ 31" "s < 2 ^ 31"
  obtains i where "at_level h s i"
proof -
  have "h div wheel_base kWheelCount = s div wheel_base kWheelCount"
    using assms by (simp add: wheel_base_top)
  moreover have "\<exists>i. at_level h s i" if "h div wheel_base (Suc k) = s div wheel_base (Suc k)" "k < kWheelCount" for k
    using that
  proof (induction k)
    case 0
    then show ?case unfolding at_level_def by blast
  next
    case (Suc k)
    show ?case
    proof (cases "h div wheel_base (Suc k) = s div wheel_base (Suc k)")
      case True
      then show ?thesis using Suc.IH Suc.prems(2) by simp
    next
      case False
      then show ?thesis using Suc.prems unfolding at_level_def by blast
    qed
  qed
  ultimately show ?thesis using that kWheelCount_Suc by (metis lessI)
qed

lemma find_loop_at:
  assumes "at_level h (h + d) i"
  shows "find_loop (digits h) 0 d (digits h) = (Some (i, digit (h + d) i), digits (h + d))"
proof -
  have e: "h div wheel_base kWheelCount = (h + d) div wheel_base kWheelCount"
    using assms div_wheel_base_mono [of h "Suc i" "h + d" kWheelCount] by (simp add: at_level_def)
  have "(THE p. at_level h (h + d) (fst p) \<and> snd p = digit (h + d) (fst p)) = (i, digit (h + d) i)"
    by (rule the_position [OF assms])
  then show ?thesis
    using find_loop_level [of "digits h" 0 "h + d" h d] e by simp
qed

lemma find_loop_overflow:
  assumes "h < 2 ^ 31" "2 ^ 31 \<le> h + d"
  shows "find_loop (digits h) 0 d (digits h) = (None, digits (h + d))"
proof -
  have "h div wheel_base kWheelCount = 0" using assms(1) by (simp add: wheel_base_top)
  moreover have "(h + d) div wheel_base kWheelCount \<noteq> 0"
    using assms(2) by (simp add: wheel_base_top)
  ultimately show ?thesis
    using find_loop_level [of "digits h" 0 "h + d" h d] by simp
qed

lemma wheel_digit_split: "s div wheel_base i = s div wheel_base (Suc i) * kWheelSlotCount ! i + digit s i"
  unfolding div_wheel_base_Suc digit_def by (rule div_mult_mod_eq [symmetric])

lemma less_by_div: "a div b < c div b \<Longrightarrow> a < (c::nat)"
  using div_le_mono [of c a b] by linarith

text \<open>
  Where a timer that expires at reading \<open>s\<close> lies when the clock goes from \<open>h\<close> to \<open>h'\<close>: a slot
  that is passed holds a timer that is due, and one that is not reached stays right.
\<close>

lemma passed_slot:
  assumes "h \<le> h'" "at_level h h' l" "on_slot h s i j" "i < l \<or> i = l \<and> j < digit h' l"
  shows "s < h'"
proof (cases "i < l")
  case True
  then have "s div wheel_base l = h div wheel_base l"
    using assms(3) div_wheel_base_mono [of h "Suc i" s l] by (simp add: on_slot_def at_level_def)
  moreover have "h div wheel_base l < h' div wheel_base l"
    using assms(1,2) True div_le_mono [OF assms(1), of "wheel_base l"]
    by (auto simp: at_level_def)
  ultimately have "s div wheel_base l < h' div wheel_base l" by simp
  then show ?thesis by (rule less_by_div)
next
  case False
  then have i: "i = l" "digit s l < digit h' l" using assms(3,4) by (auto simp: on_slot_def)
  have "s div wheel_base (Suc l) = h' div wheel_base (Suc l)"
    using assms(2,3) i(1) by (simp only: on_slot_def at_level_def)
  then have "s div wheel_base l < h' div wheel_base l"
    using i(2) wheel_digit_split [of s l] wheel_digit_split [of h' l] by simp
  then show ?thesis by (rule less_by_div)
qed

lemma kept_slot:
  assumes "h \<le> h'" "h \<le> s" "at_level h h' l" "on_slot h s i j" "l < i \<or> i = l \<and> digit h' l < j"
  shows "h' < s \<and> on_slot h' s i j"
proof (cases "l < i")
  case True
  have up: "h' div wheel_base k = h div wheel_base k" if "l < k" for k
    using assms(3) that div_wheel_base_mono [of h "Suc l" h' k] by (simp add: at_level_def)
  have "h div wheel_base i \<noteq> s div wheel_base i"
    using assms(4) True by (auto simp: on_slot_def at_level_def)
  then have "h' div wheel_base i < s div wheel_base i"
    using div_le_mono [OF assms(2), of "wheel_base i"] up [OF True] by simp
  then have "h' < s" by (rule less_by_div)
  moreover have "on_slot h' s i j"
    using assms(4) up [OF True] up [of "Suc i"] True unfolding on_slot_def at_level_def by simp
  ultimately show ?thesis by blast
next
  case False
  then have i: "i = l" "digit h' l < digit s l" using assms(4,5) by (auto simp: on_slot_def)
  have e: "s div wheel_base (Suc l) = h' div wheel_base (Suc l)"
    using assms(3,4) i(1) by (simp only: on_slot_def at_level_def)
  then have lt: "h' div wheel_base l < s div wheel_base l"
    using i(2) wheel_digit_split [of s l] wheel_digit_split [of h' l] by simp
  moreover have "on_slot h' s i j"
    using assms(4) lt e i(1) unfolding on_slot_def at_level_def by simp
  ultimately show ?thesis using less_by_div by blast
qed

lemma level_digit_le:
  assumes "h \<le> s" "at_level h s l"
  shows "digit h l \<le> digit s l"
proof -
  have "h div wheel_base l \<le> s div wheel_base l" using assms(1) by (rule div_le_mono)
  then show ?thesis
    using assms(2) wheel_digit_split [of s l] wheel_digit_split [of h l] by (simp add: at_level_def)
qed

end
