(* ===== verification/Timer_Service.thy ===== *)
theory Timer_Service
  imports Fx_Prelude "HOL-Library.Multiset"
begin

text \<open>
  What a client may expect of a timer component, as an interface. The agenda is the abstract
  state: the time of the last tick, the last id given out, and for each pending id its
  expiry time and callback. A tick hands out the callbacks that are due, in any order. The
  lemma of the interface says that a provider of the laws runs any sequence of operations
  as the agenda does, as long as the provider's time range is not used up.
\<close>

type_synonym 'c agenda = "nat \<times> nat \<times> (nat \<rightharpoonup> nat \<times> 'c)"

datatype 'c timer_op = Set_after nat 'c | Cancel nat | Tick nat

definition is_due :: "(nat \<rightharpoonup> nat \<times> 'c) \<Rightarrow> nat \<Rightarrow> nat \<Rightarrow> bool" where
  "is_due m now k = (case m k of None \<Rightarrow> False | Some (e, f) \<Rightarrow> e \<le> now)"

definition due_callbacks :: "nat \<Rightarrow> (nat \<rightharpoonup> nat \<times> 'c) \<Rightarrow> nat \<Rightarrow> 'c multiset" where
  "due_callbacks n m now = mset (map (\<lambda>k. snd (the (m k))) (filter (is_due m now) [0 ..< Suc n]))"

definition not_due :: "(nat \<rightharpoonup> nat \<times> 'c) \<Rightarrow> nat \<Rightarrow> (nat \<rightharpoonup> nat \<times> 'c)" where
  "not_due m now = (\<lambda>k. if is_due m now k then None else m k)"

text \<open>One multiset of callbacks for each tick of the sequence.\<close>

fun agenda_run :: "'c timer_op list \<Rightarrow> 'c agenda \<Rightarrow> 'c multiset list \<times> 'c agenda" where
  "agenda_run [] s = ([], s)"
| "agenda_run (Set_after d f # ops) (now, n, m) =
     agenda_run ops (now, n + 1, m(n + 1 \<mapsto> (now + d, f)))"
| "agenda_run (Cancel i # ops) (now, n, m) = agenda_run ops (now, n, m(i := None))"
| "agenda_run (Tick t # ops) (now, n, m) =
     (let (outs, s) = agenda_run ops (t, n, not_due m t) in (due_callbacks n m t # outs, s))"

text \<open>
  The sequences the provider must serve: \<open>left\<close> milliseconds of its time range remain, time
  does not go back, only pending timers are cancelled, and no 64-bit sum wraps.
\<close>

fun agenda_fits :: "nat \<Rightarrow> 'c timer_op list \<Rightarrow> 'c agenda \<Rightarrow> bool" where
  "agenda_fits left [] s = True"
| "agenda_fits left (Set_after d f # ops) (now, n, m) =
     (d < left \<and> now + d < 2 ^ 64 \<and> n + 1 < 2 ^ 64 \<and>
      agenda_fits left ops (now, n + 1, m(n + 1 \<mapsto> (now + d, f))))"
| "agenda_fits left (Cancel i # ops) (now, n, m) =
     (m i \<noteq> None \<and> agenda_fits left ops (now, n, m(i := None)))"
| "agenda_fits left (Tick t # ops) (now, n, m) =
     (now \<le> t \<and> t - now < left \<and> agenda_fits (left - (t - now)) ops (t, n, not_due m t))"

text \<open>The same sequence on a provider's state.\<close>

fun timer_run ::
  "('w \<Rightarrow> int \<Rightarrow> 'c \<Rightarrow> (nat \<times> 'w) result) \<Rightarrow> ('w \<Rightarrow> nat \<Rightarrow> 'w result) \<Rightarrow>
   ('w \<Rightarrow> nat \<Rightarrow> ('c list \<times> 'w) result) \<Rightarrow> 'c timer_op list \<Rightarrow> 'w \<Rightarrow> ('c multiset list \<times> 'w) result" where
  "timer_run set_after cancel tick [] w = Inr ([], w)"
| "timer_run set_after cancel tick (Set_after d f # ops) w =
     andthen (set_after w (int d) f) (\<lambda>(_, w'). timer_run set_after cancel tick ops w')"
| "timer_run set_after cancel tick (Cancel i # ops) w =
     andthen (cancel w i) (timer_run set_after cancel tick ops)"
| "timer_run set_after cancel tick (Tick t # ops) w =
     andthen (tick w t) (\<lambda>(fs, w').
       andthen (timer_run set_after cancel tick ops w') (\<lambda>(outs, w''). Inr (mset fs # outs, w'')))"

locale timer_service =
  fixes ok :: "'w \<Rightarrow> bool"
    and left :: "'w \<Rightarrow> nat"
    and view :: "'w \<Rightarrow> 'c agenda"
    and set_after :: "'w \<Rightarrow> int \<Rightarrow> 'c \<Rightarrow> (nat \<times> 'w) result"
    and cancel :: "'w \<Rightarrow> nat \<Rightarrow> 'w result"
    and tick :: "'w \<Rightarrow> nat \<Rightarrow> ('c list \<times> 'w) result"
  assumes set_law: "ok w \<Longrightarrow> view w = (now, n, m) \<Longrightarrow> d < left w \<Longrightarrow> now + d < 2 ^ 64 \<Longrightarrow> n + 1 < 2 ^ 64 \<Longrightarrow>
      \<exists>w'. set_after w (int d) f = Inr (n + 1, w') \<and> ok w' \<and> left w' = left w \<and>
           view w' = (now, n + 1, m(n + 1 \<mapsto> (now + d, f)))"
    and cancel_law: "ok w \<Longrightarrow> view w = (now, n, m) \<Longrightarrow> m i \<noteq> None \<Longrightarrow>
      \<exists>w'. cancel w i = Inr w' \<and> ok w' \<and> left w' = left w \<and> view w' = (now, n, m(i := None))"
    and tick_law: "ok w \<Longrightarrow> view w = (now, n, m) \<Longrightarrow> now \<le> t \<Longrightarrow> t - now < left w \<Longrightarrow>
      \<exists>fs w'. tick w t = Inr (fs, w') \<and> ok w' \<and> left w' = left w - (t - now) \<and>
           mset fs = due_callbacks n m t \<and> view w' = (t, n, not_due m t)"
begin

lemma run_refines:
  assumes "ok w" "agenda_fits (left w) ops (view w)"
  shows "\<exists>w'. timer_run set_after cancel tick ops w = Inr (fst (agenda_run ops (view w)), w') \<and>
           ok w' \<and> view w' = snd (agenda_run ops (view w))"
  using assms
proof (induction ops arbitrary: w)
  case Nil
  then show ?case by simp
next
  case (Cons oper ops)
  obtain now n m where v: "view w = (now, n, m)" by (metis prod_cases3)
  note fits = Cons.prems(2) [unfolded v]
  show ?case
  proof (cases oper)
    case (Set_after d f)
    with set_law [OF Cons.prems(1) v, of d f] fits obtain w1 where
      w1: "set_after w (int d) f = Inr (n + 1, w1)" "ok w1" "left w1 = left w"
      "view w1 = (now, n + 1, m(n + 1 \<mapsto> (now + d, f)))" by auto
    then show ?thesis using Cons.IH [OF w1(2)] fits Set_after v by simp
  next
    case (Cancel i)
    with cancel_law [OF Cons.prems(1) v, of i] fits obtain w1 where
      w1: "cancel w i = Inr w1" "ok w1" "left w1 = left w" "view w1 = (now, n, m(i := None))"
      by auto
    then show ?thesis using Cons.IH [OF w1(2)] fits Cancel v by simp
  next
    case (Tick t)
    with tick_law [OF Cons.prems(1) v, of t] fits obtain fs w1 where
      w1: "tick w t = Inr (fs, w1)" "ok w1" "left w1 = left w - (t - now)"
      "mset fs = due_callbacks n m t" "view w1 = (t, n, not_due m t)" by auto
    then show ?thesis using Cons.IH [OF w1(2)] fits Tick v by (auto simp: case_prod_unfold Let_def)
  qed
qed

end

end
