(* ===== verification/Timer_Wheel_Laws.thy ===== *)
theory Timer_Wheel_Laws
  imports Timer_Wheel Timer_Service
begin

text \<open>
  The invariant of the timer wheel and what its operations do. The invariant says that every
  pending timer is linked exactly once, in the slot its expiry time has on the clock, and
  that the queue holds the expiry times of the pending timers. Every operation keeps it; the
  wheel is then an instance of the interface \<open>timer_service\<close>. The last properties state what
  happens when the clock wraps, when time goes back, and when \<open>Start\<close> moves the time with
  timers already set.
\<close>

section \<open>The invariant\<close>

definition expires :: "'c wheel \<Rightarrow> nat \<Rightarrow> nat" where
  "expires w k = expire_time (the (timers w k))"

text \<open>The reading of the clock at which timer \<open>k\<close> is due.\<close>

definition reading :: "'c wheel \<Rightarrow> nat \<Rightarrow> nat" where
  "reading w k = clock (hands w) + (expires w k - last_expire_time w)"

definition slots_hold :: "nat list list list \<Rightarrow> (nat \<Rightarrow> nat \<Rightarrow> nat set) \<Rightarrow> bool" where
  "slots_hold ws A \<longleftrightarrow>
     length ws = kWheelCount \<and>
     (\<forall>i<kWheelCount. length (ws ! i) = kWheelSlotCount ! i \<and>
        (\<forall>j<kWheelSlotCount ! i. distinct (ws ! i ! j) \<and> set (ws ! i ! j) = A i j))"

definition wheel_ok :: "'c wheel \<Rightarrow> bool" where
  "wheel_ok w \<longleftrightarrow>
     hands_idx w < 2 \<and> length (hands_copy w) = 2 \<and> hands_ok (hands w) \<and>
     finite (dom (timers w)) \<and>
     (\<forall>k t. timers w k = Some t \<longrightarrow>
        timer_id t = k \<and> k \<le> last_timer_id w \<and> last_expire_time w \<le> expire_time t \<and>
        reading w k < 2 ^ 31) \<and>
     slots_hold (wheels w) (\<lambda>i j. {k \<in> dom (timers w). on_slot (clock (hands w)) (reading w k) i j}) \<and>
     sorted (expire_time_queue w) \<and>
     mset (expire_time_queue w) = image_mset (expires w) (mset_set (dom (timers w)))"

lemma FindPos_at:
  assumes "hands w = digits h" "0 \<le> d" "on_slot h (h + nat d) i j"
  shows "FindPos w d u = Inr ((i, j), False, set_other_hands u (digits (h + nat d)) w)"
proof -
  have lvl: "at_level h (h + nat d) i" and j: "digit (h + nat d) i = j"
    using assms(3) by (simp_all add: on_slot_def)
  have "i < kWheelCount" using lvl by (simp add: at_level_def)
  then show ?thesis
    unfolding FindPos_def assms(1) find_loop_at [OF lvl] using assms(2) j by auto
qed

lemma on_slot_exists:
  assumes "h < 2 ^ 31" "s < 2 ^ 31"
  obtains i j where "on_slot h s i j"
  using at_level_exists [OF assms] unfolding on_slot_def by blast

lemma on_slot_unique: "on_slot h s i j \<Longrightarrow> on_slot h s i' j' \<Longrightarrow> i = i' \<and> j = j'"
  using at_level_unique unfolding on_slot_def by blast

lemma on_slot_range: "on_slot h s i j \<Longrightarrow> i < kWheelCount \<and> j < kWheelSlotCount ! i"
  by (auto simp: on_slot_def at_level_def)

lemma wheel_ok_hands: "wheel_ok w \<Longrightarrow> hands w = digits (clock (hands w))"
  by (simp add: wheel_ok_def digits_clock(1))

lemma wheel_ok_clock: "wheel_ok w \<Longrightarrow> clock (hands w) < 2 ^ 31"
  unfolding wheel_ok_def using digits_clock(2) by blast

lemma set_other_hands_False [simp]: "set_other_hands False nh w = w"
  by (simp add: set_other_hands_def)

lemma slots_hold_get:
  "slots_hold ws A \<Longrightarrow> i < kWheelCount \<Longrightarrow> j < kWheelSlotCount ! i \<Longrightarrow>
    slot_get ws i j = Inr (ws ! i ! j)"
  by (simp add: slots_hold_def slot_get_def)

lemma slots_hold_set:
  assumes "slots_hold ws A" "i < kWheelCount" "j < kWheelSlotCount ! i" "distinct ids"
    and "\<And>i' j'. i' < kWheelCount \<Longrightarrow> j' < kWheelSlotCount ! i' \<Longrightarrow>
           B i' j' = (if i' = i \<and> j' = j then set ids else A i' j')"
  shows "slots_hold (slot_set ws i j ids) B"
  using assms(1-4) assms(5)
  by (auto simp: slots_hold_def slot_set_def nth_list_update)

lemma slots_hold_push:
  assumes "slots_hold ws A" "i < kWheelCount" "j < kWheelSlotCount ! i" "t \<notin> A i j"
  shows "push_slot ws (i, j) t = Inr (slot_set ws i j (ws ! i ! j @ [t]))"
    "slots_hold (slot_set ws i j (ws ! i ! j @ [t])) (A(i := (A i)(j := insert t (A i j))))"
proof -
  show "push_slot ws (i, j) t = Inr (slot_set ws i j (ws ! i ! j @ [t]))"
    using assms by (simp add: push_slot_def slots_hold_get)
  show "slots_hold (slot_set ws i j (ws ! i ! j @ [t])) (A(i := (A i)(j := insert t (A i j))))"
    using assms by (intro slots_hold_set [OF assms(1-3)]) (auto simp: slots_hold_def)
qed

lemma slots_hold_unlink:
  "slots_hold ws A \<Longrightarrow> slots_hold (unlink ws t) (\<lambda>i j. A i j - {t})"
  by (auto simp: slots_hold_def unlink_def distinct_removeAll)

lemma slots_hold_cong:
  "slots_hold ws A \<Longrightarrow> (\<And>i j. i < kWheelCount \<Longrightarrow> j < kWheelSlotCount ! i \<Longrightarrow> A i j = B i j) \<Longrightarrow>
    slots_hold ws B"
  by (simp add: slots_hold_def)

lemma clock_zero [simp]: "clock (replicate kWheelCount 0) = 0"
  by (simp add: clock_def)

lemma init_wheel_ok: "wheel_ok (TimerWheel_init now)"
proof -
  have "slots_hold (wheels (TimerWheel_init now :: 'a wheel)) (\<lambda>i j. {})"
    by (auto simp: slots_hold_def TimerWheel_init_def wheel_cases kWheelSlotCount_def)
      (simp add: kWheelCount_def)
  then show ?thesis
    by (simp add: wheel_ok_def TimerWheel_init_def hands_def hands_ok_def numeral_eq_Suc [of "num.Bit0 num.One"])
qed

lemma RunAfter_ok:
  fixes w :: "'c wheel" and f :: 'c
  assumes "wheel_ok w" "0 \<le> d" "clock (hands w) + nat d < 2 ^ 31"
    and "last_expire_time w + nat d < 2 ^ 64" "last_timer_id w + 1 < 2 ^ 64"
  defines "t \<equiv> \<lparr>timer_id = last_timer_id w + 1, expire_time = last_expire_time w + nat d, cb = f\<rparr>"
  obtains w' where "TimerWheel_RunAfter w d f = Inr (last_timer_id w + 1, w')" "wheel_ok w'"
    "timers w' = (timers w)(last_timer_id w + 1 \<mapsto> t)" "last_timer_id w' = last_timer_id w + 1"
    "last_expire_time w' = last_expire_time w" "clock (hands w') = clock (hands w)"
proof -
  let ?h = "clock (hands w)" and ?n = "last_timer_id w + 1"
  let ?A = "\<lambda>i j. {k \<in> dom (timers w). on_slot ?h (reading w k) i j}"
  note ok = assms(1) [unfolded wheel_ok_def]
  have A: "slots_hold (wheels w) ?A" using ok by blast
  have new: "timers w ?n = None"
  proof (cases "timers w ?n")
    case (Some x)
    then have "?n \<le> last_timer_id w" using ok by blast
    then show ?thesis by simp
  qed simp
  obtain i j where ij: "on_slot ?h (?h + nat d) i j"
    using on_slot_exists [OF wheel_ok_clock [OF assms(1)] assms(3)] by blast
  have find: "FindPos w d False = Inr ((i, j), False, w)"
    using FindPos_at [OF wheel_ok_hands [OF assms(1)] assms(2) ij, of False] by simp
  have r: "i < kWheelCount" "j < kWheelSlotCount ! i" using on_slot_range [OF ij] by simp_all
  have notin: "?n \<notin> ?A i j" using new by auto
  let ?ws = "slot_set (wheels w) i j (wheels w ! i ! j @ [?n])"
  define w' where "w' = w\<lparr>last_timer_id := ?n, wheels := ?ws, timers := (timers w)(?n \<mapsto> t),
      expire_time_queue := insort (last_expire_time w + nat d) (expire_time_queue w)\<rparr>"
  have run: "TimerWheel_RunAfter w d f = Inr (?n, w')"
    using slots_hold_push(1) [OF A r notin] find new assms(4,5)
    by (simp add: TimerWheel_RunAfter_def Let_def t_def w'_def add.commute)
  have fields: "hands w' = hands w" "hands_idx w' = hands_idx w" "hands_copy w' = hands_copy w"
    "last_timer_id w' = ?n" "last_expire_time w' = last_expire_time w" "wheels w' = ?ws"
    "timers w' = (timers w)(?n \<mapsto> t)"
    "expire_time_queue w' = insort (last_expire_time w + nat d) (expire_time_queue w)"
    by (simp_all add: w'_def hands_def)
  have old: "expires w' k = expires w k" "reading w' k = reading w k"
    if "timers w k = Some x" for k x
    using that new by (auto simp: expires_def reading_def fields)
  have this_one: "expires w' ?n = last_expire_time w + nat d" "reading w' ?n = ?h + nat d"
    by (simp_all add: expires_def reading_def t_def fields)
  have slots: "slots_hold ?ws (\<lambda>i j. {k \<in> dom (timers w'). on_slot ?h (reading w' k) i j})"
  proof (rule slots_hold_cong [OF slots_hold_push(2) [OF A r notin]])
    fix i' j'
    show "(?A(i := (?A i)(j := insert ?n (?A i j)))) i' j' =
        {k \<in> dom (timers w'). on_slot ?h (reading w' k) i' j'}"
    proof (cases "i' = i \<and> j' = j")
      case True
      have "k \<in> insert ?n (?A i j) \<longleftrightarrow> k \<in> dom (timers w') \<and> on_slot ?h (reading w' k) i j" for k
        using ij this_one(2) old(2) [of k] new by (cases "k = ?n") (auto simp: fields)
      then show ?thesis using True by auto
    next
      case False
      then have n: "\<not> on_slot ?h (?h + nat d) i' j'" using on_slot_unique ij by blast
      have "k \<in> ?A i' j' \<longleftrightarrow> k \<in> dom (timers w') \<and> on_slot ?h (reading w' k) i' j'" for k
        using n this_one(2) old(2) [of k] new by (cases "k = ?n") (auto simp: fields)
      then show ?thesis using False by auto
    qed
  qed
  have "mset (expire_time_queue w') = image_mset (expires w') (mset_set (dom (timers w')))"
  proof -
    have "mset_set (dom (timers w')) = add_mset ?n (mset_set (dom (timers w)))"
      using ok new by (simp add: domIff fields)
    moreover have "image_mset (expires w') (mset_set (dom (timers w))) =
        image_mset (expires w) (mset_set (dom (timers w)))"
      using ok old(1) by (intro image_mset_cong) auto
    ultimately show ?thesis using ok this_one(1) by (simp add: fields)
  qed
  moreover have "timer_id x = k \<and> k \<le> last_timer_id w' \<and> last_expire_time w' \<le> expire_time x \<and>
      reading w' k < 2 ^ 31" if "timers w' k = Some x" for k x
  proof (cases "k = ?n")
    case True
    then show ?thesis using that this_one assms(3) by (auto simp: t_def fields)
  next
    case False
    then have k: "timers w k = Some x" using that by (simp add: fields)
    then have "timer_id x = k \<and> k \<le> last_timer_id w \<and> last_expire_time w \<le> expire_time x \<and> reading w k < 2 ^ 31"
      using ok by blast
    moreover have "reading w' k = reading w k" using old(2) k by blast
    ultimately show ?thesis by (simp add: fields)
  qed
  moreover have "hands_idx w' < 2" "length (hands_copy w') = 2" "hands_ok (hands w')"
    "sorted (expire_time_queue w')" "finite (dom (timers w'))"
    using ok by (simp_all add: fields sorted_insort)
  moreover have "slots_hold (wheels w') (\<lambda>i j. {k \<in> dom (timers w'). on_slot (clock (hands w')) (reading w' k) i j})"
    using slots by (simp only: fields(1,6))
  ultimately have "wheel_ok w'" unfolding wheel_ok_def by blast
  moreover have "clock (hands w') = clock (hands w)" by (simp only: fields)
  ultimately show ?thesis using that [OF run] fields by blast
qed

lemma RemoveTimer_ok:
  fixes w :: "'c wheel"
  assumes "wheel_ok w" "timers w i = Some t"
  obtains w' where "TimerWheel_RemoveTimer w i = Inr w'" "wheel_ok w'"
    "timers w' = (timers w)(i := None)" "last_timer_id w' = last_timer_id w"
    "last_expire_time w' = last_expire_time w" "hands w' = hands w"
proof -
  note ok = assms(1) [unfolded wheel_ok_def]
  let ?w' = "w\<lparr>wheels := unlink (wheels w) i, timers := (timers w)(i := None),
                 expire_time_queue := remove1 (expire_time t) (expire_time_queue w)\<rparr>"
  have run: "TimerWheel_RemoveTimer w i = Inr ?w'"
    using assms(2) by (simp add: TimerWheel_RemoveTimer_def)
  have hands: "hands ?w' = hands w" by (simp add: hands_def)
  have old: "expires ?w' k = expires w k" "reading ?w' k = reading w k" if "k \<noteq> i" for k
    using that by (auto simp: expires_def reading_def hands_def)
  have slots: "slots_hold (unlink (wheels w) i)
      (\<lambda>a b. {k \<in> dom (timers ?w'). on_slot (clock (hands w)) (reading ?w' k) a b})"
  proof (rule slots_hold_cong [OF slots_hold_unlink])
    show "slots_hold (wheels w) (\<lambda>i j. {k \<in> dom (timers w). on_slot (clock (hands w)) (reading w k) i j})"
      using ok by blast
  next
    fix a b
    show "{k \<in> dom (timers w). on_slot (clock (hands w)) (reading w k) a b} - {i} =
        {k \<in> dom (timers ?w'). on_slot (clock (hands w)) (reading ?w' k) a b}"
      using old(2) by auto
  qed
  have "mset (remove1 (expire_time t) (expire_time_queue w)) =
      image_mset (expires ?w') (mset_set (dom (timers ?w')))"
  proof -
    have "mset_set (dom (timers w)) = add_mset i (mset_set (dom (timers w) - {i}))"
      using ok assms(2) by (intro mset_set.remove) auto
    then have "mset (expire_time_queue w) =
        add_mset (expire_time t) (image_mset (expires w) (mset_set (dom (timers w) - {i})))"
      using ok assms(2) by (simp add: expires_def)
    moreover have "image_mset (expires w) (mset_set (dom (timers w) - {i})) =
        image_mset (expires ?w') (mset_set (dom (timers w) - {i}))"
      using ok old(1) by (intro image_mset_cong) simp
    moreover have "dom (timers ?w') = dom (timers w) - {i}" by auto
    ultimately show ?thesis by simp
  qed
  moreover have "timer_id x = k \<and> k \<le> last_timer_id ?w' \<and> last_expire_time ?w' \<le> expire_time x \<and>
      reading ?w' k < 2 ^ 31" if "timers ?w' k = Some x" for k x
  proof -
    have "k \<noteq> i" "timers w k = Some x" using that by (auto split: if_splits)
    then show ?thesis using ok old(2) by auto
  qed
  ultimately have "wheel_ok ?w'"
    using ok slots hands unfolding wheel_ok_def by (simp add: sorted_remove1)
  then show ?thesis using that run hands by simp
qed

section \<open>The parts of a step\<close>

lemma distinct_concat_nth:
  assumes "\<And>a. a < length xss \<Longrightarrow> distinct (xss ! a)"
    and "\<And>a b. a < b \<Longrightarrow> b < length xss \<Longrightarrow> set (xss ! a) \<inter> set (xss ! b) = {}"
  shows "distinct (concat xss)"
  using assms
proof (induction xss)
  case (Cons xs xss)
  have "distinct (concat xss)"
  proof (rule Cons.IH)
    show "distinct (xss ! a)" if "a < length xss" for a using Cons.prems(1) [of "Suc a"] that by simp
    show "set (xss ! a) \<inter> set (xss ! b) = {}" if "a < b" "b < length xss" for a b
      using Cons.prems(2) [of "Suc a" "Suc b"] that by simp
  qed
  moreover have "set xs \<inter> set ys = {}" if "ys \<in> set xss" for ys
  proof -
    obtain b where b: "b < length xss" "xss ! b = ys" using \<open>ys \<in> set xss\<close> unfolding in_set_conv_nth by blast
    have "set ((xs # xss) ! 0) \<inter> set ((xs # xss) ! Suc b) = {}"
      by (rule Cons.prems(2)) (use b(1) in simp_all)
    then show ?thesis using b(2) by simp
  qed
  ultimately show ?case using Cons.prems(1) [of 0] by auto
qed simp

lemma concat_concat: "concat (concat xsss) = concat (map concat xsss)"
  by (induction xsss) simp_all

lemma set_concat_nth: "set (concat xss) = (\<Union>a<length xss. set (xss ! a))"
  by (fastforce simp: in_set_conv_nth)

lemma split_due_total:
  assumes "set ids \<subseteq> dom tm"
  shows "split_due tm now ids =
      Inr (filter (\<lambda>k. expire_time (the (tm k)) \<le> now) ids,
           filter (\<lambda>k. \<not> expire_time (the (tm k)) \<le> now) ids)"
  using assms by (induction ids) auto

lemma collect_callbacks_total:
  "set ids \<subseteq> dom tm \<Longrightarrow> collect_callbacks tm ids = Inr (map (\<lambda>k. cb (the (tm k))) ids)"
  by (induction ids) auto

lemma destroy_timers_total:
  "set ids \<subseteq> dom tm \<Longrightarrow> distinct ids \<Longrightarrow> destroy_timers tm ids = Inr (tm |` (- set ids))"
proof (induction ids arbitrary: tm)
  case (Cons i ids)
  then have "destroy_timers (tm(i := None)) ids = Inr ((tm(i := None)) |` (- set ids))"
    by (intro Cons.IH) auto
  moreover have "(tm(i := None)) |` (- set ids) = tm |` (- set (i # ids))"
    by (auto simp: restrict_map_def fun_eq_iff)
  ultimately show ?case using Cons.prems by auto
qed (simp add: restrict_map_def)

text \<open>
  What \<open>Step\<close> takes out of the wheels when every slot \<open>(i, j)\<close> holds the timers \<open>A i j\<close>, the
  sets being disjoint and the timers due being exactly those of the slots passed and some of
  those in the slot reached.
\<close>

lemma collect_due_total:
  fixes w :: "'c wheel" and due :: "nat set"
  assumes "slots_hold (wheels w) A" "l < kWheelCount" "p < kWheelSlotCount ! l" "hs ! l \<le> p"
    and sub: "\<And>i j. A i j \<subseteq> dom (timers w)"
    and disj: "\<And>i j i' j' k. k \<in> A i j \<Longrightarrow> k \<in> A i' j' \<Longrightarrow> i = i' \<and> j = j'"
    and due: "due = {k. \<exists>i<kWheelCount. \<exists>j<kWheelSlotCount ! i. k \<in> A i j \<and> expires w k \<le> now}"
    and passed: "\<And>i j k. k \<in> A i j \<Longrightarrow> i < l \<or> i = l \<and> j < p \<Longrightarrow> expires w k \<le> now"
    and kept: "\<And>i j k. k \<in> A i j \<Longrightarrow> l < i \<or> i = l \<and> p < j \<Longrightarrow> now < expires w k"
    and low: "\<And>j. A l j \<noteq> {} \<Longrightarrow> hs ! l \<le> j"
  obtains ids ws where "collect_due w hs now (l, p) False = Inr (ids, ws)"
    "distinct ids" "set ids = due" "slots_hold ws (\<lambda>i j. A i j - due)"
proof -
  define l1 where "l1 = concat (concat (take l (wheels w)))"
  define ws1 where "ws1 = map (map (\<lambda>_. [])) (take l (wheels w)) @ drop l (wheels w)"
  define l2 where "l2 = concat (map (\<lambda>j. ws1 ! l ! j) [hs ! l ..< p])"
  define ws2 where
    "ws2 = ws1[l := map (\<lambda>j. if hs ! l \<le> j \<and> j < p then [] else ws1 ! l ! j) [0 ..< length (ws1 ! l)]]"
  have len: "length (wheels w) = kWheelCount" using assms(1) by (simp add: slots_hold_def)
  have lenj: "length (wheels w ! i) = kWheelSlotCount ! i" if "i < kWheelCount" for i
    using assms(1) that by (simp add: slots_hold_def)
  have slot: "distinct (wheels w ! i ! j)" "set (wheels w ! i ! j) = A i j"
    if "i < kWheelCount" "j < kWheelSlotCount ! i" for i j
    using assms(1) that by (simp_all add: slots_hold_def)
  have ws1: "ws1 ! i = (if i < l then map (\<lambda>_. []) (wheels w ! i) else wheels w ! i)"
    if "i < kWheelCount" for i
    using that len assms(2) by (simp add: ws1_def nth_append min_def)
  have lws1: "length ws1 = kWheelCount" using len assms(2) by (simp add: ws1_def)
  have lw: "ws1 ! l = wheels w ! l" using ws1 [OF assms(2)] by simp
  have ws2: "ws2 ! i ! j = (if i < l \<or> i = l \<and> hs ! l \<le> j \<and> j < p then [] else wheels w ! i ! j)"
    "length (ws2 ! i) = kWheelSlotCount ! i"
    if "i < kWheelCount" "j < kWheelSlotCount ! i" for i j
    using that ws1 [OF that(1)] lws1 lenj [OF that(1)]
    by (cases "i = l"; simp add: ws2_def lw)+
  have lws2: "length ws2 = kWheelCount" using lws1 by (simp add: ws2_def)
  let ?due = "filter (\<lambda>k. expire_time (the (timers w k)) \<le> now) (wheels w ! l ! p)"
  let ?keep = "filter (\<lambda>k. \<not> expire_time (the (timers w k)) \<le> now) (wheels w ! l ! p)"
  have "slot_get ws2 l p = Inr (wheels w ! l ! p)"
    using ws2 [OF assms(2,3)] lws2 assms(2,3) by (simp add: slot_get_def)
  moreover have "split_due (timers w) now (wheels w ! l ! p) = Inr (?due, ?keep)"
    using slot(2) [OF assms(2,3)] sub by (intro split_due_total) auto
  ultimately have run: "collect_due w hs now (l, p) False =
      Inr (l1 @ l2 @ ?due, slot_set ws2 l p ?keep)"
    using assms(4)
    unfolding collect_due_def splice_wheels_def Let_def if_False fst_conv snd_conv prod.case
      l1_def [symmetric] ws1_def [symmetric] splice_slots_def l2_def [symmetric] ws2_def [symmetric]
    by simp
  have l1: "distinct l1" "set l1 = (\<Union>i<l. \<Union>j<kWheelSlotCount ! i. A i j)"
  proof -
    have c: "l1 = concat (map concat (take l (wheels w)))" by (simp add: l1_def concat_concat)
    have s: "set (concat (wheels w ! i)) = (\<Union>j<kWheelSlotCount ! i. A i j)" if "i < kWheelCount" for i
      unfolding set_concat_nth using slot(2) [OF that] lenj [OF that] by simp
    have dc: "distinct (concat (wheels w ! i))" if "i < kWheelCount" for i
      using slot [OF that] lenj [OF that] disj by (intro distinct_concat_nth) (auto, blast)
    show "distinct l1"
      unfolding c
    proof (rule distinct_concat_nth)
      show "distinct (map concat (take l (wheels w)) ! a)"
        if "a < length (map concat (take l (wheels w)))" for a
        using that dc assms(2) len by simp
    next
      fix a b
      assume ab: "a < b" "b < length (map concat (take l (wheels w)))"
      then have "set (map concat (take l (wheels w)) ! i) = (\<Union>j<kWheelSlotCount ! i. A i j)"
        if "i \<le> b" for i using s [of i] that assms(2) len by simp
      from this [of a] this [of b]
      show "set (map concat (take l (wheels w)) ! a) \<inter> set (map concat (take l (wheels w)) ! b) = {}"
        using disj [of _ a _ b] ab(1) by (simp only: less_imp_le) blast
    qed
    show "set l1 = (\<Union>i<l. \<Union>j<kWheelSlotCount ! i. A i j)"
      unfolding c set_concat_nth using s len assms(2) by simp
  qed
  have l2: "distinct l2" "set l2 = (\<Union>j\<in>{hs ! l ..< p}. A l j)"
  proof -
    have s: "set (ws1 ! l ! j) = A l j" "distinct (ws1 ! l ! j)" if "j < p" for j
      using slot [OF assms(2), of j] that assms(3) lw by simp_all
    show "distinct l2"
      unfolding l2_def
    proof (rule distinct_concat_nth)
      show "distinct (map ((!) (ws1 ! l)) [hs ! l ..< p] ! a)"
        if "a < length (map ((!) (ws1 ! l)) [hs ! l ..< p])" for a
        using that s(2) by simp
    next
      fix a b
      assume ab: "a < b" "b < length (map ((!) (ws1 ! l)) [hs ! l ..< p])"
      then have "A l (hs ! l + a) \<inter> A l (hs ! l + b) = {}"
        using disj [of _ l "hs ! l + a" l "hs ! l + b"] by auto
      then show "set (map ((!) (ws1 ! l)) [hs ! l ..< p] ! a) \<inter>
          set (map ((!) (ws1 ! l)) [hs ! l ..< p] ! b) = {}"
        using ab s(1) [of "hs ! l + a"] s(1) [of "hs ! l + b"] by simp
    qed
    show "set l2 = (\<Union>j\<in>{hs ! l ..< p}. A l j)"
      unfolding l2_def using s by auto
  qed
  have d: "set ?due = {k \<in> A l p. expires w k \<le> now}" "distinct ?due"
    "set ?keep = {k \<in> A l p. \<not> expires w k \<le> now}" "distinct ?keep"
    using slot [OF assms(2,3)] by (auto simp: expires_def)
  have "distinct (l1 @ l2 @ ?due)"
  proof -
    have "k \<notin> A l j'" if k1: "k \<in> set l1" for k j'
    proof -
      obtain i j where k: "i < l" "k \<in> A i j" using k1 unfolding l1(2) by blast
      show ?thesis using disj [OF k(2), of l j'] k(1) by blast
    qed
    moreover have "k \<notin> A l p" if k1: "k \<in> set l2" for k
    proof -
      obtain j where k: "j < p" "k \<in> A l j" using k1 unfolding l2(2) by auto
      show ?thesis using disj [OF k(2), of l p] k(1) by blast
    qed
    ultimately have "set l1 \<inter> (set l2 \<union> set ?due) = {}" "set l2 \<inter> set ?due = {}"
      unfolding l2(2) d(1) by blast+
    then show ?thesis using l1(1) l2(1) d(2) by (simp only: distinct_append set_append)
  qed
  moreover have "set (l1 @ l2 @ ?due) = due"
  proof
    show "set (l1 @ l2 @ ?due) \<subseteq> due"
    proof
      fix k
      assume "k \<in> set (l1 @ l2 @ ?due)"
      then consider i j where "i < l" "j < kWheelSlotCount ! i" "k \<in> A i j"
        | j where "j < p" "k \<in> A l j" | "k \<in> A l p" "expires w k \<le> now"
        unfolding set_append l1(2) l2(2) d(1) by auto
      then show "k \<in> due"
      proof cases
        case 1
        then show ?thesis unfolding due using passed [OF 1(3)] assms(2) less_trans by blast
      next
        case 2
        then show ?thesis unfolding due using passed [OF 2(2)] assms(2,3) less_trans by blast
      next
        case 3
        then show ?thesis unfolding due using assms(2,3) by blast
      qed
    qed
    show "due \<subseteq> set (l1 @ l2 @ ?due)"
    proof
      fix k
      assume "k \<in> due"
      then obtain i j where k: "i < kWheelCount" "j < kWheelSlotCount ! i" "k \<in> A i j" "expires w k \<le> now"
        unfolding due by blast
      then consider "i < l" | "i = l" "j < p" | "i = l" "j = p"
        using kept [of k i j] by (meson linorder_neqE_nat not_le)
      then show "k \<in> set (l1 @ l2 @ ?due)"
        unfolding set_append l1(2) l2(2) d(1)
      proof cases
        case 1
        then show "k \<in> (\<Union>i<l. \<Union>j<kWheelSlotCount ! i. A i j) \<union>
            ((\<Union>j\<in>{hs ! l ..< p}. A l j) \<union> {k \<in> A l p. expires w k \<le> now})"
          using k by blast
      next
        case 2
        then have "j \<in> {hs ! l ..< p}" using k(3) low [of j] by auto
        then show "k \<in> (\<Union>i<l. \<Union>j<kWheelSlotCount ! i. A i j) \<union>
            ((\<Union>j\<in>{hs ! l ..< p}. A l j) \<union> {k \<in> A l p. expires w k \<le> now})"
          using k 2 by blast
      next
        case 3
        then show "k \<in> (\<Union>i<l. \<Union>j<kWheelSlotCount ! i. A i j) \<union>
            ((\<Union>j\<in>{hs ! l ..< p}. A l j) \<union> {k \<in> A l p. expires w k \<le> now})"
          using k by blast
      qed
    qed
  qed
  moreover have "slots_hold (slot_set ws2 l p ?keep) (\<lambda>i j. A i j - due)"
  proof (rule slots_hold_set [OF _ assms(2,3) d(4)])
    show "slots_hold ws2 (\<lambda>i j. if i < l \<or> i = l \<and> hs ! l \<le> j \<and> j < p then {} else A i j)"
      unfolding slots_hold_def
      using lws2 ws2(1) ws2(2) [OF _ slot_count_pos] slot by simp
  next
    fix i j
    assume ij: "i < kWheelCount" "j < kWheelSlotCount ! i"
    show "A i j - due = (if i = l \<and> j = p then set ?keep
        else if i < l \<or> i = l \<and> hs ! l \<le> j \<and> j < p then {} else A i j)"
    proof -
      have due_iff: "k \<in> A i j \<Longrightarrow> k \<in> due \<longleftrightarrow> expires w k \<le> now" for k
        unfolding due using ij disj by blast
      show ?thesis
      proof (cases "i = l \<and> j = p")
        case True
        then show ?thesis using due_iff unfolding d(3) by auto
      next
        case False
        show ?thesis
        proof (cases "i < l \<or> i = l \<and> j < p")
          case True
          then have "A i j \<subseteq> due" using due_iff passed [OF _ True] by blast
          moreover have "hs ! l \<le> j" if "i = l" "A i j \<noteq> {}" using low that by blast
          ultimately show ?thesis using True False by auto
        next
          case later: False
          then have "A i j \<inter> due = {}" using False due_iff kept [of _ i j] by fastforce
          then show ?thesis using later False by auto
        qed
      qed
    qed
  qed
  ultimately show ?thesis using that run by blast
qed

lemma slots_hold_linked:
  assumes "slots_hold ws A" "i < kWheelCount" "j < kWheelSlotCount ! i" "k \<in> A i j"
  shows "is_linked ws k"
proof -
  have "k \<in> set (ws ! i ! j)" "ws ! i ! j \<in> set (ws ! i)" "ws ! i \<in> set ws"
    using assms by (auto simp: slots_hold_def)
  then show ?thesis unfolding is_linked_def by auto
qed

lemma dropWhile_sorted: "sorted xs \<Longrightarrow> dropWhile (\<lambda>t. t \<le> n) xs = filter (\<lambda>t. n < t) (xs :: nat list)"
proof (induction xs)
  case (Cons a xs)
  show ?case
  proof (cases "a \<le> n")
    case True
    then show ?thesis using Cons by simp
  next
    case False
    then have "filter (\<lambda>t. n < t) xs = xs" using Cons.prems by (intro filter_True) auto
    then show ?thesis using False by simp
  qed
qed simp

lemma adjust_timers_total:
  fixes w :: "'c wheel"
  assumes "hands w = digits h" "h < 2 ^ 31" "distinct ids" "set ids \<subseteq> dom (timers w)"
    and "\<And>k. k \<in> set ids \<Longrightarrow> now < expires w k \<and> h + (expires w k - now) < 2 ^ 31"
    and "\<And>k. k \<in> set ids \<Longrightarrow> \<exists>i<kWheelCount. \<exists>j<kWheelSlotCount ! i. P k i j"
    and "\<And>k i j. k \<in> set ids \<Longrightarrow> Q k i j \<longleftrightarrow> on_slot h (h + (expires w k - now)) i j"
    and "slots_hold (wheels w)
           (\<lambda>i j. {k \<in> dom (timers w). if k \<in> set ids then P k i j else Q k i j})"
  shows "\<exists>ws. adjust_timers w now ids = Inr (w\<lparr>wheels := ws\<rparr>) \<and>
           slots_hold ws (\<lambda>i j. {k \<in> dom (timers w). Q k i j})"
  using assms
proof (induction ids arbitrary: w)
  case Nil
  then show ?case by (intro exI [of _ "wheels w"]) simp
next
  case (Cons k ids)
  obtain t where t: "timers w k = Some t" using Cons.prems(4) by auto
  have e: "expire_time t = expires w k" using t by (simp add: expires_def)
  have late: "now < expires w k" "h + (expires w k - now) < 2 ^ 31"
    using Cons.prems(5) [OF list.set_intros(1)] by blast+
  let ?d = "to_int32 (int (expire_time t) - int now)"
  have d: "?d = int (expires w k - now)"
    using late unfolding e by (subst to_int32_exact) auto
  obtain i j where ij: "on_slot h (h + (expires w k - now)) i j"
    using on_slot_exists [OF Cons.prems(2) late(2)] by blast
  note r = on_slot_range [OF ij, THEN conjunct1] on_slot_range [OF ij, THEN conjunct2]
  have find: "FindPos w ?d False = Inr ((i, j), False, w)"
    using FindPos_at [OF Cons.prems(1), of ?d i j False] ij by (simp add: d)
  let ?A = "\<lambda>i j. {k' \<in> dom (timers w). if k' \<in> set (k # ids) then P k' i j else Q k' i j} - {k}"
  have un: "slots_hold (unlink (wheels w) k) ?A" by (rule slots_hold_unlink [OF Cons.prems(8)])
  have notin: "k \<notin> ?A i j" by simp
  let ?ws = "slot_set (unlink (wheels w) k) i j (unlink (wheels w) k ! i ! j @ [k])"
  define w' where "w' = w\<lparr>wheels := ?ws\<rparr>"
  have w': "wheels w' = ?ws" "timers w' = timers w" "hands w' = hands w"
    by (simp_all add: w'_def hands_def)
  have ex: "expires w' = expires w" by (simp add: expires_def w' fun_eq_iff)
  have linked: "is_linked (wheels w) k"
  proof -
    obtain a b where ab: "a < kWheelCount" "b < kWheelSlotCount ! a" "P k a b"
      using Cons.prems(6) [of k] by auto
    show ?thesis by (rule slots_hold_linked [OF Cons.prems(8) ab(1,2)]) (use t ab(3) in auto)
  qed
  have step: "adjust_timers w now (k # ids) = adjust_timers w' now ids"
    using t linked late(1) find slots_hold_push(1) [OF un r notin] by (simp add: e w'_def)
  have "\<exists>ws. adjust_timers w' now ids = Inr (w'\<lparr>wheels := ws\<rparr>) \<and>
           slots_hold ws (\<lambda>i j. {k \<in> dom (timers w'). Q k i j})"
  proof (rule Cons.IH)
    show "hands w' = digits h" using Cons.prems(1) by (simp add: w')
    show "distinct ids" "set ids \<subseteq> dom (timers w')"
      using Cons.prems(3,4) by (simp_all add: w')
    show "now < expires w' k' \<and> h + (expires w' k' - now) < 2 ^ 31"
      if "k' \<in> set ids" for k'
      using Cons.prems(5) [OF list.set_intros(2) [OF that]] by (simp only: ex)
    show "\<exists>i<kWheelCount. \<exists>j<kWheelSlotCount ! i. P k' i j" if "k' \<in> set ids" for k'
      using Cons.prems(6) [of k'] that by simp
    show "Q k' i j \<longleftrightarrow> on_slot h (h + (expires w' k' - now)) i j"
      if "k' \<in> set ids" for k' i j
      using Cons.prems(7) [OF list.set_intros(2) [OF that]] by (simp only: ex)
    have q: "Q k i' j' \<longleftrightarrow> i' = i \<and> j' = j" for i' j'
      using Cons.prems(7) [OF list.set_intros(1), of i' j'] ij on_slot_unique [OF ij] by blast
    show "slots_hold (wheels w')
        (\<lambda>i j. {k \<in> dom (timers w'). if k \<in> set ids then P k i j else Q k i j})"
      unfolding w'
    proof (rule slots_hold_cong [OF slots_hold_push(2) [OF un r notin]])
      fix i' j'
      have "k \<notin> set ids" using Cons.prems(3) by simp
      then have "k' \<in> (?A(i := (?A i)(j := insert k (?A i j)))) i' j' \<longleftrightarrow>
          k' \<in> dom (timers w) \<and> (if k' \<in> set ids then P k' i' j' else Q k' i' j')" for k'
        using q t by (cases "k' = k"; cases "i' = i \<and> j' = j") auto
      then show "(?A(i := (?A i)(j := insert k (?A i j)))) i' j' =
          {k \<in> dom (timers w). if k \<in> set ids then P k i' j' else Q k i' j'}"
        by blast
    qed
  qed (rule Cons.prems(2))
  then show ?case unfolding step by (simp add: w'_def)
qed

text \<open>The wheels, hands and queue after a step; nothing else changes but the timers.\<close>

lemma Step_ok:
  fixes w :: "'c wheel"
  assumes "wheel_ok w" "last_expire_time w \<le> now"
    and "clock (hands w) + (now - last_expire_time w) < 2 ^ 31"
  defines "due \<equiv> {k \<in> dom (timers w). expires w k \<le> now}"
  obtains w' ids where
    "TimerWheel_Step w now = Inr (map (\<lambda>k. cb (the (timers w k))) ids, w')"
    "distinct ids" "set ids = due" "wheel_ok w'" "timers w' = timers w |` (- due)"
    "last_expire_time w' = now" "last_timer_id w' = last_timer_id w"
    "clock (hands w') = clock (hands w) + (now - last_expire_time w)"
proof -
  note ok = assms(1) [unfolded wheel_ok_def]
  define h where "h = clock (hands w)"
  define h' where "h' = h + (now - last_expire_time w)"
  have h: "hands w = digits h" "h < 2 ^ 31" "h \<le> h'" "h' < 2 ^ 31"
    using wheel_ok_hands [OF assms(1)] wheel_ok_clock [OF assms(1)] assms(3)
    by (simp_all add: h_def h'_def)
  have alive: "timer_id t = k" "k \<le> last_timer_id w" "last_expire_time w \<le> expire_time t"
      "reading w k < 2 ^ 31" if "timers w k = Some t" for k t
    using ok that by blast+
  define A where "A = (\<lambda>i j. {k \<in> dom (timers w). on_slot h (reading w k) i j})"
  have A: "slots_hold (wheels w) A" using ok by (simp only: A_def h_def)
  obtain l p where lp: "on_slot h h' l p" using on_slot_exists [OF h(2,4)] by blast
  then have lvl: "at_level h h' l" and p: "digit h' l = p" by (simp_all add: on_slot_def)
  note r = on_slot_range [OF lp, THEN conjunct1] on_slot_range [OF lp, THEN conjunct2]
  define interval where "interval = (if last_expire_time w < now
      then to_int32 (int now - int (last_expire_time w)) else 0)"
  have "interval = int (now - last_expire_time w)"
    using assms(2,3) unfolding interval_def by auto
  then have iv: "0 \<le> interval" "h + nat interval = h'" by (simp_all add: h'_def)
  define w1 where "w1 = set_other_hands True (digits h') w"
  have find: "FindPos w interval True = Inr ((l, p), False, w1)"
    using FindPos_at [OF h(1) iv(1), of l p True] lp iv(2) by (simp add: w1_def)
  have w1: "wheels w1 = wheels w" "timers w1 = timers w" "last_timer_id w1 = last_timer_id w"
      "last_expire_time w1 = last_expire_time w" "expire_time_queue w1 = expire_time_queue w"
      "hands (SwitchHands w1) = digits h'" "hands_idx (SwitchHands w1) < 2"
      "length (hands_copy (SwitchHands w1)) = 2"
    using ok by (auto simp: w1_def set_other_hands_def SwitchHands_def hands_def)
  have due_reading: "expires w k \<le> now \<longleftrightarrow> reading w k \<le> h'" "h \<le> reading w k"
    if "timers w k = Some t" for k t
    using alive(3) [OF that] assms(2) that
    by (auto simp: reading_def h_def h'_def expires_def)
  have place: "\<exists>i<kWheelCount. \<exists>j<kWheelSlotCount ! i. k \<in> A i j" if "timers w k = Some t" for k t
    using on_slot_exists [OF h(2) alive(4) [OF that]] that on_slot_range
    unfolding A_def by (metis (mono_tags, lifting) domI mem_Collect_eq)
  have ew: "expires w1 k = expires w k" for k by (simp add: expires_def w1)
  have inA: "k \<in> A i j \<Longrightarrow> \<exists>t. timers w k = Some t \<and> on_slot h (reading w k) i j" for k i j
    by (auto simp: A_def)
  have passed: "expires w k \<le> now" if "k \<in> A i j" "i < l \<or> i = l \<and> j < p" for i j k
    using inA [OF that(1)] passed_slot [OF h(3) lvl, of "reading w k" i j] that(2) p due_reading(1) [of k]
    by (auto simp: less_imp_le)
  have kept: "now < expires w k \<and> on_slot h' (reading w k) i j"
    if "k \<in> A i j" "l < i \<or> i = l \<and> p < j" for i j k
    using inA [OF that(1)] kept_slot [OF h(3) due_reading(2) lvl, of k _ i j] that(2) p due_reading(1) [of k]
    by (auto simp: not_le [symmetric])
  obtain ids ws where coll: "collect_due w1 (hands w) now (l, p) False = Inr (ids, ws)"
    "distinct ids" "set ids = due" "slots_hold ws (\<lambda>i j. A i j - due)"
  proof (rule collect_due_total)
    show "slots_hold (wheels w1) A" using A by (simp add: w1)
    show "hands w ! l \<le> p" using level_digit_le [OF h(3) lvl] r(1) p h(1) by simp
    show "A i j \<subseteq> dom (timers w1)" for i j by (auto simp: A_def w1)
    show "i = i' \<and> j = j'" if "k \<in> A i j" "k \<in> A i' j'" for i j i' j' k
      using that on_slot_unique unfolding A_def by blast
    show "due = {k. \<exists>i<kWheelCount. \<exists>j<kWheelSlotCount ! i. k \<in> A i j \<and> expires w1 k \<le> now}"
      unfolding due_def ew using place inA by blast
    show "expires w1 k \<le> now" if "k \<in> A i j" "i < l \<or> i = l \<and> j < p" for i j k
      unfolding ew using passed that by blast
    show "now < expires w1 k" if "k \<in> A i j" "l < i \<or> i = l \<and> p < j" for i j k
      unfolding ew using kept that by blast
    show "hands w ! l \<le> j" if ne: "A l j \<noteq> {}" for j
    proof -
      obtain k where k: "k \<in> A l j" using ne by blast
      then obtain t where "timers w k = Some t" "on_slot h (reading w k) l j" using inA by blast
      then show ?thesis
        using level_digit_le [OF due_reading(2), of k t l] h(1) r(1) by (simp add: on_slot_def)
    qed
  qed (use r that in blast)+
  define w2 where "w2 = (SwitchHands w1)\<lparr>wheels := ws,
    expire_time_queue := dropWhile (\<lambda>t. t \<le> now) (expire_time_queue w1)\<rparr>"
  have w2: "timers w2 = timers w" "wheels w2 = ws" by (simp_all add: w2_def SwitchHands_def w1)
  have sub: "set ids \<subseteq> dom (timers w2)" unfolding coll(3) w2 due_def by blast
  define adj where "adj = ws ! l ! p"
  have adj: "set adj = A l p - due" "distinct adj"
    using coll(4) r by (simp_all add: adj_def slots_hold_def)
  have get: "slot_get (wheels w2) l p = Inr adj"
    unfolding w2 adj_def by (rule slots_hold_get [OF coll(4) r])
  define w3 where "w3 = w2\<lparr>timers := timers w |` (- due)\<rparr>"
  have w3: "timers w3 = timers w |` (- due)" "wheels w3 = ws" "hands w3 = digits h'"
      "hands_idx w3 < 2" "length (hands_copy w3) = 2" "last_timer_id w3 = last_timer_id w"
      "expire_time_queue w3 = dropWhile (\<lambda>t. t \<le> now) (expire_time_queue w)"
    using w1 by (simp_all add: w3_def w2_def hands_def SwitchHands_def)
  have later: "k \<in> dom (timers w3) \<longleftrightarrow> k \<in> dom (timers w) \<and> now < expires w k"
      "k \<in> dom (timers w3) \<Longrightarrow> expires w3 k = expires w k" for k
    by (auto simp: w3 due_def restrict_map_def expires_def split: if_splits)
  have r3: "h' + (expires w3 k - now) = reading w k" if "k \<in> dom (timers w3)" for k
    using that later [of k] assms(2) by (auto simp: reading_def h_def h'_def)
  have "\<exists>ws'. adjust_timers w3 now adj = Inr (w3\<lparr>wheels := ws'\<rparr>) \<and>
     slots_hold ws' (\<lambda>i j. {k \<in> dom (timers w3). on_slot h' (h' + (expires w3 k - now)) i j})"
  proof (rule adjust_timers_total [where P = "\<lambda>k i j. i = l \<and> j = p", OF w3(3) h(4) adj(2)])
    have mem: "k \<in> dom (timers w3)" if "k \<in> set adj" for k
      using that inA [of k] unfolding adj(1) later(1) due_def by (auto simp: not_le)
    then show "set adj \<subseteq> dom (timers w3)" by blast
    show "now < expires w3 k \<and> h' + (expires w3 k - now) < 2 ^ 31" if "k \<in> set adj" for k
    proof -
      note m = mem [OF that]
      obtain t where "timers w k = Some t" using m later(1) by blast
      then show ?thesis using alive(4) [of k t] m later [of k] r3 [OF m] by simp
    qed
    show "\<exists>i<kWheelCount. \<exists>j<kWheelSlotCount ! i. i = l \<and> j = p" using r by blast
    show "slots_hold (wheels w3) (\<lambda>i j. {k \<in> dom (timers w3). if k \<in> set adj then i = l \<and> j = p
        else on_slot h' (h' + (expires w3 k - now)) i j})"
      unfolding w3(2)
    proof (rule slots_hold_cong [OF coll(4)])
      fix i j
      have "k \<in> A i j - due \<longleftrightarrow> k \<in> dom (timers w3) \<and> (if k \<in> set adj then i = l \<and> j = p
          else on_slot h' (h' + (expires w3 k - now)) i j)" for k
      proof (cases "k \<in> dom (timers w3)")
        case True
        then obtain t where t: "timers w k = Some t" and late: "now < expires w k" using later(1) by blast
        have nd: "k \<notin> due" using late by (simp add: due_def)
        obtain i0 j0 where k0: "k \<in> A i0 j0" using place [OF t] by blast
        then have at: "k \<in> A i j \<longleftrightarrow> i = i0 \<and> j = j0" for i j
          using on_slot_unique unfolding A_def by blast
        show ?thesis
        proof (cases "i0 = l \<and> j0 = p")
          case c: True
          then have "k \<in> set adj" using k0 nd by (simp add: adj(1))
          then show ?thesis using c at nd True by simp
        next
          case c: False
          then have "k \<notin> set adj" using at [of l p] by (auto simp: adj(1))
          moreover have "on_slot h' (reading w k) i0 j0"
          proof -
            have "\<not> (i0 < l \<or> i0 = l \<and> j0 < p)" using passed [OF k0] late by (auto simp only: not_le [symmetric])
            then have "l < i0 \<or> i0 = l \<and> p < j0" using c by (auto simp: not_less)
            then show ?thesis using kept [OF k0] by blast
          qed
          ultimately show ?thesis using at nd True r3 [OF True] on_slot_unique by auto
        qed
      next
        case False
        then show ?thesis using later(1) [of k] inA [of k i j] by (auto simp: due_def not_less)
      qed
      then show "A i j - due = {k \<in> dom (timers w3). if k \<in> set adj then i = l \<and> j = p
          else on_slot h' (h' + (expires w3 k - now)) i j}"
        by blast
    qed
  qed simp
  then obtain ws' where ws': "adjust_timers w3 now adj = Inr (w3\<lparr>wheels := ws'\<rparr>)"
    "slots_hold ws' (\<lambda>i j. {k \<in> dom (timers w3). on_slot h' (h' + (expires w3 k - now)) i j})"
    by blast
  define w4 where "w4 = w3\<lparr>wheels := ws', last_expire_time := now\<rparr>"
  have w4: "timers w4 = timers w |` (- due)" "wheels w4 = ws'" "hands w4 = digits h'"
      "hands_idx w4 < 2" "length (hands_copy w4) = 2" "last_timer_id w4 = last_timer_id w"
      "last_expire_time w4 = now" "expire_time_queue w4 = dropWhile (\<lambda>t. t \<le> now) (expire_time_queue w)"
    using w3 by (simp_all add: w4_def hands_def)
  have run: "TimerWheel_Step w now = Inr (map (\<lambda>k. cb (the (timers w k))) ids, w4)"
  proof -
    have "collect_callbacks (timers w) ids = Inr (map (\<lambda>k. cb (the (timers w k))) ids)"
      using collect_callbacks_total [OF sub] by (simp add: w2)
    moreover have "destroy_timers (timers w) ids = Inr (timers w |` (- due))"
      using destroy_timers_total [OF sub coll(2)] by (simp add: w2 coll(3))
    moreover have "timers (SwitchHands w1) = timers w" by (simp add: SwitchHands_def w1)
    moreover have "slot_get ws l p = Inr adj" using get by (simp add: w2)
    ultimately show ?thesis
      unfolding TimerWheel_Step_def interval_def [symmetric]
      by (simp add: find coll(1) Let_def w2_def [symmetric] get w3_def [symmetric] ws'(1) w4_def)
  qed
  have e4: "expires w4 k = expires w k" "reading w4 k = reading w k" "now < expires w k"
    if "k \<in> dom (timers w4)" for k
  proof -
    have "k \<in> dom (timers w3)" using that by (simp only: w3 w4)
    moreover have "expires w4 k = expires w3 k" by (simp add: expires_def w3 w4)
    ultimately show "expires w4 k = expires w k" "reading w4 k = reading w k" "now < expires w k"
      using later [of k] r3 [of k] clock_digits [OF h(4)] by (simp_all add: reading_def w4)
  qed
  have "slots_hold (wheels w4) (\<lambda>i j. {k \<in> dom (timers w4). on_slot (clock (hands w4)) (reading w4 k) i j})"
  proof (rule slots_hold_cong [OF ws'(2), folded w4(2)])
    fix i j
    have d: "dom (timers w3) = dom (timers w4)" by (simp only: w3 w4)
    show "{k \<in> dom (timers w3). on_slot h' (h' + (expires w3 k - now)) i j} =
        {k \<in> dom (timers w4). on_slot (clock (hands w4)) (reading w4 k) i j}"
    proof (rule Collect_cong)
      show "k \<in> dom (timers w3) \<and> on_slot h' (h' + (expires w3 k - now)) i j \<longleftrightarrow>
          k \<in> dom (timers w4) \<and> on_slot (clock (hands w4)) (reading w4 k) i j" for k
        using r3 [of k] e4(2) [of k] clock_digits [OF h(4)] unfolding d w4(3)
        by (cases "k \<in> dom (timers w4)") (simp_all only: simp_thms)
    qed
  qed
  moreover have "mset (expire_time_queue w4) = image_mset (expires w4) (mset_set (dom (timers w4)))"
  proof -
    have "mset (expire_time_queue w4) = filter_mset (\<lambda>t. now < t) (mset (expire_time_queue w))"
      using ok by (simp add: w4 dropWhile_sorted)
    also have "\<dots> = image_mset (expires w) (filter_mset (\<lambda>k. now < expires w k) (mset_set (dom (timers w))))"
      using ok by (simp add: filter_mset_image_mset)
    also have "filter_mset (\<lambda>k. now < expires w k) (mset_set (dom (timers w))) = mset_set (dom (timers w4))"
      using ok by (auto simp: w4 due_def not_le intro!: arg_cong [where f = mset_set])
    finally show ?thesis
      using ok e4(1) by (simp add: w4) (intro image_mset_cong, simp)
  qed
  moreover have "timer_id t = k \<and> k \<le> last_timer_id w4 \<and> last_expire_time w4 \<le> expire_time t \<and>
      reading w4 k < 2 ^ 31" if t4: "timers w4 k = Some t" for k t
  proof -
    have t: "timers w k = Some t" using t4 by (auto simp: w4 restrict_map_def split: if_splits)
    have k: "k \<in> dom (timers w4)" using t4 by blast
    have "now < expire_time t" using e4(3) [OF k] t by (simp add: expires_def)
    then show ?thesis using alive [OF t] e4(2) [OF k] w4(6,7) by simp
  qed
  moreover have "sorted (expire_time_queue w4)" "finite (dom (timers w4))" "hands_ok (hands w4)"
    using ok by (simp_all add: w4 sorted_dropWhile)
  ultimately have "wheel_ok w4" using w4(4,5) unfolding wheel_ok_def by blast
  then show ?thesis
    using that run coll(2,3) w4 clock_digits [OF h(4)] by (simp add: h'_def h_def)
qed

section \<open>The timer service\<close>

definition clock_left :: "'c wheel \<Rightarrow> nat" where
  "clock_left w = 2 ^ 31 - clock (hands w)"

definition wheel_agenda :: "'c wheel \<Rightarrow> 'c agenda" where
  "wheel_agenda w =
     (last_expire_time w, last_timer_id w,
      map_option (\<lambda>t. (expire_time t, cb t)) \<circ> timers w)"

lemma is_due_wheel:
  "is_due (map_option (\<lambda>t. (expire_time t, cb t)) \<circ> timers w) now k \<longleftrightarrow>
    k \<in> dom (timers w) \<and> expires w k \<le> now"
  by (cases "timers w k") (auto simp: is_due_def expires_def)

interpretation wheel_service: timer_service wheel_ok clock_left wheel_agenda
  TimerWheel_RunAfter TimerWheel_RemoveTimer TimerWheel_Step
proof unfold_locales
  fix w :: "'c wheel" and now n m d and f :: 'c
  assume w: "wheel_ok w" "wheel_agenda w = (now, n, m)" "d < clock_left w" "now + d < 2 ^ 64" "n + 1 < 2 ^ 64"
  note v = w(2) [unfolded wheel_agenda_def, simplified]
  have a: "0 \<le> int d" "clock (hands w) + nat (int d) < 2 ^ 31" "last_expire_time w + nat (int d) < 2 ^ 64"
      "last_timer_id w + 1 < 2 ^ 64"
    using w(3-) v by (simp_all add: clock_left_def)
  obtain w' where w': "TimerWheel_RunAfter w (int d) f = Inr (last_timer_id w + 1, w')" "wheel_ok w'"
      "timers w' = (timers w)(last_timer_id w + 1 \<mapsto>
         \<lparr>timer_id = last_timer_id w + 1, expire_time = last_expire_time w + nat (int d), cb = f\<rparr>)"
      "last_timer_id w' = last_timer_id w + 1"
      "last_expire_time w' = last_expire_time w" "clock (hands w') = clock (hands w)"
    using RunAfter_ok [OF w(1) a] by blast
  have "wheel_agenda w' = (now, n + 1, m(n + 1 \<mapsto> (now + d, f)))"
    using w' v by (auto simp: wheel_agenda_def fun_eq_iff)
  then show "\<exists>w'. TimerWheel_RunAfter w (int d) f = Inr (n + 1, w') \<and> wheel_ok w' \<and>
      clock_left w' = clock_left w \<and> wheel_agenda w' = (now, n + 1, m(n + 1 \<mapsto> (now + d, f)))"
    using w' v by (simp add: clock_left_def)
next
  fix w :: "'c wheel" and now n m i
  assume w: "wheel_ok w" "wheel_agenda w = (now, n, m)" "m i \<noteq> None"
  note v = w(2) [unfolded wheel_agenda_def, simplified]
  obtain t where "timers w i = Some t" using w(3) v by auto
  then obtain w' where w': "TimerWheel_RemoveTimer w i = Inr w'" "wheel_ok w'"
    "timers w' = (timers w)(i := None)" "last_timer_id w' = last_timer_id w"
    "last_expire_time w' = last_expire_time w" "hands w' = hands w"
    using RemoveTimer_ok [OF w(1)] by blast
  moreover have "wheel_agenda w' = (now, n, m(i := None))"
    using w' v by (auto simp: wheel_agenda_def fun_eq_iff)
  ultimately show "\<exists>w'. TimerWheel_RemoveTimer w i = Inr w' \<and> wheel_ok w' \<and>
      clock_left w' = clock_left w \<and> wheel_agenda w' = (now, n, m(i := None))"
    by (simp add: clock_left_def)
next
  fix w :: "'c wheel" and now n m t
  assume w: "wheel_ok w" "wheel_agenda w = (now, n, m)" "now \<le> t" "t - now < clock_left w"
  note v = w(2) [unfolded wheel_agenda_def, simplified]
  have a: "last_expire_time w \<le> t" "clock (hands w) + (t - last_expire_time w) < 2 ^ 31"
    using w(3,4) v by (simp_all add: clock_left_def)
  let ?due = "{k \<in> dom (timers w). expires w k \<le> t}"
  obtain w' ids where
    w': "TimerWheel_Step w t = Inr (map (\<lambda>k. cb (the (timers w k))) ids, w')"
    "distinct ids" "set ids = ?due" "wheel_ok w'" "timers w' = timers w |` (- ?due)"
    "last_expire_time w' = t" "last_timer_id w' = last_timer_id w"
    "clock (hands w') = clock (hands w) + (t - last_expire_time w)"
    by (rule Step_ok [OF w(1) a])
  have due: "is_due m t k \<longleftrightarrow> k \<in> ?due" for k
    using is_due_wheel [of w t k] v by auto
  have "mset (map (\<lambda>k. cb (the (timers w k))) ids) = due_callbacks n m t"
  proof -
    have "set ids = set (filter (is_due m t) [0 ..< Suc n])"
    proof -
      have "k < Suc n" if "k \<in> ?due" for k
      proof -
        have "k \<le> last_timer_id w" using that w(1) unfolding wheel_ok_def by blast
        then show ?thesis using v by simp
      qed
      then have "k \<in> ?due \<longleftrightarrow> k \<in> set (filter (is_due m t) [0 ..< Suc n])" for k
        unfolding set_filter set_upt due by auto
      then show ?thesis unfolding w'(3) by blast
    qed
    moreover have "distinct (filter (is_due m t) [0 ..< Suc n])" by simp
    ultimately have "mset ids = mset (filter (is_due m t) [0 ..< Suc n])"
      using w'(2) set_eq_iff_mset_eq_distinct by blast
    moreover have "cb (the (timers w k)) = snd (the (m k))" if "k \<in> set ids" for k
      using that v by (auto simp: w'(3))
    ultimately show ?thesis
      by (metis (no_types, lifting) due_callbacks_def map_cong mset_map)
  qed
  moreover have "wheel_agenda w' = (t, n, not_due m t)"
    using w' v due by (auto simp: wheel_agenda_def not_due_def fun_eq_iff restrict_map_def)
  moreover have "clock_left w' = clock_left w - (t - now)"
    using w'(8) v by (simp add: clock_left_def)
  ultimately show "\<exists>fs w'. TimerWheel_Step w t = Inr (fs, w') \<and> wheel_ok w' \<and>
      clock_left w' = clock_left w - (t - now) \<and> mset fs = due_callbacks n m t \<and>
      wheel_agenda w' = (t, n, not_due m t)"
    using w'(1,4) by blast
qed

lemma init_agenda [simp]:
  "wheel_agenda (TimerWheel_init now) = (now, 0, Map.empty)"
  "clock_left (TimerWheel_init now) = 2 ^ 31"
  by (auto simp: wheel_agenda_def TimerWheel_init_def clock_left_def hands_def)

section \<open>Properties\<close>

text \<open>C3: from a fresh wheel, any sequence of \<open>RunAfter\<close>, \<open>RemoveTimer\<close> and \<open>Step\<close> with time
  going forward less than \<open>2 ^ 31\<close> ms in all runs without a fault and hands out at every
  step exactly the callbacks that the agenda of pending timers makes due.\<close>

theorem wheel_run_refines:
  assumes "agenda_fits (2 ^ 31) ops (now, 0, Map.empty)"
  shows "\<exists>w'. timer_run TimerWheel_RunAfter TimerWheel_RemoveTimer TimerWheel_Step ops (TimerWheel_init now) =
           Inr (fst (agenda_run ops (now, 0, Map.empty)), w') \<and>
         wheel_agenda w' = snd (agenda_run ops (now, 0, Map.empty))"
  using wheel_service.run_refines [OF init_wheel_ok, of now ops] assms by auto

theorem wheel_run_refines_witness:
  "\<exists>w'. timer_run TimerWheel_RunAfter TimerWheel_RemoveTimer TimerWheel_Step
          [Set_after 300 True, Set_after 5 False, Tick 1200, Cancel 1] (TimerWheel_init 1000) =
        Inr (fst (agenda_run [Set_after 300 True, Set_after 5 False, Tick 1200, Cancel 1] (1000, 0, Map.empty)), w') \<and>
      wheel_agenda w' = snd (agenda_run [Set_after 300 True, Set_after 5 False, Tick 1200, Cancel 1] (1000, 0, Map.empty))"
  by (rule wheel_run_refines) (simp add: not_due_def is_due_def)

text \<open>C4: a step at \<open>now\<close> runs the callback of every timer whose expiry time has come, once
  each and no other, keeps the rest and their invariant, and advances the clock.\<close>

theorem Step_fires_due:
  assumes "wheel_ok w" "last_expire_time w \<le> now"
    and "clock (hands w) + (now - last_expire_time w) < 2 ^ 31"
  shows "\<exists>w' ids. TimerWheel_Step w now = Inr (map (\<lambda>k. cb (the (timers w k))) ids, w') \<and>
           distinct ids \<and> set ids = {k \<in> dom (timers w). expires w k \<le> now} \<and> wheel_ok w' \<and>
           timers w' = timers w |` {k. now < expires w k} \<and> last_expire_time w' = now"
proof -
  let ?due = "{k \<in> dom (timers w). expires w k \<le> now}"
  obtain w' ids where r: "TimerWheel_Step w now = Inr (map (\<lambda>k. cb (the (timers w k))) ids, w')"
    "distinct ids" "set ids = ?due" "wheel_ok w'" "timers w' = timers w |` (- ?due)" "last_expire_time w' = now"
    by (rule Step_ok [OF assms])
  have "timers w |` (- ?due) = timers w |` {k. now < expires w k}"
  proof
    fix k
    show "(timers w |` (- ?due)) k = (timers w |` {k. now < expires w k}) k"
      by (cases "timers w k") (auto simp: restrict_map_def not_le domI)
  qed
  then show ?thesis using r by metis
qed

theorem Step_fires_due_witness:
  "\<exists>w' ids. TimerWheel_Step (TimerWheel_init 1000 :: bool wheel) 5000 =
        Inr (map (\<lambda>k. cb (the (timers (TimerWheel_init 1000 :: bool wheel) k))) ids, w') \<and>
      distinct ids \<and>
      set ids = {k \<in> dom (timers (TimerWheel_init 1000 :: bool wheel)). expires (TimerWheel_init 1000 :: bool wheel) k \<le> 5000} \<and>
      wheel_ok w' \<and>
      timers w' = timers (TimerWheel_init 1000) |` {k. 5000 < expires (TimerWheel_init 1000 :: bool wheel) k} \<and>
      last_expire_time w' = 5000"
  by (rule Step_fires_due) (rule init_wheel_ok, simp_all add: TimerWheel_init_def hands_def)

text \<open>Setting a timer gives it a fresh id and expiry time \<open>last_expire_time + d\<close>, leaves the
  others pending, and keeps the invariant, on every wheel whose clock has room for it.\<close>

theorem RunAfter_schedules:
  assumes "wheel_ok w" "0 \<le> d" "clock (hands w) + nat d < 2 ^ 31"
    and "last_expire_time w + nat d < 2 ^ 64" "last_timer_id w + 1 < 2 ^ 64"
  shows "\<exists>w'. TimerWheel_RunAfter w d f = Inr (last_timer_id w + 1, w') \<and> wheel_ok w' \<and>
           timers w (last_timer_id w + 1) = None \<and>
           timers w' = (timers w)(last_timer_id w + 1 \<mapsto>
             \<lparr>timer_id = last_timer_id w + 1, expire_time = last_expire_time w + nat d, cb = f\<rparr>)"
proof -
  have "timers w (last_timer_id w + 1) = None"
  proof (rule ccontr)
    assume "timers w (last_timer_id w + 1) \<noteq> None"
    then have "last_timer_id w + 1 \<le> last_timer_id w" using assms(1) unfolding wheel_ok_def by blast
    then show False by simp
  qed
  moreover obtain w' where "TimerWheel_RunAfter w d f = Inr (last_timer_id w + 1, w')" "wheel_ok w'"
    "timers w' = (timers w)(last_timer_id w + 1 \<mapsto>
       \<lparr>timer_id = last_timer_id w + 1, expire_time = last_expire_time w + nat d, cb = f\<rparr>)"
    by (rule RunAfter_ok [OF assms])
  ultimately show ?thesis by blast
qed

theorem RunAfter_schedules_witness:
  "\<exists>w'. TimerWheel_RunAfter (TimerWheel_init 1000) 300 True =
        Inr (last_timer_id (TimerWheel_init 1000 :: bool wheel) + 1, w') \<and> wheel_ok w' \<and>
      timers (TimerWheel_init 1000 :: bool wheel) (last_timer_id (TimerWheel_init 1000 :: bool wheel) + 1) = None \<and>
      timers w' = (timers (TimerWheel_init 1000))(last_timer_id (TimerWheel_init 1000 :: bool wheel) + 1 \<mapsto>
        \<lparr>timer_id = last_timer_id (TimerWheel_init 1000 :: bool wheel) + 1,
         expire_time = last_expire_time (TimerWheel_init 1000 :: bool wheel) + nat 300, cb = True\<rparr>)"
  by (rule RunAfter_schedules) (rule init_wheel_ok, simp_all add: TimerWheel_init_def hands_def)

text \<open>Removing a pending timer takes it out of its slot, the map and the queue and nothing
  else; removing an id that is not pending fails the assertion.\<close>

theorem RemoveTimer_cancels:
  assumes "wheel_ok w"
  shows "case timers w i of
      None \<Rightarrow> TimerWheel_RemoveTimer w i = Inl Assertion_failed
    | Some t \<Rightarrow> \<exists>w'. TimerWheel_RemoveTimer w i = Inr w' \<and> wheel_ok w' \<and>
        timers w' = (timers w)(i := None) \<and> \<not> is_linked (wheels w') i"
proof (cases "timers w i")
  case None
  then show ?thesis by (simp add: TimerWheel_RemoveTimer_def)
next
  case (Some t)
  obtain w' where w': "TimerWheel_RemoveTimer w i = Inr w'" "wheel_ok w'" "timers w' = (timers w)(i := None)"
    by (rule RemoveTimer_ok [OF assms Some])
  moreover have "wheels w' = unlink (wheels w) i"
    using w'(1) Some by (auto simp: TimerWheel_RemoveTimer_def)
  moreover have "\<not> is_linked (unlink (wheels w) i) i"
    by (auto simp: is_linked_def unlink_def)
  ultimately show ?thesis using Some by auto
qed

theorem RemoveTimer_cancels_witness:
  "case timers (TimerWheel_init 1000 :: bool wheel) 7 of
      None \<Rightarrow> TimerWheel_RemoveTimer (TimerWheel_init 1000 :: bool wheel) 7 = Inl Assertion_failed
    | Some t \<Rightarrow> \<exists>w'. TimerWheel_RemoveTimer (TimerWheel_init 1000) 7 = Inr w' \<and> wheel_ok w' \<and>
        timers w' = (timers (TimerWheel_init 1000 :: bool wheel))(7 := None) \<and> \<not> is_linked (wheels w') 7"
  by (rule RemoveTimer_cancels) (rule init_wheel_ok)

text \<open>\<open>FindPos\<close> adds the interval to the hands digit by digit: the slot is the digit of the
  sum on the lowest wheel above which the two readings agree, and the new hands are the
  digits of the sum.\<close>

theorem FindPos_adds:
  assumes "hands_ok (hands w)" "0 \<le> d" "clock (hands w) + nat d < 2 ^ 31"
  shows "\<exists>i j w'. FindPos w d True = Inr ((i, j), False, w') \<and>
           on_slot (clock (hands w)) (clock (hands w) + nat d) i j \<and>
           i < kWheelCount \<and> j < kWheelSlotCount ! i \<and>
           (hands_idx w < 2 \<longrightarrow> length (hands_copy w) = 2 \<longrightarrow>
             clock (hands (SwitchHands w')) = clock (hands w) + nat d)"
proof -
  obtain i j where ij: "on_slot (clock (hands w)) (clock (hands w) + nat d) i j"
    using on_slot_exists [OF digits_clock(2) [OF assms(1)] assms(3)] by blast
  have "FindPos w d True = Inr ((i, j), False, set_other_hands True (digits (clock (hands w) + nat d)) w)"
    by (rule FindPos_at [OF digits_clock(1) [OF assms(1), symmetric] assms(2) ij])
  moreover have "clock (hands (SwitchHands (set_other_hands True (digits (clock (hands w) + nat d)) w))) =
      clock (hands w) + nat d" if "hands_idx w < 2" "length (hands_copy w) = 2"
    using that clock_digits [OF assms(3)]
    by (auto simp: SwitchHands_def set_other_hands_def hands_def)
  ultimately show ?thesis using ij on_slot_range [OF ij] by blast
qed

theorem FindPos_adds_witness:
  "\<exists>i j w'. FindPos (TimerWheel_init 1000 :: bool wheel) 300 True = Inr ((i, j), False, w') \<and>
      on_slot (clock (hands (TimerWheel_init 1000 :: bool wheel))) (clock (hands (TimerWheel_init 1000 :: bool wheel)) + nat 300) i j \<and>
      i < kWheelCount \<and> j < kWheelSlotCount ! i \<and>
      (hands_idx (TimerWheel_init 1000 :: bool wheel) < 2 \<longrightarrow> length (hands_copy (TimerWheel_init 1000 :: bool wheel)) = 2 \<longrightarrow>
        clock (hands (SwitchHands w')) = clock (hands (TimerWheel_init 1000 :: bool wheel)) + nat 300)"
  by (rule FindPos_adds) (simp_all add: TimerWheel_init_def hands_def hands_ok_def)

text \<open>The timeout for the poller is \<open>-1\<close> without timers, \<open>0\<close> when a timer is due, and
  otherwise the time to the earliest expiry.\<close>

theorem NextTimeout_earliest:
  assumes "wheel_ok w" "last_expire_time w \<le> now"
  shows "NextTimeout w now =
           (if dom (timers w) = {} then -1
            else if \<exists>k\<in>dom (timers w). expires w k \<le> now then 0
            else int (Min (expires w ` dom (timers w))) - int now)"
proof -
  note ok = assms(1) [unfolded wheel_ok_def]
  have set_q: "set (expire_time_queue w) = expires w ` dom (timers w)"
  proof -
    have "set_mset (mset (expire_time_queue w)) = expires w ` set_mset (mset_set (dom (timers w)))"
      using ok by (simp only: set_image_mset)
    moreover have "finite (dom (timers w))" using ok by blast
    ultimately show ?thesis by (simp only: set_mset_mset finite_set_mset_mset_set)
  qed
  show ?thesis
  proof (cases "expire_time_queue w")
    case Nil
    then show ?thesis using set_q by (simp add: NextTimeout_def)
  next
    case (Cons e es)
    have srt: "sorted (e # es)" using ok Cons by simp
    then have min: "Min (expires w ` dom (timers w)) = e"
      unfolding set_q [symmetric] Cons by (intro Min_eqI) auto
    have ne: "dom (timers w) \<noteq> {}" using set_q Cons by auto
    have due: "(\<exists>k\<in>dom (timers w). expires w k \<le> now) \<longleftrightarrow> e \<le> now"
    proof -
      have "(\<exists>k\<in>dom (timers w). expires w k \<le> now) \<longleftrightarrow> (\<exists>x\<in>set (expire_time_queue w). x \<le> now)"
        unfolding set_q by blast
      also have "\<dots> \<longleftrightarrow> e \<le> now" using srt unfolding Cons by auto
      finally show ?thesis .
    qed
    have "int e - int now < 2 ^ 31"
    proof -
      have "e \<in> expires w ` dom (timers w)" using set_q Cons by auto
      then obtain k t where k: "timers w k = Some t" "expires w k = e" by auto
      then have "reading w k < 2 ^ 31" using ok by blast
      then show ?thesis using assms(2) k(2) by (simp add: reading_def)
    qed
    then show ?thesis
      using Cons ne due min by (auto simp: NextTimeout_def not_le)
  qed
qed

theorem NextTimeout_earliest_witness:
  "NextTimeout (TimerWheel_init 1000 :: bool wheel) 1005 =
     (if dom (timers (TimerWheel_init 1000 :: bool wheel)) = {} then -1
      else if \<exists>k\<in>dom (timers (TimerWheel_init 1000 :: bool wheel)). expires (TimerWheel_init 1000 :: bool wheel) k \<le> 1005 then 0
      else int (Min (expires (TimerWheel_init 1000 :: bool wheel) ` dom (timers (TimerWheel_init 1000 :: bool wheel)))) - int 1005)"
  by (rule NextTimeout_earliest) (rule init_wheel_ok, simp add: TimerWheel_init_def)

text \<open>C32: the step that takes the clock past \<open>2 ^ 31\<close> ms (24.8 days after the wheel was made)
  never returns: it indexes \<open>wheels_\<close> past its end, or fails an assertion before that.\<close>

theorem Step_overflow_faults:
  assumes "wheel_ok w" "last_expire_time w \<le> now" "now - last_expire_time w < 2 ^ 31"
    and "2 ^ 31 \<le> clock (hands w) + (now - last_expire_time w)"
  shows "\<exists>e. TimerWheel_Step w now = Inl e"
proof (cases "TimerWheel_Step w now")
  case (Inr r)
  let ?d = "now - last_expire_time w"
  define interval where "interval = (if last_expire_time w < now
      then to_int32 (int now - int (last_expire_time w)) else 0)"
  have iv: "interval = int ?d" using assms(2,3) by (auto simp: interval_def)
  have loop: "find_loop (hands w) 0 (nat interval) (hands w) = (None, digits (clock (hands w) + ?d))"
    using find_loop_overflow [OF wheel_ok_clock [OF assms(1)] assms(4)]
    by (simp add: iv wheel_ok_hands [OF assms(1), symmetric])
  have len: "length (wheels w) = kWheelCount"
    using assms(1) by (simp add: wheel_ok_def slots_hold_def)
  have pos: "overflow \<and> wheels w1 = wheels w" if "FindPos w interval True = Inr (pos, overflow, w1)" for pos overflow w1
    using that unfolding FindPos_def loop
    by (auto simp: set_other_hands_def split: option.splits)
  have "length ws = kWheelCount" if "collect_due w1 hs now pos True = Inr (l, ws)" "wheels w1 = wheels w"
    for w1 hs pos l ws
    using that len by (auto simp: collect_due_def splice_wheels_def)
  then have get: "slot_get ws kWheelCount j = Inl Out_of_bounds"
    if "collect_due w1 hs now pos True = Inr (l, ws)" "wheels w1 = wheels w" for w1 hs pos l ws j
    using that by (fastforce simp: slot_get_def)
  have False
    using Inr pos get unfolding TimerWheel_Step_def interval_def [symmetric]
    by (fastforce simp: andthen_Inr_iff Let_def)
  then show ?thesis ..
qed simp

theorem Step_overflow_faults_witness:
  "\<exists>e. TimerWheel_Step ((TimerWheel_init 0 :: bool wheel)\<lparr>hands_copy := replicate 2 [1, 0, 0, 0, 0]\<rparr>) 2147483647 = Inl e"
  (is "\<exists>e. TimerWheel_Step ?w _ = _")
proof (rule Step_overflow_faults)
  have hands: "hands ?w = [1, 0, 0, 0, 0]" by (simp add: hands_def TimerWheel_init_def)
  have "wheel_ok (TimerWheel_init 0 :: bool wheel)" by (rule init_wheel_ok)
  moreover have "hands_ok [1, 0, 0, 0, 0]"
    by (auto simp: hands_ok_def wheel_cases kWheelSlotCount_def) (simp add: kWheelCount_def)
  ultimately show "wheel_ok ?w"
    unfolding wheel_ok_def hands by (auto simp: TimerWheel_init_def)
  show "last_expire_time ?w \<le> 2147483647" "2147483647 - last_expire_time ?w < 2 ^ 31"
    by (simp_all add: TimerWheel_init_def)
  have "clock (hands ?w) = 1"
    unfolding clock_def kWheelCount_Suc hands by simp
  then show "2 ^ 31 \<le> clock (hands ?w) + (2147483647 - last_expire_time ?w)"
    by (simp add: TimerWheel_init_def)
qed

text \<open>\<open>Start\<close> moves \<open>last_expire_time\<close> without moving the timers already set, as
  \<open>EventLoop::Run\<close> does with timers set before it: a timer set for 4 by a wheel made at 0 and
  started at 2 is not run by the step at 4, which forgets its expiry time all the same, so
  that the poller is then told to wait for ever.\<close>

theorem Start_loses_timeout:
  "andthen (TimerWheel_RunAt (TimerWheel_init 0) 4 True) (\<lambda>(i, w).
     andthen (TimerWheel_Step (TimerWheel_Start w 2) 4) (\<lambda>(fs, w').
       Inr (fs, NextTimeout w' 4))) = Inr ([], - 1)"
  by code_simp

text \<open>When the clock of the machine is set back between two steps, a timer runs before its
  expiry time: set for 4, with steps at 3, 1 and 3, it runs at the second 3.\<close>

theorem Step_back_fires_early:
  "andthen (TimerWheel_RunAt (TimerWheel_init 0) 4 True) (\<lambda>(i, w).
     andthen (TimerWheel_Step w 3) (\<lambda>(fs, w1).
       andthen (TimerWheel_Step w1 1) (\<lambda>(fs1, w2).
         andthen (TimerWheel_Step w2 3) (\<lambda>(fs2, w3). Inr (fs, fs1, fs2))))) = Inr ([], [], [True])"
  by code_simp

end
