(* ===== verification/Event_Loop.thy ===== *)
theory Event_Loop
  imports Timer_Wheel "HOL-Library.Word"
begin

unbundle bit_operations_syntax

text \<open>
  Channels, the poller and the event loop (include/fx_channel.h, src/fx_channel.cc,
  src/fx_poller.cc, src/fx_event_loop.cc). A \<open>Channel*\<close> is a number; what a channel's
  callbacks and a queued functor do is a function of the state, given to the operations that
  call them. The record of the loop extends that of its poller, and the records of the
  components above the loop extend it in turn, so every operation works on all of them.
\<close>

section \<open>Channels\<close>

definition EPOLLIN :: "32 word" where "EPOLLIN = 1"
definition EPOLLPRI :: "32 word" where "EPOLLPRI = 2"
definition EPOLLOUT :: "32 word" where "EPOLLOUT = 4"
definition EPOLLERR :: "32 word" where "EPOLLERR = 8"
definition EPOLLHUP :: "32 word" where "EPOLLHUP = 16"
definition EPOLLRDNORM :: "32 word" where "EPOLLRDNORM = 64"
definition EPOLLRDBAND :: "32 word" where "EPOLLRDBAND = 128"
definition EPOLLWRNORM :: "32 word" where "EPOLLWRNORM = 256"
definition EPOLLWRBAND :: "32 word" where "EPOLLWRBAND = 512"
definition EPOLLMSG :: "32 word" where "EPOLLMSG = 1024"
definition EPOLLONESHOT :: "32 word" where "EPOLLONESHOT = 0x40000000"
definition EPOLLET :: "32 word" where "EPOLLET = 0x80000000"

definition kReadEvents :: "32 word" where "kReadEvents = EPOLLIN"
definition kWriteEvents :: "32 word" where "kWriteEvents = EPOLLOUT"
definition kNoneEvents :: "32 word" where "kNoneEvents = 0"

text \<open>\<open>'h\<close> names the callbacks; an empty \<open>boost::function\<close> is \<open>None\<close>.\<close>

record 'h channel =
  ch_ptr :: nat
  ch_fd :: int
  ch_events :: "32 word"
  ch_revents :: "32 word"
  ch_handling_events :: bool
  ch_rcb :: "'h option"
  ch_wcb :: "'h option"
  ch_ecb :: "'h option"

definition Channel_init :: "nat \<Rightarrow> int \<Rightarrow> 'h channel" where
  "Channel_init ptr fd =
     \<lparr>ch_ptr = ptr, ch_fd = fd, ch_events = 0, ch_revents = 0, ch_handling_events = False,
      ch_rcb = None, ch_wcb = None, ch_ecb = None\<rparr>"

definition is_reading :: "'h channel \<Rightarrow> bool" where
  "is_reading ch \<longleftrightarrow> ch_events ch AND kReadEvents \<noteq> 0"

definition is_writing :: "'h channel \<Rightarrow> bool" where
  "is_writing ch \<longleftrightarrow> ch_events ch AND kWriteEvents \<noteq> 0"

text \<open>
  \<open>HandleEvents\<close> of the channel that \<open>get\<close> reads and \<open>upd\<close> changes in a state; \<open>call\<close> runs a
  callback. Each callback is looked up when its turn comes.
\<close>

definition call_if_set :: "('h \<Rightarrow> 's \<Rightarrow> 's run) \<Rightarrow> 'h option \<Rightarrow> 's \<Rightarrow> 's run" where
  "call_if_set call callback s = (case callback of None \<Rightarrow> Some (Inr s) | Some h \<Rightarrow> call h s)"

definition HandleEvents ::
  "('s \<Rightarrow> 'h channel) \<Rightarrow> (('h channel \<Rightarrow> 'h channel) \<Rightarrow> 's \<Rightarrow> 's) \<Rightarrow> ('h \<Rightarrow> 's \<Rightarrow> 's run) \<Rightarrow> 's \<Rightarrow> 's run" where
  "HandleEvents get upd call s =
     (let s0 = upd (\<lambda>c. c\<lparr>ch_handling_events := True\<rparr>) s in
      then_run (if ch_revents (get s0) AND (EPOLLERR OR EPOLLHUP) \<noteq> 0
                then call_if_set call (ch_ecb (get s0)) s0 else Some (Inr s0)) (\<lambda>s1.
      then_run (if ch_revents (get s1) AND (EPOLLOUT OR EPOLLWRNORM) \<noteq> 0
                then call_if_set call (ch_wcb (get s1)) s1 else Some (Inr s1)) (\<lambda>s2.
      then_run (if ch_revents (get s2) AND (EPOLLIN OR EPOLLRDNORM) \<noteq> 0
                then call_if_set call (ch_rcb (get s2)) s2 else Some (Inr s2)) (\<lambda>s3.
      Some (Inr (upd (\<lambda>c. c\<lparr>ch_handling_events := False\<rparr>) s3))))))"

text \<open>The log line of \<open>PrintEvents\<close>.\<close>

definition PrintEvents :: "32 word \<Rightarrow> string" where
  "PrintEvents events_mask =
     ''events: '' @
     concat (map (\<lambda>(ev, name). if events_mask AND ev \<noteq> 0 then name @ '' '' else [])
       [(EPOLLIN, ''EPOLLIN''), (EPOLLPRI, ''EPOLLPRI''), (EPOLLOUT, ''EPOLLOUT''),
        (EPOLLRDNORM, ''EPOLLRDNORM''), (EPOLLRDBAND, ''EPOLLRDBAND''), (EPOLLWRNORM, ''EPOLLWRNORM''),
        (EPOLLWRBAND, ''EPOLLWRBAND''), (EPOLLMSG, ''EPOLLMSG''), (EPOLLERR, ''EPOLLERR''),
        (EPOLLHUP, ''EPOLLHUP''), (EPOLLONESHOT, ''EPOLLONESHOT''), (EPOLLET, ''EPOLLET'')])"

section \<open>The poller\<close>

text \<open>
  The calls of \<open>epoll_ctl\<close> are recorded in order; their results are ignored by the code. A
  result of \<open>epoll_wait\<close> is \<open>None\<close> for an error, or the list of descriptors with events.
\<close>

datatype epoll_call = EPOLL_CTL_ADD int "32 word" | EPOLL_CTL_MOD int "32 word" | EPOLL_CTL_DEL int

type_synonym wait_result = "(int \<times> 32 word) list option"

record poller =
  p_channels :: "int \<rightharpoonup> nat"
  p_events_size :: nat
  epoll_calls :: "epoll_call list"

definition Poller_init :: poller where
  "Poller_init = \<lparr>p_channels = Map.empty, p_events_size = 20, epoll_calls = []\<rparr>"

definition Poller_UpdateChannel :: "'h channel \<Rightarrow> 'z poller_scheme \<Rightarrow> 'z poller_scheme" where
  "Poller_UpdateChannel ch p =
     (case p_channels p (ch_fd ch) of
        None \<Rightarrow> p\<lparr>epoll_calls := epoll_calls p @ [EPOLL_CTL_ADD (ch_fd ch) (ch_events ch)],
                 p_channels := (p_channels p)(ch_fd ch \<mapsto> ch_ptr ch)\<rparr>
      | Some _ \<Rightarrow> p\<lparr>epoll_calls := epoll_calls p @ [EPOLL_CTL_MOD (ch_fd ch) (ch_events ch)]\<rparr>)"

definition Poller_RemoveChannel :: "'h channel \<Rightarrow> 'z poller_scheme \<Rightarrow> 'z poller_scheme result" where
  "Poller_RemoveChannel ch p =
     asserting (p_channels p (ch_fd ch) \<noteq> None)
       (Inr (p\<lparr>p_channels := (p_channels p)(ch_fd ch := None),
               epoll_calls := epoll_calls p @ [EPOLL_CTL_DEL (ch_fd ch)]\<rparr>))"

text \<open>The active channels, each with the events that are set in it.\<close>

fun FillActiveChannels :: "'z poller_scheme \<Rightarrow> (int \<times> 32 word) list \<Rightarrow> (nat \<times> 32 word) list result" where
  "FillActiveChannels p [] = Inr []"
| "FillActiveChannels p ((fd, ev) # evs) =
     (case p_channels p fd of
        None \<Rightarrow> Inl Assertion_failed
      | Some ptr \<Rightarrow> andthen (FillActiveChannels p evs) (\<lambda>chs. Inr ((ptr, ev) # chs)))"

definition Poll :: "wait_result \<Rightarrow> 'z poller_scheme \<Rightarrow> ((nat \<times> 32 word) list \<times> 'z poller_scheme) result" where
  "Poll res p =
     (case res of
        None \<Rightarrow> Inr ([], p)
      | Some evs \<Rightarrow>
          if evs = [] then Inr ([], p)
          else andthen (FillActiveChannels p evs) (\<lambda>chs.
            Inr (chs, if length evs = p_events_size p then p\<lparr>p_events_size := p_events_size p * 2\<rparr> else p)))"

section \<open>The event loop\<close>

text \<open>
  \<open>'f\<close> names the functors and timer callbacks. \<open>wakeups\<close> counts the integers in the wake-up
  pipe, \<open>this_thread\<close> is the calling thread.
\<close>

record 'f event_loop = poller +
  calling_functors :: bool
  loop_thread :: nat
  this_thread :: nat
  functors :: "'f list"
  period_functor :: "'f option"
  wakeups :: nat
  quit_flag :: bool
  timer_mgr :: "'f wheel"
  started :: bool
  iteration :: nat

definition InLoopThread :: "('f, 'z) event_loop_scheme \<Rightarrow> bool" where
  "InLoopThread l \<longleftrightarrow> loop_thread l = this_thread l"

definition EventLoop_UpdateChannel ::
  "'h channel \<Rightarrow> ('f, 'z) event_loop_scheme \<Rightarrow> ('f, 'z) event_loop_scheme result" where
  "EventLoop_UpdateChannel ch l = asserting (InLoopThread l) (Inr (Poller_UpdateChannel ch l))"

definition EventLoop_RemoveChannel ::
  "'h channel \<Rightarrow> ('f, 'z) event_loop_scheme \<Rightarrow> ('f, 'z) event_loop_scheme result" where
  "EventLoop_RemoveChannel ch l = asserting (InLoopThread l) (Poller_RemoveChannel ch l)"

text \<open>The five operations on the events of a channel: the new mask, then \<open>Update\<close>.\<close>

definition Channel_set_events ::
  "32 word \<Rightarrow> 'h channel \<Rightarrow> ('f, 'z) event_loop_scheme \<Rightarrow> ('h channel \<times> ('f, 'z) event_loop_scheme) result" where
  "Channel_set_events ev ch l =
     andthen (EventLoop_UpdateChannel (ch\<lparr>ch_events := ev\<rparr>) l) (\<lambda>l1. Inr (ch\<lparr>ch_events := ev\<rparr>, l1))"

definition Channel_EnableReading where
  "Channel_EnableReading ch = Channel_set_events (ch_events ch OR kReadEvents) ch"

definition Channel_DisableReading where
  "Channel_DisableReading ch = Channel_set_events (ch_events ch AND NOT kReadEvents) ch"

definition Channel_EnableWriting where
  "Channel_EnableWriting ch = Channel_set_events (ch_events ch OR kWriteEvents) ch"

definition Channel_DisableWriting where
  "Channel_DisableWriting ch = Channel_set_events (ch_events ch AND NOT kWriteEvents) ch"

definition Channel_DisableAll where
  "Channel_DisableAll ch = Channel_set_events kNoneEvents ch"

text \<open>The constructor: the wake-up channel \<open>wptr\<close> on the read end of the pipe is registered.\<close>

definition EventLoop_init :: "nat \<Rightarrow> nat \<Rightarrow> nat \<Rightarrow> int \<Rightarrow> 'f event_loop result" where
  "EventLoop_init tid now wptr wfd =
     andthen (Channel_EnableReading ((Channel_init wptr wfd)\<lparr>ch_rcb := Some ()\<rparr>)
       (poller.extend Poller_init
         \<lparr>calling_functors = False, loop_thread = tid, this_thread = tid, functors = [],
          period_functor = None, wakeups = 0, quit_flag = False, timer_mgr = TimerWheel_init now,
          started = False, iteration = 0\<rparr>))
     (\<lambda>(ch, l). Inr l)"

definition WakeUp :: "('f, 'z) event_loop_scheme \<Rightarrow> ('f, 'z) event_loop_scheme" where
  "WakeUp l = l\<lparr>wakeups := Suc (wakeups l)\<rparr>"

text \<open>
  The pipe is a blocking one (its flags are set with \<open>F_SETFD\<close>), so a read from the empty
  pipe does not return.
\<close>

definition ProcessWakeUp :: "('f, 'z) event_loop_scheme \<Rightarrow> ('f, 'z) event_loop_scheme run" where
  "ProcessWakeUp l = (if wakeups l = 0 then None else Some (Inr (l\<lparr>wakeups := wakeups l - 1\<rparr>)))"

text \<open>The events of the wake-up channel, whose callback is \<open>ProcessWakeUp\<close>.\<close>

definition handle_wakeup :: "unit channel \<Rightarrow> 32 word \<Rightarrow> ('f, 'z) event_loop_scheme \<Rightarrow> ('f, 'z) event_loop_scheme run" where
  "handle_wakeup ch ev l =
     then_run (HandleEvents fst (\<lambda>g (ch, s). (g ch, s))
        (\<lambda>_ (ch, s). then_run (ProcessWakeUp s) (\<lambda>s1. Some (Inr (ch, s1)))) (ch\<lparr>ch_revents := ev\<rparr>, l))
       (\<lambda>(_, s). Some (Inr s))"

definition EventLoop_Quit :: "('f, 'z) event_loop_scheme \<Rightarrow> ('f, 'z) event_loop_scheme" where
  "EventLoop_Quit l =
     (let l1 = l\<lparr>quit_flag := True\<rparr> in if InLoopThread l then l1 else WakeUp l1)"

definition SetPeriodFunctor :: "'f \<Rightarrow> ('f, 'z) event_loop_scheme \<Rightarrow> ('f, 'z) event_loop_scheme" where
  "SetPeriodFunctor f l = l\<lparr>period_functor := Some f\<rparr>"

definition QueueInLoop :: "'f \<Rightarrow> ('f, 'z) event_loop_scheme \<Rightarrow> ('f, 'z) event_loop_scheme" where
  "QueueInLoop f l =
     (let l1 = l\<lparr>functors := functors l @ [f]\<rparr> in
      if \<not> InLoopThread l \<or> calling_functors l \<or> \<not> started l then WakeUp l1 else l1)"

definition RunInLoop ::
  "('f \<Rightarrow> ('f, 'z) event_loop_scheme \<Rightarrow> ('f, 'z) event_loop_scheme run) \<Rightarrow> 'f \<Rightarrow>
   ('f, 'z) event_loop_scheme \<Rightarrow> ('f, 'z) event_loop_scheme run" where
  "RunInLoop exec f l = (if InLoopThread l then exec f l else Some (Inr (QueueInLoop f l)))"

definition EventLoop_RemoveTimer :: "nat \<Rightarrow> ('f, 'z) event_loop_scheme \<Rightarrow> ('f, 'z) event_loop_scheme result" where
  "EventLoop_RemoveTimer i l =
     asserting (InLoopThread l)
       (andthen (TimerWheel_RemoveTimer (timer_mgr l) i) (\<lambda>w. Inr (l\<lparr>timer_mgr := w\<rparr>)))"

text \<open>\<open>now\<close> is what \<open>base::Now()\<close> returns.\<close>

definition EventLoop_RunAfter ::
  "nat \<Rightarrow> int \<Rightarrow> 'f \<Rightarrow> ('f, 'z) event_loop_scheme \<Rightarrow> (nat \<times> ('f, 'z) event_loop_scheme) result" where
  "EventLoop_RunAfter now interval f l =
     asserting (InLoopThread l \<and> 0 \<le> interval)
       (andthen (TimerWheel_RunAt (timer_mgr l) (size_add now (nat interval)) f)
          (\<lambda>(i, w). Inr (i, l\<lparr>timer_mgr := w\<rparr>)))"

fun run_all :: "('a \<Rightarrow> 's \<Rightarrow> 's run) \<Rightarrow> 'a list \<Rightarrow> 's \<Rightarrow> 's run" where
  "run_all exec [] s = Some (Inr s)"
| "run_all exec (f # fs) s = then_run (exec f s) (run_all exec fs)"

text \<open>\<open>CallPendingFunctors\<close>: the list is taken out first, then its functors run.\<close>

definition begin_calls :: "('f, 'z) event_loop_scheme \<Rightarrow> 'f list \<times> ('f, 'z) event_loop_scheme" where
  "begin_calls l = (functors l, l\<lparr>calling_functors := True, functors := []\<rparr>)"

definition end_calls :: "('f, 'z) event_loop_scheme \<Rightarrow> ('f, 'z) event_loop_scheme" where
  "end_calls l = l\<lparr>calling_functors := False\<rparr>"

definition CallPendingFunctors ::
  "('f \<Rightarrow> ('f, 'z) event_loop_scheme \<Rightarrow> ('f, 'z) event_loop_scheme run) \<Rightarrow>
   ('f, 'z) event_loop_scheme \<Rightarrow> ('f, 'z) event_loop_scheme run" where
  "CallPendingFunctors exec l =
     (let (fs, l1) = begin_calls l
      in then_run (run_all exec fs l1) (\<lambda>l2. Some (Inr (end_calls l2))))"

text \<open>
  One round of \<open>Run\<close>: \<open>polled\<close> is the result of \<open>epoll_wait\<close> and the time after it,
  \<open>handle\<close> sets the events of a channel and calls its \<open>HandleEvents\<close>. The first component
  of the result is the next timeout.
\<close>

definition loop_round ::
  "('f \<Rightarrow> ('f, 'z) event_loop_scheme \<Rightarrow> ('f, 'z) event_loop_scheme run) \<Rightarrow>
   (nat \<times> 32 word \<Rightarrow> ('f, 'z) event_loop_scheme \<Rightarrow> ('f, 'z) event_loop_scheme run) \<Rightarrow>
   wait_result \<times> nat \<Rightarrow> ('f, 'z) event_loop_scheme \<Rightarrow> (int \<times> ('f, 'z) event_loop_scheme) run" where
  "loop_round exec handle polled l =
     (case polled of (res, now) \<Rightarrow>
      then_run (Some (Poll res l)) (\<lambda>(chs, l0).
      let l1 = l0\<lparr>iteration := size_add (iteration l0) 1\<rparr> in
      then_run (run_all handle chs l1) (\<lambda>l2.
      then_run (call_if_set exec (period_functor l2) l2) (\<lambda>l3.
      then_run (CallPendingFunctors exec l3) (\<lambda>l4.
      then_run (Some (TimerWheel_Step (timer_mgr l4) now)) (\<lambda>(cbs, w).
      then_run (run_all exec cbs (l4\<lparr>timer_mgr := w\<rparr>)) (\<lambda>l5.
      Some (Inr (NextTimeout (timer_mgr l5) now, l5)))))))))"

text \<open>The \<open>while\<close> loop; \<open>wait k timeout\<close> is the \<open>k\<close>-th result of \<open>epoll_wait\<close>.\<close>

partial_function (option) run_loop ::
  "('f \<Rightarrow> ('f, 'z) event_loop_scheme \<Rightarrow> ('f, 'z) event_loop_scheme run) \<Rightarrow>
   (nat \<times> 32 word \<Rightarrow> ('f, 'z) event_loop_scheme \<Rightarrow> ('f, 'z) event_loop_scheme run) \<Rightarrow>
   (nat \<Rightarrow> int \<Rightarrow> wait_result \<times> nat) \<Rightarrow> nat \<Rightarrow> int \<Rightarrow>
   ('f, 'z) event_loop_scheme \<Rightarrow> (fault + ('f, 'z) event_loop_scheme) option" where
  "run_loop exec handle wait k timeout l =
     (if quit_flag l then Some (Inr l)
      else then_run (loop_round exec handle (wait k timeout) l) (\<lambda>r.
             run_loop exec handle wait (Suc k) (fst r) (snd r)))"

definition EventLoop_Run ::
  "('f \<Rightarrow> ('f, 'z) event_loop_scheme \<Rightarrow> ('f, 'z) event_loop_scheme run) \<Rightarrow>
   (nat \<times> 32 word \<Rightarrow> ('f, 'z) event_loop_scheme \<Rightarrow> ('f, 'z) event_loop_scheme run) \<Rightarrow>
   (nat \<Rightarrow> int \<Rightarrow> wait_result \<times> nat) \<Rightarrow> nat \<Rightarrow>
   ('f, 'z) event_loop_scheme \<Rightarrow> ('f, 'z) event_loop_scheme run" where
  "EventLoop_Run exec handle wait start_time l =
     (if InLoopThread l then
        let w = TimerWheel_Start (timer_mgr l) start_time
        in run_loop exec handle wait 0 (NextTimeout w start_time) (l\<lparr>started := True, timer_mgr := w\<rparr>)
      else Some (Inl Assertion_failed))"

end
