(* ===== verification/Net_Address.thy ===== *)
theory Net_Address
  imports Fx_Prelude "HOL-Library.Word"
begin

unbundle bit_operations_syntax

text \<open>
  Addresses of sockets (include/fx_net_address.h, src/fx_net_address.cc): the text of an address
  with its port, and the conversion from and to \<open>sockaddr_in\<close>. The port in a \<open>sockaddr_in\<close> is in
  the byte order of the network, the address is its four bytes in that order. The functions of
  the C library that are used (\<open>htons\<close>, \<open>inet_ntop\<close>, \<open>inet_pton\<close> for \<open>AF_INET\<close>) are written out
  as their manual pages describe them, on a little-endian machine.
\<close>

section \<open>The C library\<close>

type_synonym in_addr = "8 word \<times> 8 word \<times> 8 word \<times> 8 word"

definition AF_INET :: "16 word" where
  "AF_INET = 2"

record sockaddr_in =
  sin_family :: "16 word"
  sin_port :: "16 word"
  sin_addr :: in_addr

definition htons :: "16 word \<Rightarrow> 16 word" where
  "htons p = push_bit 8 p OR drop_bit 8 p"

definition ntohs :: "16 word \<Rightarrow> 16 word" where
  "ntohs p = push_bit 8 p OR drop_bit 8 p"

definition INET_ADDRSTRLEN :: nat where
  "INET_ADDRSTRLEN = 16"

text \<open>The text and its NUL must fit.\<close>

definition dotted :: "in_addr \<Rightarrow> string" where
  "dotted a = (case a of (a1, a2, a3, a4) \<Rightarrow>
     decimal (unat a1) @ ''.'' @ decimal (unat a2) @ ''.'' @ decimal (unat a3) @ ''.'' @ decimal (unat a4))"

definition inet_ntop :: "in_addr \<Rightarrow> nat \<Rightarrow> string option" where
  "inet_ntop a n = (if length (dotted a) < n then Some (dotted a) else None)"

text \<open>Four decimal numbers up to 255 with dots between them, of at most three digits and without
  leading zeros.\<close>

definition octet :: "string \<Rightarrow> 8 word option" where
  "octet s =
     (if s = [] \<or> 3 < length s \<or> (hd s = CHR ''0'' \<and> s \<noteq> ''0'') then None
      else case digits_value s 0 of None \<Rightarrow> None | Some n \<Rightarrow> if n < 256 then Some (of_nat n) else None)"

fun dot_fields :: "string \<Rightarrow> string list" where
  "dot_fields [] = [[]]"
| "dot_fields (c # s) =
     (if c = CHR ''.'' then [] # dot_fields s else (c # hd (dot_fields s)) # tl (dot_fields s))"

definition inet_pton :: "string \<Rightarrow> in_addr option" where
  "inet_pton s =
     (case map octet (dot_fields s) of
        [Some a1, Some a2, Some a3, Some a4] \<Rightarrow> Some (a1, a2, a3, a4)
      | _ \<Rightarrow> None)"

text \<open>How an \<open>int\<close> is printed.\<close>

definition signed_decimal :: "int \<Rightarrow> string" where
  "signed_decimal z = (if z < 0 then CHR ''-'' # decimal (nat (- z)) else decimal (nat z))"

section \<open>Addresses\<close>

record net_address =
  na_addr :: string
  na_port :: int
  na_full_addr :: string

definition MakeFullAddr :: "net_address \<Rightarrow> net_address" where
  "MakeFullAddr a =
     (if na_full_addr a = [] then a\<lparr>na_full_addr := na_addr a @ '':'' @ signed_decimal (na_port a)\<rparr> else a)"

definition NetAddress_of_text :: "string \<Rightarrow> int \<Rightarrow> net_address" where
  "NetAddress_of_text addr port = MakeFullAddr \<lparr>na_addr = addr, na_port = port, na_full_addr = []\<rparr>"

definition NetAddress_of_sockaddr :: "sockaddr_in \<Rightarrow> net_address result" where
  "NetAddress_of_sockaddr sa =
     (case inet_ntop (sin_addr sa) INET_ADDRSTRLEN of
        None \<Rightarrow> Inl Check_failed
      | Some buf \<Rightarrow>
          Inr (MakeFullAddr \<lparr>na_addr = buf, na_port = int (unat (ntohs (sin_port sa))), na_full_addr = []\<rparr>))"

definition FullAddress :: "net_address \<Rightarrow> string" where
  "FullAddress a = na_full_addr a"

text \<open>The port goes from \<open>int\<close> to \<open>uint16_t\<close> as the argument of \<open>htons\<close>.\<close>

definition ToSockAddr :: "net_address \<Rightarrow> sockaddr_in result" where
  "ToSockAddr a =
     (case inet_pton (c_str (na_addr a)) of
        None \<Rightarrow> Inl Check_failed
      | Some ip \<Rightarrow> Inr \<lparr>sin_family = AF_INET, sin_port = htons (word_of_int (na_port a)), sin_addr = ip\<rparr>)"

text \<open>What \<open>getsockname\<close> and \<open>getpeername\<close> answered.\<close>

definition GetLocalAddr :: "sockaddr_in option \<Rightarrow> net_address result" where
  "GetLocalAddr answer = (case answer of None \<Rightarrow> Inl Check_failed | Some sa \<Rightarrow> NetAddress_of_sockaddr sa)"

definition GetPeerAddr :: "sockaddr_in option \<Rightarrow> net_address result" where
  "GetPeerAddr answer = (case answer of None \<Rightarrow> Inl Check_failed | Some sa \<Rightarrow> NetAddress_of_sockaddr sa)"

section \<open>Laws of the C library\<close>

lemma ntohs_htons [simp]: "ntohs (htons p) = p"
  by (rule bit_word_eqI) (auto simp: ntohs_def htons_def bit_simps)

lemma length_decimal: "n < 10 ^ Suc k \<Longrightarrow> length (decimal n) \<le> Suc k"
proof (induction k arbitrary: n)
  case 0
  then show ?case by (subst decimal.simps) simp
next
  case (Suc k)
  then show ?case by (subst decimal.simps) (auto intro: Suc.IH)
qed

lemma length_dotted: "length (dotted a) < INET_ADDRSTRLEN"
proof -
  have l: "length (decimal (unat b)) \<le> 3" for b :: "8 word"
    using length_decimal [of "unat b" 2] unsigned_less [of b, where ?'a = nat] by simp
  obtain a1 a2 a3 a4 where "a = (a1, a2, a3, a4)" by (cases a)
  then show ?thesis using l [of a1] l [of a2] l [of a3] l [of a4] by (simp add: dotted_def INET_ADDRSTRLEN_def)
qed

lemma hd_decimal: "0 < n \<Longrightarrow> hd (decimal n) \<noteq> CHR ''0''"
proof (induction n rule: decimal.induct)
  case (1 n)
  show ?case
  proof (cases "n < 10")
    case True
    then have "decimal n = [char_of (48 + n)]" by (subst decimal.simps) simp
    moreover have "char_of (48 + n) \<noteq> (CHR ''0'')"
    proof
      assume "char_of (48 + n) = (CHR ''0'')"
      then have "of_char (char_of (48 + n) :: char) = (of_char (CHR ''0'') :: nat)" by simp
      then show False using True \<open>0 < n\<close> by simp
    qed
    ultimately show ?thesis by simp
  next
    case False
    then have "decimal n = decimal (n div 10) @ [char_of (48 + n mod 10)]" by (subst decimal.simps) simp
    moreover have "hd (decimal (n div 10)) \<noteq> CHR ''0''" using False by (intro 1(1)) simp_all
    ultimately show ?thesis by (simp add: hd_append)
  qed
qed

lemma octet_decimal [simp]: "octet (decimal (unat a)) = Some a"
proof -
  have "unat a < 256" using unsigned_less [of a, where ?'a = nat] by simp
  then have "length (decimal (unat a)) \<le> 3" using length_decimal [of "unat a" 2] by simp
  moreover have "decimal 0 = ''0''" by (simp add: decimal.simps char_of_def bit_numeral_rec bit_0)
  then have "hd (decimal (unat a)) = CHR ''0'' \<longrightarrow> decimal (unat a) = ''0''"
    using hd_decimal [of "unat a"] by (cases "unat a = 0") auto
  ultimately show ?thesis
    using \<open>unat a < 256\<close> by (simp add: octet_def digits_value_decimal)
qed

lemma dot_fields_dot: "CHR ''.'' \<notin> set x \<Longrightarrow> dot_fields (x @ CHR ''.'' # s) = x # dot_fields s"
  by (induction x) auto

lemma dot_fields_last: "CHR ''.'' \<notin> set x \<Longrightarrow> dot_fields x = [x]"
  by (induction x) auto

lemma decimal_no_dot: "CHR ''.'' \<notin> set (decimal n)" "CHR 0x00 \<notin> set (decimal n)"
  using decimal_digits [of n] by auto

lemma inet_pton_dotted [simp]: "inet_pton (dotted a) = Some a"
  by (cases a) (simp add: inet_pton_def dotted_def dot_fields_dot dot_fields_last decimal_no_dot)

lemma c_str_dotted [simp]: "c_str (dotted a) = dotted a"
  using decimal_no_dot(2) unfolding c_str_def by (intro takeWhile_eq_all_conv [THEN iffD2]) (auto simp: dotted_def split: prod.splits)

section \<open>Properties\<close>

lemma of_sockaddr: "NetAddress_of_sockaddr sa =
   Inr (NetAddress_of_text (dotted (sin_addr sa)) (int (unat (ntohs (sin_port sa)))))"
  by (simp add: NetAddress_of_sockaddr_def inet_ntop_def length_dotted NetAddress_of_text_def)

lemma of_text_parts [simp]:
  "na_addr (NetAddress_of_text ip port) = ip" "na_port (NetAddress_of_text ip port) = port"
  "FullAddress (NetAddress_of_text ip port) = ip @ '':'' @ signed_decimal port"
  by (simp_all add: NetAddress_of_text_def MakeFullAddr_def FullAddress_def)

lemma htons_ntohs [simp]: "htons (ntohs p) = p"
  by (rule bit_word_eqI) (auto simp: ntohs_def htons_def bit_simps)

text \<open>C20: an address taken from a socket always has a text (the buffer of \<open>inet_ntop\<close> is large
  enough), and going back from that text gives the same address and port.\<close>

theorem sockaddr_roundtrip:
  assumes "sin_family sa = AF_INET"
  shows "\<exists>a. NetAddress_of_sockaddr sa = Inr a \<and> ToSockAddr a = Inr sa"
  using assms by (intro exI [of _ "NetAddress_of_text (dotted (sin_addr sa)) (int (unat (ntohs (sin_port sa))))"])
    (simp add: of_sockaddr ToSockAddr_def)

theorem sockaddr_roundtrip_witness:
  "\<exists>a. NetAddress_of_sockaddr \<lparr>sin_family = AF_INET, sin_port = htons 9999, sin_addr = (1, 2, 4, 8)\<rparr> = Inr a \<and>
     ToSockAddr a = Inr \<lparr>sin_family = AF_INET, sin_port = htons 9999, sin_addr = (1, 2, 4, 8)\<rparr>"
  by (rule sockaddr_roundtrip) simp

text \<open>The port of an address made from text is not checked: a socket gets it modulo \<open>2 ^ 16\<close>, so
  the port used is the one shown in the text exactly when it is in the range of ports.\<close>

theorem ToSockAddr_port_wraps:
  assumes "inet_pton (c_str ip) = Some q"
  shows "\<exists>sa. ToSockAddr (NetAddress_of_text ip port) = Inr sa \<and> sin_addr sa = q \<and>
     int (unat (ntohs (sin_port sa))) = port mod 2 ^ 16 \<and>
     (int (unat (ntohs (sin_port sa))) = port \<longleftrightarrow> 0 \<le> port \<and> port < 2 ^ 16)"
proof -
  have "int (unat (word_of_int port :: 16 word)) = port mod 2 ^ 16"
    by (simp add: unsigned_of_int take_bit_eq_mod)
  moreover have "port mod 2 ^ 16 = port \<longleftrightarrow> 0 \<le> port \<and> port < 2 ^ 16"
    by (metis Euclidean_Rings.pos_mod_bound Euclidean_Rings.pos_mod_sign mod_pos_pos_trivial zero_less_numeral zero_less_power)
  ultimately show ?thesis using assms by (simp add: ToSockAddr_def)
qed

theorem ToSockAddr_port_wraps_witness:
  "\<exists>sa. ToSockAddr (NetAddress_of_text (dotted (127, 0, 0, 1)) 65616) = Inr sa \<and> sin_addr sa = (127, 0, 0, 1) \<and>
     int (unat (ntohs (sin_port sa))) = 65616 mod 2 ^ 16 \<and>
     (int (unat (ntohs (sin_port sa))) = 65616 \<longleftrightarrow> 0 \<le> (65616 :: int) \<and> (65616 :: int) < 2 ^ 16)"
  by (rule ToSockAddr_port_wraps) simp

text \<open>An address that is not a dotted quadruple ends the process.\<close>

theorem ToSockAddr_needs_quad: "inet_pton (c_str ip) = None \<Longrightarrow> ToSockAddr (NetAddress_of_text ip port) = Inl Check_failed"
  by (simp add: ToSockAddr_def)

end
