(* ===== verification/Tcp_Connection.thy ===== *)
theory Tcp_Connection
  imports Event_Loop Io_Buffer Net_Address
begin

unbundle bit_operations_syntax

text \<open>
  The connection (include/fx_tcp_connection.h, src/fx_tcp_connection.cc) in the thread of its
  loop. Connections live in a store, a connection's number is its address and that of its
  channel. The answers of the operating system are a parameter, \<open>os_net\<close>: the \<open>n\<close>-th call
  gets the \<open>n\<close>-th answer, so every behaviour of the network is one value of it. What was done
  to the sockets is the list \<open>net_log\<close>. The callbacks a user sets are functions of the state,
  the record \<open>user_calls\<close>; the connection says which of them are set.
\<close>

section \<open>State\<close>

datatype sock_errno = EAGAIN | EWOULDBLOCK | Other_error

definition would_block :: "sock_errno \<Rightarrow> bool" where
  "would_block e \<longleftrightarrow> e = EAGAIN \<or> e = EWOULDBLOCK"

text \<open>
  \<open>os_readv\<close> gets the room in the two areas, \<open>os_write\<close> and \<open>os_sendfile\<close> the number of bytes
  offered; \<open>os_shutdown\<close>, \<open>os_fcntl\<close>, \<open>os_bind\<close> and \<open>os_listen\<close> tell whether the call succeeds,
  \<open>os_getsockname\<close> and \<open>os_getpeername\<close> give an address if they do, \<open>os_connect\<close> one of three answers,
  \<open>os_so_error\<close> is the pending error of a socket, \<open>os_socket\<close> and \<open>os_accept\<close> give a descriptor
  or \<open>-1\<close>. \<open>os_address\<close> is the address of the next object that is made, \<open>os_now\<close> the time of the clock.
\<close>

datatype connect_answer = Connect_ok | Connect_in_progress | Connect_failed

record os_net =
  os_readv :: "nat \<Rightarrow> nat \<Rightarrow> sock_errno + string"
  os_write :: "nat \<Rightarrow> nat \<Rightarrow> sock_errno + nat"
  os_sendfile :: "nat \<Rightarrow> nat \<Rightarrow> sock_errno + nat"
  os_shutdown :: "nat \<Rightarrow> bool"
  os_so_error :: "nat \<Rightarrow> int"
  os_getsockname :: "nat \<Rightarrow> int \<Rightarrow> sockaddr_in option"
  os_getpeername :: "nat \<Rightarrow> int \<Rightarrow> sockaddr_in option"
  os_socket :: "nat \<Rightarrow> int"
  os_bind :: "nat \<Rightarrow> int \<Rightarrow> sockaddr_in \<Rightarrow> bool"
  os_connect :: "nat \<Rightarrow> int \<Rightarrow> sockaddr_in \<Rightarrow> connect_answer"
  os_listen :: "nat \<Rightarrow> int \<Rightarrow> bool"
  os_accept :: "nat \<Rightarrow> int"
  os_fcntl :: "nat \<Rightarrow> int \<Rightarrow> bool"
  os_address :: "nat \<Rightarrow> nat"
  os_now :: "nat \<Rightarrow> nat"

datatype net_event =
    Wrote int string
  | Sent_file int int int nat
  | Shut_read int
  | Shut_write int
  | Fd_closed int

datatype tcp_state = kConnecting | kConnected | kDisconnected

datatype conn_callback = On_connected_to_peer | On_read_from_peer | On_write_to_peer | On_handle_error

text \<open>What can wait in the loop's queue.\<close>

datatype loop_functor =
    F_enable_reading nat
  | F_enable_writing nat
  | F_destroy nat
  | F_handle_close int
  | F_new_connection nat
  | F_closed_connection nat
  | F_listen
  | F_connect string int
  | F_say_goodbye nat

record 'x connection =
  c_fd :: int
  c_state :: tcp_state
  c_rcb :: bool
  c_ccb :: bool
  c_connected_cb :: bool
  c_wdcb :: bool
  c_channel :: "conn_callback channel"
  c_local_addr :: "net_address option"
  c_peer_addr :: "net_address option"
  c_read_buf :: buffer
  c_write_buf :: buffer
  c_zc_fd :: int
  c_zc_offset :: int
  c_zc_len :: nat
  c_zc_writed :: nat
  c_ctx :: "'x option"

record 'x world = "loop_functor event_loop" +
  conns :: "nat \<rightharpoonup> 'x connection"
  os_calls :: nat
  net_log :: "net_event list"

text \<open>The user's callbacks; the close callback gets the descriptor.\<close>

record ('x, 'z) user_calls =
  call_read :: "nat \<Rightarrow> ('x, 'z) world_scheme \<Rightarrow> ('x, 'z) world_scheme run"
  call_close :: "int \<Rightarrow> ('x, 'z) world_scheme \<Rightarrow> ('x, 'z) world_scheme run"
  call_connected :: "nat \<Rightarrow> ('x, 'z) world_scheme \<Rightarrow> ('x, 'z) world_scheme run"
  call_write_done :: "nat \<Rightarrow> ('x, 'z) world_scheme \<Rightarrow> ('x, 'z) world_scheme run"

section \<open>Access to the store\<close>

definition with_conn :: "nat \<Rightarrow> ('x connection \<Rightarrow> ('x, 'z) world_scheme \<Rightarrow> 'a run) \<Rightarrow> ('x, 'z) world_scheme \<Rightarrow> 'a run" where
  "with_conn c f w = (case conns w c of None \<Rightarrow> Some (Inl Null_dereference) | Some k \<Rightarrow> f k w)"

definition set_conn :: "nat \<Rightarrow> 'x connection \<Rightarrow> ('x, 'z) world_scheme \<Rightarrow> ('x, 'z) world_scheme" where
  "set_conn c k w = w\<lparr>conns := (conns w)(c \<mapsto> k)\<rparr>"

definition log_net :: "net_event \<Rightarrow> ('x, 'z) world_scheme \<Rightarrow> ('x, 'z) world_scheme" where
  "log_net e w = w\<lparr>net_log := net_log w @ [e]\<rparr>"

definition count_call :: "('x, 'z) world_scheme \<Rightarrow> ('x, 'z) world_scheme" where
  "count_call w = w\<lparr>os_calls := Suc (os_calls w)\<rparr>"

text \<open>An operation of the channel of a connection, and a user's callback if it is set.\<close>

definition on_channel ::
  "(conn_callback channel \<Rightarrow> ('x, 'z) world_scheme \<Rightarrow> (conn_callback channel \<times> ('x, 'z) world_scheme) result) \<Rightarrow>
   nat \<Rightarrow> ('x, 'z) world_scheme \<Rightarrow> ('x, 'z) world_scheme run" where
  "on_channel f c = with_conn c (\<lambda>k w.
     then_run (Some (f (c_channel k) w)) (\<lambda>(ch, w1). Some (Inr (set_conn c (k\<lparr>c_channel := ch\<rparr>) w1))))"

definition call_user :: "bool \<Rightarrow> ('s \<Rightarrow> 's run) \<Rightarrow> 's \<Rightarrow> 's run" where
  "call_user is_set f w = (if is_set then f w else Some (Inr w))"

text \<open>\<open>fx::socketop\<close>: each call with its \<open>PCHECK\<close>. The two calls of \<open>fcntl\<close> have one answer.\<close>

definition socketop_SetNonblocking :: "os_net \<Rightarrow> int \<Rightarrow> ('x, 'z) world_scheme \<Rightarrow> ('x, 'z) world_scheme run" where
  "socketop_SetNonblocking os fd w =
     (if os_fcntl os (os_calls w) fd then Some (Inr (count_call w)) else Some (Inl Check_failed))"

definition socketop_DisableReading :: "os_net \<Rightarrow> int \<Rightarrow> ('x, 'z) world_scheme \<Rightarrow> ('x, 'z) world_scheme run" where
  "socketop_DisableReading os fd w =
     (if os_shutdown os (os_calls w) then Some (Inr (log_net (Shut_read fd) (count_call w)))
      else Some (Inl Check_failed))"

definition socketop_DisableWriting :: "os_net \<Rightarrow> int \<Rightarrow> ('x, 'z) world_scheme \<Rightarrow> ('x, 'z) world_scheme run" where
  "socketop_DisableWriting os fd w =
     (if os_shutdown os (os_calls w) then Some (Inr (log_net (Shut_write fd) (count_call w)))
      else Some (Inl Check_failed))"

section \<open>Setting up\<close>

definition ClearZeroCopyWrite :: "'x connection \<Rightarrow> 'x connection" where
  "ClearZeroCopyWrite k = k\<lparr>c_zc_fd := - 1, c_zc_offset := 0, c_zc_len := 0, c_zc_writed := 0\<rparr>"

text \<open>\<open>n\<close> is the number of the system call.\<close>

definition GetAddress :: "os_net \<Rightarrow> nat \<Rightarrow> 'x connection \<Rightarrow> 'x connection result" where
  "GetAddress os n k =
     asserting (c_state k = kConnected \<and> c_local_addr k = None \<and> c_peer_addr k = None)
       (andthen (GetLocalAddr (os_getsockname os n (c_fd k))) (\<lambda>la.
        andthen (GetPeerAddr (os_getpeername os n (c_fd k))) (\<lambda>pa.
          Inr (k\<lparr>c_local_addr := Some la, c_peer_addr := Some pa\<rparr>))))"

text \<open>The functors that enable a channel, run at once in the loop's thread.\<close>

definition run_channel_functor :: "loop_functor \<Rightarrow> ('x, 'z) world_scheme \<Rightarrow> ('x, 'z) world_scheme run" where
  "run_channel_functor f =
     (case f of
        F_enable_reading c \<Rightarrow> on_channel Channel_EnableReading c
      | F_enable_writing c \<Rightarrow> on_channel Channel_EnableWriting c
      | _ \<Rightarrow> (\<lambda>w. Some (Inr w)))"

definition new_connection :: "nat \<Rightarrow> int \<Rightarrow> tcp_state \<Rightarrow> 'x connection" where
  "new_connection c fd st =
     \<lparr>c_fd = fd, c_state = st, c_rcb = False, c_ccb = False, c_connected_cb = False, c_wdcb = False,
      c_channel = Channel_init c fd, c_local_addr = None, c_peer_addr = None,
      c_read_buf = Buffer_init kDefaultReservedSize, c_write_buf = Buffer_init kDefaultReservedSize,
      c_zc_fd = - 1, c_zc_offset = 0, c_zc_len = 0, c_zc_writed = 0, c_ctx = None\<rparr>"

definition TcpConnection_init ::
  "os_net \<Rightarrow> nat \<Rightarrow> int \<Rightarrow> tcp_state \<Rightarrow> ('x, 'z) world_scheme \<Rightarrow> ('x, 'z) world_scheme run" where
  "TcpConnection_init os c fd st w =
     (let k = ClearZeroCopyWrite (new_connection c fd st) in
      then_run
        (case st of
           kConnecting \<Rightarrow>
             RunInLoop run_channel_functor (F_enable_writing c)
               (set_conn c (k\<lparr>c_channel := (c_channel k)\<lparr>ch_wcb := Some On_connected_to_peer\<rparr>\<rparr>) w)
         | kConnected \<Rightarrow>
             then_run (Some (GetAddress os (os_calls w)
               (k\<lparr>c_channel := (c_channel k)\<lparr>ch_rcb := Some On_read_from_peer, ch_wcb := Some On_write_to_peer\<rparr>\<rparr>)))
               (\<lambda>k1. Some (Inr (set_conn c k1 w)))
         | kDisconnected \<Rightarrow> Some (Inl Assertion_failed))
        (with_conn c (\<lambda>k w1. Some (Inr
           (set_conn c (k\<lparr>c_channel := (c_channel k)\<lparr>ch_ecb := Some On_handle_error\<rparr>\<rparr>) w1)))))"

definition StartReading :: "nat \<Rightarrow> ('x, 'z) world_scheme \<Rightarrow> ('x, 'z) world_scheme run" where
  "StartReading c = RunInLoop run_channel_functor (F_enable_reading c)"

definition set_context :: "nat \<Rightarrow> 'x \<Rightarrow> ('x, 'z) world_scheme \<Rightarrow> ('x, 'z) world_scheme run" where
  "set_context c x = with_conn c (\<lambda>k w. Some (Inr (set_conn c (k\<lparr>c_ctx := Some x\<rparr>) w)))"

definition clear_context :: "nat \<Rightarrow> ('x, 'z) world_scheme \<Rightarrow> ('x, 'z) world_scheme run" where
  "clear_context c = with_conn c (\<lambda>k w. Some (Inr (set_conn c (k\<lparr>c_ctx := None\<rparr>) w)))"

definition set_write_done_callback :: "nat \<Rightarrow> ('x, 'z) world_scheme \<Rightarrow> ('x, 'z) world_scheme run" where
  "set_write_done_callback c = with_conn c (\<lambda>k w. Some (Inr (set_conn c (k\<lparr>c_wdcb := True\<rparr>) w)))"

definition conn_closed :: "'x connection \<Rightarrow> bool" where
  "conn_closed k \<longleftrightarrow> c_state k = kDisconnected"

section \<open>Writing\<close>

text \<open>The three overloads of \<open>Write\<close> end in this one.\<close>

definition TcpConnection_Write :: "nat \<Rightarrow> string \<Rightarrow> ('x, 'z) world_scheme \<Rightarrow> ('x, 'z) world_scheme run" where
  "TcpConnection_Write c buf w =
     (if InLoopThread w then
        with_conn c (\<lambda>k w.
          then_run (Some (Buffer_Append (c_write_buf k) buf)) (\<lambda>b.
            on_channel Channel_EnableWriting c (set_conn c (k\<lparr>c_write_buf := b\<rparr>) w))) w
      else Some (Inl Assertion_failed))"

definition ZeroCopyWrite :: "nat \<Rightarrow> int \<Rightarrow> int \<Rightarrow> nat \<Rightarrow> ('x, 'z) world_scheme \<Rightarrow> ('x, 'z) world_scheme run" where
  "ZeroCopyWrite c fd off len = with_conn c (\<lambda>k w. Some (Inr (set_conn c
     (k\<lparr>c_zc_fd := fd, c_zc_offset := off, c_zc_len := len, c_zc_writed := 0\<rparr>) w)))"

section \<open>Closing\<close>

definition ActiveClose ::
  "os_net \<Rightarrow> ('x, 'z) user_calls \<Rightarrow> nat \<Rightarrow> ('x, 'z) world_scheme \<Rightarrow> ('x, 'z) world_scheme run" where
  "ActiveClose os u c = with_conn c (\<lambda>k w.
     then_run
       (case c_state k of
          kDisconnected \<Rightarrow> Some (Inl Assertion_failed)
        | kConnected \<Rightarrow>
            then_run (on_channel Channel_DisableReading c w) (socketop_DisableReading os (c_fd k))
        | kConnecting \<Rightarrow> on_channel Channel_DisableWriting c w)
     (\<lambda>w1. with_conn c (\<lambda>k1 w1.
       call_user (c_ccb k1) (call_close u (c_fd k1)) (set_conn c (k1\<lparr>c_state := kDisconnected\<rparr>) w1)) w1))"

definition PassiveClose ::
  "os_net \<Rightarrow> ('x, 'z) user_calls \<Rightarrow> nat \<Rightarrow> ('x, 'z) world_scheme \<Rightarrow> ('x, 'z) world_scheme run" where
  "PassiveClose os u c = with_conn c (\<lambda>k w.
     if c_state k = kDisconnected then Some (Inr w)
     else
       then_run (on_channel Channel_DisableReading c (set_conn c (k\<lparr>c_state := kDisconnected\<rparr>) w)) (\<lambda>w1.
       then_run (on_channel Channel_DisableWriting c w1) (\<lambda>w2.
       call_user (c_ccb k) (call_close u (c_fd k)) w2)))"

definition TcpConnection_Destroy :: "os_net \<Rightarrow> nat \<Rightarrow> ('x, 'z) world_scheme \<Rightarrow> ('x, 'z) world_scheme run" where
  "TcpConnection_Destroy os c = with_conn c (\<lambda>k w.
     if c_state k = kDisconnected \<and> InLoopThread w then
       then_run (socketop_DisableWriting os (c_fd k) w) (\<lambda>w1.
         Some (EventLoop_RemoveChannel (c_channel k) w1))
     else Some (Inl Assertion_failed))"

text \<open>
  The destructor, run when the last pointer to the connection goes: the descriptor is closed,
  then the channel deleted, which asserts that it is not handling events.
\<close>

definition TcpConnection_delete :: "nat \<Rightarrow> ('x, 'z) world_scheme \<Rightarrow> ('x, 'z) world_scheme run" where
  "TcpConnection_delete c = with_conn c (\<lambda>k w.
     if ch_handling_events (c_channel k) then Some (Inl Assertion_failed)
     else Some (Inr (log_net (Fd_closed (c_fd k)) (w\<lparr>conns := (conns w)(c := None)\<rparr>))))"

section \<open>Events\<close>

definition local_buf_len :: nat where
  "local_buf_len = 65536"

text \<open>\<open>Append(buf, len)\<close> from a local array: a length beyond the array is refused by the checks of
  \<open>Append\<close>, or read past the array's end.\<close>

definition Append_array :: "buffer \<Rightarrow> string \<Rightarrow> nat \<Rightarrow> buffer result" where
  "Append_array b arr len =
     (if len \<le> length arr then Buffer_Append b (take len arr)
      else andthen (EnsureSpace b len) (\<lambda>b1. andthen (BytesCanWrite b1) (\<lambda>n.
        asserting (len \<le> n) (Inl Out_of_bounds))))"

text \<open>
  What \<open>readv\<close> returned goes to the buffer: \<open>data\<close> was put behind the write index first, the
  rest into the local array. A failed call is the return value \<open>-1\<close>, whose conversion to
  \<open>size_t\<close> is \<open>2 ^ 64 - 1\<close>.
\<close>

definition take_input :: "buffer \<Rightarrow> nat \<Rightarrow> string \<Rightarrow> nat \<Rightarrow> buffer result" where
  "take_input b bytes_left data bytes_read =
     (let b0 = write_direct b (take bytes_left data);
          arr = drop bytes_left data @ replicate (local_buf_len - length (drop bytes_left data)) (CHR 0x00)
      in if bytes_left < bytes_read then
           andthen (AddBytes b0 bytes_left) (\<lambda>b1. Append_array b1 arr (bytes_read - bytes_left))
         else AddBytes b0 bytes_read)"

definition ReadFromPeer ::
  "os_net \<Rightarrow> ('x, 'z) user_calls \<Rightarrow> nat \<Rightarrow> ('x, 'z) world_scheme \<Rightarrow> ('x, 'z) world_scheme run" where
  "ReadFromPeer os u c w =
     (if InLoopThread w then
        with_conn c (\<lambda>k w.
          then_run (Some (BytesCanWrite (c_read_buf k))) (\<lambda>bytes_left.
          let res = os_readv os (os_calls w) (bytes_left + local_buf_len);
              w1 = count_call w;
              received = (\<lambda>data bytes_read.
                then_run (Some (take_input (c_read_buf k) bytes_left data bytes_read)) (\<lambda>b.
                  call_user (c_rcb k) (call_read u c) (set_conn c (k\<lparr>c_read_buf := b\<rparr>) w1)))
          in case res of
               Inl e \<Rightarrow> if would_block e then received [] (2 ^ 64 - 1) else PassiveClose os u c w1
             | Inr data \<Rightarrow> if data = [] then PassiveClose os u c w1 else received data (length data))) w
      else Some (Inl Assertion_failed))"

text \<open>The first loop of \<open>WriteToPeer\<close>; the result is \<open>bytes_to_read\<close> after it.\<close>

partial_function (option) write_loop ::
  "os_net \<Rightarrow> ('x, 'z) user_calls \<Rightarrow> nat \<Rightarrow> nat \<Rightarrow> ('x, 'z) world_scheme \<Rightarrow> (fault + nat \<times> ('x, 'z) world_scheme) option" where
  "write_loop os u c n w =
     (if n = 0 then Some (Inr (0, w))
      else case conns w c of
        None \<Rightarrow> Some (Inl Null_dereference)
      | Some k \<Rightarrow>
          then_run (Some (ReadRange (c_write_buf k))) (\<lambda>bytes.
          case os_write os (os_calls w) n of
            Inl e \<Rightarrow>
              if would_block e \<or> c_state k = kDisconnected then Some (Inr (n, count_call w))
              else then_run (ActiveClose os u c (count_call w)) (\<lambda>w1. Some (Inr (n, w1)))
          | Inr m \<Rightarrow>
              then_run (Some (ConsumeBytes (c_write_buf k) m)) (\<lambda>b.
              then_run (Some (BytesToRead b)) (\<lambda>n'.
              write_loop os u c n'
                (set_conn c (k\<lparr>c_write_buf := b\<rparr>) (log_net (Wrote (c_fd k) (take m bytes)) (count_call w)))))))"

text \<open>The second loop, which sends the file; \<open>sendfile\<close> moves the offset.\<close>

partial_function (option) sendfile_loop ::
  "os_net \<Rightarrow> ('x, 'z) user_calls \<Rightarrow> nat \<Rightarrow> ('x, 'z) world_scheme \<Rightarrow> (fault + ('x, 'z) world_scheme) option" where
  "sendfile_loop os u c w =
     (case conns w c of
        None \<Rightarrow> Some (Inl Null_dereference)
      | Some k \<Rightarrow>
          if c_zc_fd k = - 1 \<or> c_zc_writed k = c_zc_len k then Some (Inr w)
          else if c_zc_len k < c_zc_writed k then Some (Inl Assertion_failed)
          else case os_sendfile os (os_calls w) (c_zc_len k - c_zc_writed k) of
            Inl e \<Rightarrow>
              if would_block e \<or> c_state k = kDisconnected then Some (Inr (count_call w))
              else ActiveClose os u c (count_call w)
          | Inr m \<Rightarrow>
              if c_zc_len k - c_zc_writed k < m then Some (Inl Assertion_failed)
              else sendfile_loop os u c
                (set_conn c (k\<lparr>c_zc_offset := c_zc_offset k + int m, c_zc_writed := c_zc_writed k + m\<rparr>)
                  (log_net (Sent_file (c_fd k) (c_zc_fd k) (c_zc_offset k) m) (count_call w))))"

definition WriteToPeer ::
  "os_net \<Rightarrow> ('x, 'z) user_calls \<Rightarrow> nat \<Rightarrow> ('x, 'z) world_scheme \<Rightarrow> ('x, 'z) world_scheme run" where
  "WriteToPeer os u c w =
     (if InLoopThread w then
        with_conn c (\<lambda>k w.
          then_run (Some (BytesToRead (c_write_buf k))) (\<lambda>n.
          then_run (write_loop os u c n w) (\<lambda>(n1, w1).
          then_run (sendfile_loop os u c w1) (\<lambda>w2.
          with_conn c (\<lambda>k2 w2.
            if n1 = 0 \<and> (c_zc_fd k2 = - 1 \<or> c_zc_len k2 = c_zc_writed k2) then
              then_run (on_channel Channel_DisableWriting c
                 (set_conn c (if c_zc_fd k2 \<noteq> - 1 then ClearZeroCopyWrite k2 else k2) w2)) (\<lambda>w3.
              call_user (c_wdcb k2) (call_write_done u c) w3)
            else Some (Inr w2)) w2)))) w
      else Some (Inl Assertion_failed))"

definition ConnectedToPeer ::
  "os_net \<Rightarrow> ('x, 'z) user_calls \<Rightarrow> nat \<Rightarrow> ('x, 'z) world_scheme \<Rightarrow> ('x, 'z) world_scheme run" where
  "ConnectedToPeer os u c = with_conn c (\<lambda>k w.
     if c_state k \<noteq> kConnecting then Some (Inl Assertion_failed)
     else if os_so_error os (os_calls w) \<noteq> 0 then ActiveClose os u c (count_call w)
     else
       then_run (Some (GetAddress os (os_calls w) (k\<lparr>c_state := kConnected\<rparr>))) (\<lambda>k1.
       then_run (on_channel Channel_EnableReading c (set_conn c k1 (count_call w))) (\<lambda>w1.
       with_conn c (\<lambda>k2 w2.
         then_run (on_channel Channel_DisableWriting c
           (set_conn c (k2\<lparr>c_channel := (c_channel k2)\<lparr>ch_rcb := Some On_read_from_peer\<rparr>\<rparr>) w2)) (\<lambda>w3.
         with_conn c (\<lambda>k4 w4.
           call_user (c_connected_cb k4) (call_connected u c)
             (set_conn c (k4\<lparr>c_channel := (c_channel k4)\<lparr>ch_wcb := Some On_write_to_peer\<rparr>\<rparr>) w4)) w3)) w1)))"

text \<open>\<open>HandleError\<close> only writes a log line.\<close>

definition HandleError :: "('x, 'z) world_scheme \<Rightarrow> ('x, 'z) world_scheme run" where
  "HandleError w = Some (Inr w)"

definition run_callback ::
  "os_net \<Rightarrow> ('x, 'z) user_calls \<Rightarrow> nat \<Rightarrow> conn_callback \<Rightarrow> ('x, 'z) world_scheme \<Rightarrow> ('x, 'z) world_scheme run" where
  "run_callback os u c h =
     (case h of
        On_connected_to_peer \<Rightarrow> ConnectedToPeer os u c
      | On_read_from_peer \<Rightarrow> ReadFromPeer os u c
      | On_write_to_peer \<Rightarrow> WriteToPeer os u c
      | On_handle_error \<Rightarrow> HandleError)"

text \<open>The events of a connection's channel, as the loop hands them to it.\<close>

definition handle_channel ::
  "os_net \<Rightarrow> ('x, 'z) user_calls \<Rightarrow> nat \<times> 32 word \<Rightarrow> ('x, 'z) world_scheme \<Rightarrow> ('x, 'z) world_scheme run" where
  "handle_channel os u active =
     (case active of (c, ev) \<Rightarrow> with_conn c (\<lambda>k w.
        HandleEvents (\<lambda>s. c_channel (the (conns s c)))
          (\<lambda>g s. case conns s c of None \<Rightarrow> s | Some k \<Rightarrow> set_conn c (k\<lparr>c_channel := g (c_channel k)\<rparr>) s)
          (run_callback os u c)
          (set_conn c (k\<lparr>c_channel := (c_channel k)\<lparr>ch_revents := ev\<rparr>\<rparr>) w)))"

end
