(* ===== verification/Tcp_Server.thy ===== *)
theory Tcp_Server
  imports Tcp_Connection
begin

text \<open>
  The server side (include/fx_tcp_server.h, src/fx_tcp_server.cc), its acceptor
  (src/fx_acceptor.cc) and the pool of loop threads (src/fx_event_loop_thread_pool.cc), in the
  thread of the base loop. A loop of the pool is named by its index; what is handed to it is
  the list \<open>posted\<close>.
\<close>

section \<open>The pool of loops\<close>

datatype loop_ref = Base_loop | Pool_loop nat

record loop_pool =
  loop_thread_count :: nat
  next_loop :: nat
  loops :: "loop_ref list"

definition EventLoopThreadPool_init :: loop_pool where
  "EventLoopThreadPool_init = \<lparr>loop_thread_count = 0, next_loop = 0, loops = []\<rparr>"

definition SetLoopThreadCount :: "nat \<Rightarrow> loop_pool \<Rightarrow> loop_pool" where
  "SetLoopThreadCount n p = p\<lparr>loop_thread_count := n\<rparr>"

definition LoopPool_Start :: "loop_pool \<Rightarrow> loop_pool" where
  "LoopPool_Start p =
     (if loop_thread_count p \<noteq> 0 then p\<lparr>loops := loops p @ map Pool_loop [0 ..< loop_thread_count p]\<rparr> else p)"

definition NextLoop :: "loop_pool \<Rightarrow> (loop_ref \<times> loop_pool) result" where
  "NextLoop p =
     (if loop_thread_count p = 0 then Inr (Base_loop, p)
      else
        let idx = next_loop p;
            n = (idx + 1) mod 2 ^ 32;
            p1 = p\<lparr>next_loop := (if n = loop_thread_count p then 0 else n)\<rparr>
        in asserting (idx < length (loops p)) (Inr (loops p ! idx, p1)))"

section \<open>The server\<close>

text \<open>The acceptor: its channel has the callback \<open>Acceptor::NewConnetion\<close> when it has one.\<close>

record acceptor =
  ac_listen_fd :: int
  ac_channel :: "unit channel option"
  ac_nccb :: bool

text \<open>The loop of a connection is kept beside the connection's address.\<close>

record 'x server_world = "'x world" +
  srv_local_addr :: net_address
  srv_acceptor :: acceptor
  srv_connections :: "int \<rightharpoonup> nat"
  srv_conn_loop :: "nat \<Rightarrow> loop_ref"
  srv_pool :: loop_pool
  srv_rcb :: bool
  srv_cccb :: bool
  srv_nccb :: bool
  posted :: "(nat \<times> loop_functor) list"

text \<open>What the user of the server gives it: the callbacks of the server, the write-done callback of
  its connections, and what its timers call.\<close>

record ('x, 'z) server_calls =
  on_read :: "nat \<Rightarrow> ('x, 'z) server_world_scheme \<Rightarrow> ('x, 'z) server_world_scheme run"
  on_write_done :: "nat \<Rightarrow> ('x, 'z) server_world_scheme \<Rightarrow> ('x, 'z) server_world_scheme run"
  on_new :: "nat \<Rightarrow> ('x, 'z) server_world_scheme \<Rightarrow> ('x, 'z) server_world_scheme run"
  on_timer :: "nat \<Rightarrow> ('x, 'z) server_world_scheme \<Rightarrow> ('x, 'z) server_world_scheme run"
  on_closed :: "nat \<Rightarrow> ('x, 'z) server_world_scheme \<Rightarrow> ('x, 'z) server_world_scheme run"

section \<open>The acceptor\<close>

text \<open>\<open>unset\<close> is what \<open>listen_fd_\<close> holds before \<open>BindOrAbort\<close>.\<close>

definition Acceptor_init :: "int \<Rightarrow> acceptor" where
  "Acceptor_init unset = \<lparr>ac_listen_fd = unset, ac_channel = None, ac_nccb = False\<rparr>"

definition set_new_connection_callback :: "acceptor \<Rightarrow> acceptor" where
  "set_new_connection_callback a = a\<lparr>ac_nccb := True\<rparr>"

text \<open>The results of \<open>socket\<close> and \<open>setsockopt\<close> are not looked at.\<close>

definition BindOrAbort :: "os_net \<Rightarrow> net_address \<Rightarrow> ('x, 'z) server_world_scheme \<Rightarrow> ('x, 'z) server_world_scheme run" where
  "BindOrAbort os local_addr w =
     (let fd = os_socket os (os_calls w);
          w1 = (count_call w)\<lparr>srv_acceptor := (srv_acceptor w)\<lparr>ac_listen_fd := fd\<rparr>\<rparr> in
      then_run (Some (ToSockAddr local_addr)) (\<lambda>server_addr.
      if os_bind os (os_calls w1) fd server_addr then socketop_SetNonblocking os fd (count_call w1)
      else Some (Inl Check_failed)))"

definition Acceptor_Listen :: "os_net \<Rightarrow> ('x, 'z) server_world_scheme \<Rightarrow> ('x, 'z) server_world_scheme run" where
  "Acceptor_Listen os w =
     (if os_listen os (os_calls w) (ac_listen_fd (srv_acceptor w)) then
        let ch = Channel_init (os_address os (os_calls w)) (ac_listen_fd (srv_acceptor w)) in
        then_run (Some (Channel_EnableReading ch (count_call w))) (\<lambda>(ch1, w1).
          let ch2 = ch1\<lparr>ch_rcb := Some ()\<rparr> in
          Some (EventLoop_UpdateChannel ch2 (w1\<lparr>srv_acceptor := (srv_acceptor w1)\<lparr>ac_channel := Some ch2\<rparr>\<rparr>)))
      else Some (Inl Check_failed))"

text \<open>\<open>accept\<close> may fail and return \<open>-1\<close>, which goes to \<open>fcntl\<close> like a descriptor.\<close>

definition Acceptor_NewConnetion ::
  "os_net \<Rightarrow> (int \<Rightarrow> ('x, 'z) server_world_scheme \<Rightarrow> ('x, 'z) server_world_scheme run) \<Rightarrow>
   ('x, 'z) server_world_scheme \<Rightarrow> ('x, 'z) server_world_scheme run" where
  "Acceptor_NewConnetion os call_new w =
     (let client_fd = os_accept os (os_calls w) in
      then_run (socketop_SetNonblocking os client_fd (count_call w)) (\<lambda>w1.
        call_user (ac_nccb (srv_acceptor w1)) (call_new client_fd) w1))"

definition Acceptor_delete :: "('x, 'z) server_world_scheme \<Rightarrow> ('x, 'z) server_world_scheme run" where
  "Acceptor_delete w =
     (case ac_channel (srv_acceptor w) of
        None \<Rightarrow> Some (Inr w)
      | Some ch \<Rightarrow>
          then_run (Some (EventLoop_RemoveChannel ch w)) (\<lambda>w1.
            if ch_handling_events ch then Some (Inl Assertion_failed)
            else Some (Inr (log_net (Fd_closed (ch_fd ch))
                   (w1\<lparr>srv_acceptor := (srv_acceptor w1)\<lparr>ac_channel := None\<rparr>\<rparr>)))))"

section \<open>Operations of the server\<close>

text \<open>The constructor, and the callbacks the user sets.\<close>

definition TcpServer_init :: "net_address \<Rightarrow> int \<Rightarrow> ('x, 'z) server_world_scheme \<Rightarrow> ('x, 'z) server_world_scheme" where
  "TcpServer_init addr unset w =
     w\<lparr>srv_local_addr := addr, srv_acceptor := Acceptor_init unset, srv_connections := Map.empty, srv_pool := EventLoopThreadPool_init,
       srv_rcb := False, srv_cccb := False, srv_nccb := False\<rparr>"

definition server_set_read_callback :: "('x, 'z) server_world_scheme \<Rightarrow> ('x, 'z) server_world_scheme" where
  "server_set_read_callback w = w\<lparr>srv_rcb := True\<rparr>"

definition server_set_close_callback :: "('x, 'z) server_world_scheme \<Rightarrow> ('x, 'z) server_world_scheme" where
  "server_set_close_callback w = w\<lparr>srv_cccb := True\<rparr>"

definition server_set_new_callback :: "('x, 'z) server_world_scheme \<Rightarrow> ('x, 'z) server_world_scheme" where
  "server_set_new_callback w = w\<lparr>srv_nccb := True\<rparr>"

definition SetThreadNum :: "nat \<Rightarrow> ('x, 'z) server_world_scheme \<Rightarrow> ('x, 'z) server_world_scheme" where
  "SetThreadNum n w = (if n = 0 then w else w\<lparr>srv_pool := SetLoopThreadCount n (srv_pool w)\<rparr>)"

text \<open>\<open>RunInLoop\<close> and \<open>QueueInLoop\<close> of any loop, called in the thread of the base loop.\<close>

definition run_in_loop ::
  "(loop_functor \<Rightarrow> ('x, 'z) server_world_scheme \<Rightarrow> ('x, 'z) server_world_scheme run) \<Rightarrow> loop_ref \<Rightarrow> loop_functor \<Rightarrow>
   ('x, 'z) server_world_scheme \<Rightarrow> ('x, 'z) server_world_scheme run" where
  "run_in_loop exec lr f w =
     (case lr of
        Base_loop \<Rightarrow> RunInLoop exec f w
      | Pool_loop i \<Rightarrow> Some (Inr (w\<lparr>posted := posted w @ [(i, f)]\<rparr>)))"

definition queue_in_loop :: "loop_ref \<Rightarrow> loop_functor \<Rightarrow> ('x, 'z) server_world_scheme \<Rightarrow> ('x, 'z) server_world_scheme" where
  "queue_in_loop lr f w =
     (case lr of
        Base_loop \<Rightarrow> QueueInLoop f w
      | Pool_loop i \<Rightarrow> w\<lparr>posted := posted w @ [(i, f)]\<rparr>)"

text \<open>The user's callbacks as functors.\<close>

definition run_user_functor ::
  "('x, 'z) server_calls \<Rightarrow> loop_functor \<Rightarrow> ('x, 'z) server_world_scheme \<Rightarrow> ('x, 'z) server_world_scheme run" where
  "run_user_functor v f =
     (case f of
        F_new_connection c \<Rightarrow> on_new v c
      | F_closed_connection c \<Rightarrow> on_closed v c
      | F_say_goodbye c \<Rightarrow> on_timer v c
      | _ \<Rightarrow> run_channel_functor f)"

definition HandleConnectionClose ::
  "('x, 'z) server_calls \<Rightarrow> int \<Rightarrow> ('x, 'z) server_world_scheme \<Rightarrow> ('x, 'z) server_world_scheme run" where
  "HandleConnectionClose v fd w =
     (case srv_connections w fd of
        None \<Rightarrow> Some (Inl Assertion_failed)
      | Some c \<Rightarrow>
          let w1 = w\<lparr>srv_connections := (srv_connections w)(fd := None)\<rparr> in
          then_run
            (if srv_cccb w1 then run_in_loop (run_user_functor v) (srv_conn_loop w1 c) (F_closed_connection c) w1
             else Some (Inr w1))
            (\<lambda>w2. Some (Inr (queue_in_loop (srv_conn_loop w1 c) (F_destroy c) w2))))"

text \<open>
  Every functor the base loop can hold. The pointer in a \<open>Destroy\<close> functor is the last one to
  its connection, so the connection is deleted with the functor.
\<close>

definition run_functor ::
  "os_net \<Rightarrow> ('x, 'z) server_calls \<Rightarrow> loop_functor \<Rightarrow> ('x, 'z) server_world_scheme \<Rightarrow> ('x, 'z) server_world_scheme run" where
  "run_functor os v f =
     (case f of
        F_destroy c \<Rightarrow> (\<lambda>w. then_run (TcpConnection_Destroy os c w) (TcpConnection_delete c))
      | F_handle_close fd \<Rightarrow> HandleConnectionClose v fd
      | F_listen \<Rightarrow> Acceptor_Listen os
      | _ \<Rightarrow> run_user_functor v f)"

definition OnConnectionClosed ::
  "os_net \<Rightarrow> ('x, 'z) server_calls \<Rightarrow> int \<Rightarrow> ('x, 'z) server_world_scheme \<Rightarrow> ('x, 'z) server_world_scheme run" where
  "OnConnectionClosed os v fd = RunInLoop (run_functor os v) (F_handle_close fd)"

text \<open>What a connection of the server calls.\<close>

definition server_user_calls :: "os_net \<Rightarrow> ('x, 'z) server_calls \<Rightarrow> ('x, 'z server_world_ext) user_calls" where
  "server_user_calls os v =
     \<lparr>call_read = on_read v, call_close = OnConnectionClosed os v,
      call_connected = \<lambda>c w. Some (Inr w), call_write_done = on_write_done v\<rparr>"

text \<open>\<open>c\<close> is the address of the new connection.\<close>

definition TcpServer_OnNewConnection ::
  "os_net \<Rightarrow> ('x, 'z) server_calls \<Rightarrow> nat \<Rightarrow> int \<Rightarrow> ('x, 'z) server_world_scheme \<Rightarrow> ('x, 'z) server_world_scheme run" where
  "TcpServer_OnNewConnection os v c fd w =
     then_run (Some (NextLoop (srv_pool w))) (\<lambda>(lr, pool).
     then_run (TcpConnection_init os c fd kConnected
        (w\<lparr>srv_pool := pool, srv_conn_loop := (srv_conn_loop w)(c := lr)\<rparr>)) (\<lambda>w1.
     with_conn c (\<lambda>k w2.
       if srv_connections w2 fd \<noteq> None then Some (Inl Assertion_failed)
       else
         let w3 = (set_conn c (k\<lparr>c_rcb := srv_rcb w2, c_ccb := True\<rparr>) w2)
                    \<lparr>srv_connections := (srv_connections w2)(fd \<mapsto> c)\<rparr>
         in then_run
              (if srv_nccb w3 then run_in_loop (run_user_functor v) lr (F_new_connection c) w3 else Some (Inr w3))
              (run_in_loop run_channel_functor lr (F_enable_reading c))) w1))"

text \<open>The callback of the acceptor. \<open>make_shared\<close> gives the connection its address.\<close>

definition server_accept ::
  "os_net \<Rightarrow> ('x, 'z) server_calls \<Rightarrow> ('x, 'z) server_world_scheme \<Rightarrow> ('x, 'z) server_world_scheme run" where
  "server_accept os v =
     Acceptor_NewConnetion os (\<lambda>fd w. TcpServer_OnNewConnection os v (os_address os (os_calls w)) fd w)"

definition TcpServer_Start ::
  "os_net \<Rightarrow> ('x, 'z) server_calls \<Rightarrow> ('x, 'z) server_world_scheme \<Rightarrow> ('x, 'z) server_world_scheme run" where
  "TcpServer_Start os v w =
     then_run (BindOrAbort os (srv_local_addr w) (w\<lparr>srv_acceptor := set_new_connection_callback (srv_acceptor w)\<rparr>)) (\<lambda>w1.
       RunInLoop (run_functor os v) F_listen (w1\<lparr>srv_pool := LoopPool_Start (srv_pool w1)\<rparr>))"

section \<open>What the base loop does with an active channel\<close>

definition handle_acceptor ::
  "os_net \<Rightarrow> ('x, 'z) server_calls \<Rightarrow> 32 word \<Rightarrow> unit channel \<Rightarrow>
   ('x, 'z) server_world_scheme \<Rightarrow> ('x, 'z) server_world_scheme run" where
  "handle_acceptor os v ev ch w =
     HandleEvents (\<lambda>s. the (ac_channel (srv_acceptor s)))
       (\<lambda>g s. s\<lparr>srv_acceptor := (srv_acceptor s)\<lparr>ac_channel := map_option g (ac_channel (srv_acceptor s))\<rparr>\<rparr>)
       (\<lambda>_. server_accept os v)
       (w\<lparr>srv_acceptor := (srv_acceptor w)\<lparr>ac_channel := Some (ch\<lparr>ch_revents := ev\<rparr>)\<rparr>\<rparr>)"

text \<open>The address tells the wake-up channel, that of the acceptor and those of connections apart.\<close>

definition handle_active ::
  "unit channel \<Rightarrow> os_net \<Rightarrow> ('x, 'z) server_calls \<Rightarrow> nat \<times> 32 word \<Rightarrow>
   ('x, 'z) server_world_scheme \<Rightarrow> ('x, 'z) server_world_scheme run" where
  "handle_active wakeup os v active w =
     (case active of (p, ev) \<Rightarrow>
        if p = ch_ptr wakeup then handle_wakeup wakeup ev w
        else case ac_channel (srv_acceptor w) of
            Some ch \<Rightarrow> if p = ch_ptr ch then handle_acceptor os v ev ch w
                       else handle_channel os (server_user_calls os v) active w
          | None \<Rightarrow> handle_channel os (server_user_calls os v) active w)"

end
