(* ===== verification/Event_Loop_Laws.thy ===== *)
theory Event_Loop_Laws
  imports Event_Loop
begin

text \<open>
  What the poller and the event loop keep: the kernel's interest list is that of the
  channels, and a functor queued by another thread, a handler or a functor is never left
  behind by a loop that goes to sleep. A functor queued by a timer callback is.
\<close>

section \<open>The poller and the kernel\<close>

datatype 'h poller_op = Update_op "'h channel" | Remove_op "'h channel"

fun poller_run :: "'h poller_op list \<Rightarrow> poller \<Rightarrow> poller result" where
  "poller_run [] p = Inr p"
| "poller_run (Update_op ch # ops) p = poller_run ops (Poller_UpdateChannel ch p)"
| "poller_run (Remove_op ch # ops) p = andthen (Poller_RemoveChannel ch p) (poller_run ops)"

text \<open>The abstract registry: the events last set for each descriptor; \<open>None\<close> when a
  descriptor that is not registered is removed.\<close>

fun registered :: "'h poller_op list \<Rightarrow> (int \<rightharpoonup> 32 word) \<Rightarrow> (int \<rightharpoonup> 32 word) option" where
  "registered [] m = Some m"
| "registered (Update_op ch # ops) m = registered ops (m(ch_fd ch \<mapsto> ch_events ch))"
| "registered (Remove_op ch # ops) m =
     (if m (ch_fd ch) = None then None else registered ops (m(ch_fd ch := None)))"

text \<open>\<open>epoll_ctl\<close> as documented: it fails (\<open>None\<close>) when an added descriptor is there already, or
  a changed or deleted one is not.\<close>

fun epoll_ctl :: "epoll_call \<Rightarrow> (int \<rightharpoonup> 32 word) \<Rightarrow> (int \<rightharpoonup> 32 word) option" where
  "epoll_ctl (EPOLL_CTL_ADD fd ev) m = (if m fd = None then Some (m(fd \<mapsto> ev)) else None)"
| "epoll_ctl (EPOLL_CTL_MOD fd ev) m = (if m fd = None then None else Some (m(fd \<mapsto> ev)))"
| "epoll_ctl (EPOLL_CTL_DEL fd) m = (if m fd = None then None else Some (m(fd := None)))"

fun epoll_run :: "epoll_call list \<Rightarrow> (int \<rightharpoonup> 32 word) \<Rightarrow> (int \<rightharpoonup> 32 word) option" where
  "epoll_run [] m = Some m"
| "epoll_run (c # cs) m = Option.bind (epoll_ctl c m) (epoll_run cs)"

lemma epoll_run_append: "epoll_run (cs @ ds) m = Option.bind (epoll_run cs m) (epoll_run ds)"
  by (induction cs arbitrary: m) (simp_all split: bind_splits)

definition mirrors :: "'z poller_scheme \<Rightarrow> (int \<rightharpoonup> 32 word) \<Rightarrow> bool" where
  "mirrors p m \<longleftrightarrow> epoll_run (epoll_calls p) Map.empty = Some m \<and> dom (p_channels p) = dom m"

lemma mirrors_update:
  "mirrors p m \<Longrightarrow> mirrors (Poller_UpdateChannel ch p) (m(ch_fd ch \<mapsto> ch_events ch))"
  by (auto simp: mirrors_def Poller_UpdateChannel_def epoll_run_append split: option.splits)

lemma mirrors_remove:
  assumes "mirrors p m"
  shows "case Poller_RemoveChannel ch p of
      Inl e \<Rightarrow> e = Assertion_failed \<and> m (ch_fd ch) = None
    | Inr p' \<Rightarrow> m (ch_fd ch) \<noteq> None \<and> mirrors p' (m(ch_fd ch := None))"
  using assms
  by (cases "p_channels p (ch_fd ch)")
    (auto simp: mirrors_def Poller_RemoveChannel_def epoll_run_append domIff)

text \<open>C6: for any sequence of updates and removals of channels, the calls made to the kernel all
  succeed and leave its interest list equal to the events last set for the registered
  descriptors; the removal of one that is not registered fails the assertion.\<close>

theorem poller_mirrors:
  "case registered ops Map.empty of
     None \<Rightarrow> poller_run ops Poller_init = Inl Assertion_failed
   | Some m \<Rightarrow> \<exists>p. poller_run ops Poller_init = Inr p \<and>
       epoll_run (epoll_calls p) Map.empty = Some m \<and> dom (p_channels p) = dom m"
proof -
  have "case registered ops m of
     None \<Rightarrow> poller_run ops p = Inl Assertion_failed
   | Some m' \<Rightarrow> \<exists>p'. poller_run ops p = Inr p' \<and> mirrors p' m'" if "mirrors p m" for p m
    using that
  proof (induction ops arbitrary: p m)
    case Nil
    then show ?case by simp
  next
    case (Cons oper ops)
    show ?case
    proof (cases oper)
      case (Update_op ch)
      show ?thesis
        using Cons.IH [OF mirrors_update [OF Cons.prems, of ch]]
        unfolding Update_op poller_run.simps registered.simps .
    next
      case (Remove_op ch)
      show ?thesis
      proof (cases "Poller_RemoveChannel ch p")
        case (Inl e)
        then show ?thesis using mirrors_remove [OF Cons.prems, of ch] Remove_op by simp
      next
        case (Inr p')
        then have "m (ch_fd ch) \<noteq> None" "mirrors p' (m(ch_fd ch := None))"
          using mirrors_remove [OF Cons.prems, of ch] by simp_all
        then have "registered (oper # ops) m = registered ops (m(ch_fd ch := None))"
          "poller_run (oper # ops) p = poller_run ops p'"
          unfolding Remove_op by (auto simp: Inr)
        then show ?thesis using Cons.IH [OF \<open>mirrors p' (m(ch_fd ch := None))\<close>] by (simp only:)
      qed
    qed
  qed
  from this [of Poller_init Map.empty] show ?thesis
    by (simp add: mirrors_def Poller_init_def split: option.splits)
qed

section \<open>Sleeping and waking\<close>

text \<open>
  The loop as a machine whose steps interleave with calls of \<open>QueueInLoop\<close> from other
  threads: it polls, handles channels, calls the functors taken out, runs timers.
\<close>

datatype 'f phase = Polling | Handling | Calling "'f list" | Timing

inductive loop_step :: "'f phase \<times> 'f event_loop \<Rightarrow> 'f phase \<times> 'f event_loop \<Rightarrow> bool" where
  other_thread: "t \<noteq> loop_thread l \<Longrightarrow>
     loop_step (ph, l) (ph, (QueueInLoop f (l\<lparr>this_thread := t\<rparr>))\<lparr>this_thread := this_thread l\<rparr>)"
| polled: "Poll res l = Inr (chs, l0) \<Longrightarrow> l1 = l0\<lparr>iteration := size_add (iteration l0) 1\<rparr> \<Longrightarrow>
     loop_step (Polling, l) (Handling, l1)"
| woken: "ProcessWakeUp l = Some (Inr l1) \<Longrightarrow> loop_step (Handling, l) (Handling, l1)"
| handler: "loop_step (Handling, l) (Handling, QueueInLoop f l)"
| begin_functors: "begin_calls l = (fs, l1) \<Longrightarrow> loop_step (Handling, l) (Calling fs, l1)"
| functor_queues: "loop_step (Calling fs, l) (Calling fs, QueueInLoop g l)"
| functor_done: "loop_step (Calling (f # fs), l) (Calling fs, l)"
| end_functors: "loop_step (Calling [], l) (Timing, end_calls l)"
| timers: "loop_step (Timing, l) (Polling, l\<lparr>timer_mgr := w\<rparr>)"

inductive_cases loop_stepE: "loop_step (ph, l) (ph', l')"

text \<open>Once the functors were taken out, a queued functor comes with an integer in the pipe.\<close>

definition wake_inv :: "'f phase \<times> 'f event_loop \<Rightarrow> bool" where
  "wake_inv s \<longleftrightarrow> (case s of (ph, l) \<Rightarrow>
     InLoopThread l \<and> started l \<and> (calling_functors l \<longleftrightarrow> (\<exists>fs. ph = Calling fs)) \<and>
     (ph \<noteq> Handling \<longrightarrow> functors l \<noteq> [] \<longrightarrow> 0 < wakeups l))"

lemma Poll_keeps:
  assumes "Poll res l = Inr (chs, l0)"
  shows "functors l0 = functors l" "wakeups l0 = wakeups l" "InLoopThread l0 = InLoopThread l"
    "started l0 = started l" "calling_functors l0 = calling_functors l"
  using assms by (auto simp: Poll_def andthen_Inr_iff InLoopThread_def split: option.splits if_splits)

lemma loop_step_wake_inv:
  assumes "loop_step s s'" "wake_inv s"
  shows "wake_inv s'"
  using assms
proof (induction rule: loop_step.induct)
  case (polled res l chs l0 l1)
  then show ?case using Poll_keeps [OF polled(1)] by (auto simp: wake_inv_def InLoopThread_def)
qed (auto simp: wake_inv_def InLoopThread_def QueueInLoop_def WakeUp_def Let_def ProcessWakeUp_def
    begin_calls_def end_calls_def split: if_splits)

lemma loop_steps_wake_inv: "loop_step\<^sup>*\<^sup>* s s' \<Longrightarrow> wake_inv s \<Longrightarrow> wake_inv s'"
  by (induction rule: rtranclp_induct) (auto intro: loop_step_wake_inv)

text \<open>A round of the code is a run of the machine, when its handlers and functors only queue
  functors and its timers do not.\<close>

definition queue_list :: "'f list \<Rightarrow> ('f, 'z) event_loop_scheme \<Rightarrow> ('f, 'z) event_loop_scheme" where
  "queue_list fs l = fold QueueInLoop fs l"

lemma handler_steps: "loop_step\<^sup>*\<^sup>* (Handling, l) (Handling, queue_list fs l)"
  by (induction fs arbitrary: l)
    (auto simp: queue_list_def intro: converse_rtranclp_into_rtranclp loop_step.handler)

lemma functor_steps: "loop_step\<^sup>*\<^sup>* (Calling gs, l) (Calling gs, queue_list fs l)"
  by (induction fs arbitrary: l)
    (auto simp: queue_list_def intro: converse_rtranclp_into_rtranclp loop_step.functor_queues)

lemma handle_all_steps:
  assumes "\<And>ch l. handle ch l = (if fst ch = wptr then ProcessWakeUp l else Some (Inr (queue_list (hs ch) l)))"
    and "run_all handle chs l = Some (Inr l')"
  shows "loop_step\<^sup>*\<^sup>* (Handling, l) (Handling, l')"
  using assms(2)
proof (induction chs arbitrary: l)
  case Nil
  then show ?case by simp
next
  case (Cons ch chs)
  obtain l1 where l1: "handle ch l = Some (Inr l1)" "run_all handle chs l1 = Some (Inr l')"
    using Cons.prems by (auto simp: then_run_def split: option.splits sum.splits)
  have "loop_step\<^sup>*\<^sup>* (Handling, l) (Handling, l1)"
    using l1(1) handler_steps [of l "hs ch"] unfolding assms(1)
    by (auto split: if_splits intro: loop_step.woken)
  then show ?case using Cons.IH [OF l1(2)] by simp
qed

lemma call_all_steps:
  assumes "\<And>f l. exec f l = Some (Inr (queue_list (gs f) l))" "run_all exec fs l = Some (Inr l')"
  shows "loop_step\<^sup>*\<^sup>* (Calling fs, l) (Calling [], l')"
  using assms(2)
proof (induction fs arbitrary: l)
  case Nil
  then show ?case by simp
next
  case (Cons f fs)
  have "loop_step\<^sup>*\<^sup>* (Calling (f # fs), l) (Calling (f # fs), queue_list (gs f) l)" by (rule functor_steps)
  also have "loop_step (Calling (f # fs), queue_list (gs f) l) (Calling fs, queue_list (gs f) l)"
    by (rule loop_step.functor_done)
  also have "loop_step\<^sup>*\<^sup>* (Calling fs, queue_list (gs f) l) (Calling [], l')"
    using Cons.prems by (intro Cons.IH) (simp add: assms(1))
  finally show ?case .
qed

lemma then_run_InrE:
  assumes "then_run r f = Some (Inr y)"
  obtains x where "r = Some (Inr x)" "f x = Some (Inr y)"
  using assms by (auto simp: then_run_def split: option.splits sum.splits)

lemma run_all_append: "run_all exec (fs @ gs) s = then_run (run_all exec fs s) (run_all exec gs)"
  by (induction fs arbitrary: s) (auto simp: then_run_def split: option.splits sum.splits)

lemma quiet_timers:
  assumes "\<And>f l. exec f l = Some (Inr (queue_list (gs f) l))" "\<forall>f \<in> set cbs. gs f = []"
  shows "run_all exec cbs l = Some (Inr l)"
  using assms(2) by (induction cbs) (simp_all add: assms(1) queue_list_def)

lemma loop_round_steps:
  assumes "\<And>f l. exec f l = Some (Inr (queue_list (gs f) l))"
    and "\<And>ch l. handle ch l = (if fst ch = wptr then ProcessWakeUp l else Some (Inr (queue_list (hs ch) l)))"
    and "\<And>w cbs w'. TimerWheel_Step w now = Inr (cbs, w') \<Longrightarrow> \<forall>f \<in> set cbs. gs f = []"
    and "loop_round exec handle (res, now) l = Some (Inr (timeout, l'))"
  shows "loop_step\<^sup>*\<^sup>* (Polling, l) (Polling, l')"
proof -
  from assms(4) obtain chs l0 where p: "Poll res l = Inr (chs, l0)" and
    "then_run (run_all handle chs (l0\<lparr>iteration := size_add (iteration l0) 1\<rparr>)) (\<lambda>l2.
      then_run (call_if_set exec (period_functor l2) l2) (\<lambda>l3.
      then_run (CallPendingFunctors exec l3) (\<lambda>l4.
      then_run (Some (TimerWheel_Step (timer_mgr l4) now)) (\<lambda>(cbs, w).
      then_run (run_all exec cbs (l4\<lparr>timer_mgr := w\<rparr>)) (\<lambda>l5.
      Some (Inr (NextTimeout (timer_mgr l5) now, l5))))))) = Some (Inr (timeout, l'))"
    unfolding loop_round_def prod.case Let_def by (cases "Poll res l") auto
  then obtain l2 l3 l4 cbs w l5 where r:
    "run_all handle chs (l0\<lparr>iteration := size_add (iteration l0) 1\<rparr>) = Some (Inr l2)"
    "call_if_set exec (period_functor l2) l2 = Some (Inr l3)"
    "CallPendingFunctors exec l3 = Some (Inr l4)"
    "TimerWheel_Step (timer_mgr l4) now = Inr (cbs, w)"
    "run_all exec cbs (l4\<lparr>timer_mgr := w\<rparr>) = Some (Inr l5)" "l' = l5"
    by (auto elim!: then_run_InrE)
  let ?l1 = "l0\<lparr>iteration := size_add (iteration l0) 1\<rparr>"
  have "loop_step (Polling, l) (Handling, ?l1)" by (rule loop_step.polled [OF p refl])
  also have "loop_step\<^sup>*\<^sup>* (Handling, ?l1) (Handling, l2)" by (rule handle_all_steps [OF assms(2) r(1)])
  also have "loop_step\<^sup>*\<^sup>* (Handling, l2) (Handling, l3)"
    using r(2) handler_steps by (auto simp: call_if_set_def assms(1) split: option.splits)
  also obtain fs l3' l4' where c: "begin_calls l3 = (fs, l3')" "run_all exec fs l3' = Some (Inr l4')" "l4 = end_calls l4'"
    using r(3) unfolding CallPendingFunctors_def Let_def
    by (cases "begin_calls l3") (auto elim!: then_run_InrE)
  have "loop_step (Handling, l3) (Calling fs, l3')" by (rule loop_step.begin_functors [OF c(1)])
  also have "loop_step\<^sup>*\<^sup>* (Calling fs, l3') (Calling [], l4')" by (rule call_all_steps [OF assms(1) c(2)])
  also have "loop_step (Calling [], l4') (Timing, l4)" unfolding c(3) by (rule loop_step.end_functors)
  also have "loop_step (Timing, l4) (Polling, l')"
    using r(5,6) quiet_timers [of exec gs cbs "l4\<lparr>timer_mgr := w\<rparr>", OF assms(1) assms(3) [OF r(4)]] loop_step.timers
    by auto
  finally show ?thesis .
qed


text \<open>A loop that was started, without timers or functors.\<close>

definition idle_loop :: "'f event_loop" where
  "idle_loop = poller.extend Poller_init
     \<lparr>calling_functors = False, loop_thread = 0, this_thread = 0, functors = [], period_functor = None,
      wakeups = 0, quit_flag = False, timer_mgr = TimerWheel_init 0, started = True, iteration = 0\<rparr>"


text \<open>A functor queued by a timer callback is left behind: the callback runs in the loop's
  thread and after the pending functors, so nothing is written to the pipe, and without
  another timer the loop polls with an infinite timeout.\<close>

theorem timer_functor_waits:
  assumes "InLoopThread l" "started l" "\<not> calling_functors l" "functors l = []" "wakeups l = 0" "period_functor l = None"
    and "TimerWheel_Step (timer_mgr l) now = Inr ([t], w)" "expire_time_queue w = []"
    and "\<And>s. exec t s = Some (Inr (QueueInLoop f s))"
  shows "\<exists>l'. loop_round exec handle (Some [], now) l = Some (Inr (- 1, l')) \<and> functors l' = [f] \<and> wakeups l' = 0"
  using assms
  by (simp add: loop_round_def Poll_def call_if_set_def CallPendingFunctors_def begin_calls_def end_calls_def
      QueueInLoop_def InLoopThread_def NextTimeout_def)

text \<open>Functor 0 is a timer callback that queues functor 1.\<close>

definition demo_exec :: "nat \<Rightarrow> nat event_loop \<Rightarrow> nat event_loop run" where
  "demo_exec f l = Some (Inr (if f = 0 then QueueInLoop 1 l else l))"

definition demo_wheel :: "nat wheel" where
  "demo_wheel = (case TimerWheel_RunAfter (TimerWheel_init 1000) 5 0 of Inr (i, w) \<Rightarrow> w)"

lemma demo_wheel_step:
  "map_sum (\<lambda>e. e) (\<lambda>(cbs, w). (cbs, expire_time_queue w)) (TimerWheel_Step demo_wheel 1005) = Inr ([0], [])"
  by code_simp

theorem timer_functor_waits_witness:
  "\<exists>l'. loop_round demo_exec (\<lambda>ch l. Some (Inr l)) (Some [], 1005) (idle_loop\<lparr>timer_mgr := demo_wheel\<rparr>) =
     Some (Inr (- 1, l')) \<and> functors l' = [1] \<and> wakeups l' = 0"
proof -
  obtain w where w: "TimerWheel_Step demo_wheel 1005 = Inr ([0], w)" "expire_time_queue w = []"
    using demo_wheel_step by (cases "TimerWheel_Step demo_wheel 1005") auto
  show ?thesis
    by (rule timer_functor_waits [where t = 0 and w = w])
      (use w in \<open>simp_all add: idle_loop_def poller.defs InLoopThread_def demo_exec_def\<close>)
qed

end
