(* ===== verification/Tcp_Connection_Laws.thy ===== *)
theory Tcp_Connection_Laws
  imports Tcp_Connection Event_Loop_Laws
begin

text \<open>
  What a connection does with the bytes it is given: a socket that takes them gets all that
  was written, in order and once, followed by the file; what arrives is put behind what was
  not read yet. Two behaviours of the network stop the server: a read that would block, and
  a file that ends before the length announced.
\<close>

unbundle bit_operations_syntax

section \<open>The store and the channels\<close>

named_theorems world_simps "the parts of the world after an access"

lemma with_conn_Some [world_simps]: "conns w c = Some k \<Longrightarrow> with_conn c f w = f k w"
  by (simp add: with_conn_def)

lemma set_conn_parts [world_simps]:
  "conns (set_conn c k w) = (conns w)(c \<mapsto> k)"
  "InLoopThread (set_conn c k w) = InLoopThread w"
  "net_log (set_conn c k w) = net_log w"
  "os_calls (set_conn c k w) = os_calls w"
  "functors (set_conn c k w) = functors w"
  by (simp_all add: set_conn_def InLoopThread_def)

lemma count_call_parts [world_simps]:
  "conns (count_call w) = conns w"
  "InLoopThread (count_call w) = InLoopThread w"
  "net_log (count_call w) = net_log w"
  "os_calls (count_call w) = Suc (os_calls w)"
  "functors (count_call w) = functors w"
  by (simp_all add: count_call_def InLoopThread_def)

lemma log_net_parts [world_simps]:
  "conns (log_net e w) = conns w"
  "InLoopThread (log_net e w) = InLoopThread w"
  "net_log (log_net e w) = net_log w @ [e]"
  "os_calls (log_net e w) = os_calls w"
  "functors (log_net e w) = functors w"
  by (simp_all add: log_net_def InLoopThread_def)

lemma Poller_UpdateChannel_parts [world_simps]:
  fixes w :: "('x, 'z) world_scheme"
  shows "conns (Poller_UpdateChannel ch w) = conns w"
    "InLoopThread (Poller_UpdateChannel ch w) = InLoopThread w"
    "net_log (Poller_UpdateChannel ch w) = net_log w"
    "os_calls (Poller_UpdateChannel ch w) = os_calls w"
    "functors (Poller_UpdateChannel ch w) = functors w"
  by (simp_all add: Poller_UpdateChannel_def InLoopThread_def split: option.splits)

text \<open>A channel of a connection with new events, as the loop has registered it.\<close>

definition set_events :: "nat \<Rightarrow> 32 word \<Rightarrow> 'x connection \<Rightarrow> ('x, 'z) world_scheme \<Rightarrow> ('x, 'z) world_scheme" where
  "set_events c ev k w =
     set_conn c (k\<lparr>c_channel := (c_channel k)\<lparr>ch_events := ev\<rparr>\<rparr>)
       (Poller_UpdateChannel ((c_channel k)\<lparr>ch_events := ev\<rparr>) w)"

lemma on_channel_events [world_simps]:
  assumes "InLoopThread w" "conns w c = Some k"
  shows "on_channel Channel_EnableReading c w = Some (Inr (set_events c (ch_events (c_channel k) OR kReadEvents) k w))"
    "on_channel Channel_DisableReading c w = Some (Inr (set_events c (ch_events (c_channel k) AND NOT kReadEvents) k w))"
    "on_channel Channel_EnableWriting c w = Some (Inr (set_events c (ch_events (c_channel k) OR kWriteEvents) k w))"
    "on_channel Channel_DisableWriting c w = Some (Inr (set_events c (ch_events (c_channel k) AND NOT kWriteEvents) k w))"
  using assms
  by (simp_all add: on_channel_def with_conn_Some Channel_EnableReading_def Channel_DisableReading_def
      Channel_EnableWriting_def Channel_DisableWriting_def Channel_set_events_def EventLoop_UpdateChannel_def
      set_events_def)

lemma set_events_parts [world_simps]:
  "conns (set_events c ev k w) = (conns w)(c \<mapsto> k\<lparr>c_channel := (c_channel k)\<lparr>ch_events := ev\<rparr>\<rparr>)"
  "InLoopThread (set_events c ev k w) = InLoopThread w"
  "net_log (set_events c ev k w) = net_log w"
  "os_calls (set_events c ev k w) = os_calls w"
  "functors (set_events c ev k w) = functors w"
  by (simp_all add: set_events_def world_simps)

section \<open>Writing\<close>

lemma Write_appends:
  fixes w :: "('x, 'z) world_scheme"
  assumes "InLoopThread w" "conns w c = Some k" "buffer_ok (c_write_buf k)" "length msg \<le> buffer_space (c_write_buf k)"
  shows "\<exists>b. TcpConnection_Write c msg w =
      Some (Inr (set_events c (ch_events (c_channel k) OR kWriteEvents) (k\<lparr>c_write_buf := b\<rparr>) (set_conn c (k\<lparr>c_write_buf := b\<rparr>) w))) \<and>
     buffer_ok b \<and> unread b = unread (c_write_buf k) @ msg \<and> buffer_space (c_write_buf k) - length msg \<le> buffer_space b"
proof -
  obtain b where b: "Buffer_Append (c_write_buf k) msg = Inr b" "buffer_ok b" "unread b = unread (c_write_buf k) @ msg"
    "buffer_space (c_write_buf k) - length msg \<le> buffer_space b"
    using Append_ok [OF assms(3,4)] by blast
  have "InLoopThread (set_conn c (k\<lparr>c_write_buf := b\<rparr>) w)" "conns (set_conn c (k\<lparr>c_write_buf := b\<rparr>) w) c = Some (k\<lparr>c_write_buf := b\<rparr>)"
    using assms(1) by (simp_all add: world_simps)
  from on_channel_events(3) [OF this] show ?thesis
    using assms(1,2) b by (intro exI [of _ b]) (simp add: TcpConnection_Write_def with_conn_def)
qed

text \<open>A socket that takes at least one byte at every call, and never more than offered.\<close>

definition os_accepts :: "os_net \<Rightarrow> bool" where
  "os_accepts os \<longleftrightarrow>
     (\<forall>i n. 0 < n \<longrightarrow> (\<exists>m. os_write os i n = Inr m \<and> 0 < m \<and> m \<le> n)) \<and>
     (\<forall>i n. 0 < n \<longrightarrow> (\<exists>m. os_sendfile os i n = Inr m \<and> 0 < m \<and> m \<le> n))"

text \<open>A socket that takes at least one byte at every call, or would block.\<close>

definition os_takes :: "os_net \<Rightarrow> bool" where
  "os_takes os \<longleftrightarrow>
     (\<forall>i n. 0 < n \<longrightarrow> (case os_write os i n of Inr m \<Rightarrow> 0 < m \<and> m \<le> n | Inl e \<Rightarrow> would_block e))"

lemma write_loop_some:
  assumes "os_takes os" "conns w c = Some k" "buffer_ok (c_write_buf k)"
    and "n = length (unread (c_write_buf k))"
  shows "\<exists>b m chunks. write_loop os u c n w =
      Some (Inr (length (unread b), w\<lparr>conns := (conns w)(c \<mapsto> k\<lparr>c_write_buf := b\<rparr>), os_calls := m,
                      net_log := net_log w @ map (Wrote (c_fd k)) chunks\<rparr>)) \<and>
    buffer_ok b \<and> concat chunks @ unread b = unread (c_write_buf k) \<and> internal_buf b = internal_buf (c_write_buf k) \<and>
    (unread b \<noteq> [] \<longrightarrow> (\<exists>i n e. 0 < n \<and> os_write os i n = Inl e)) \<and> os_calls w \<le> m"
  using assms(2-)
proof (induction n arbitrary: w k rule: less_induct)
  case (less n)
  let ?bytes = "unread (c_write_buf k)"
  have same: "(conns w)(c \<mapsto> k\<lparr>c_write_buf := c_write_buf k\<rparr>) = conns w" using less.prems(1) by auto
  show ?case
  proof (cases "n = 0")
    case True
    then show ?thesis
      using same less.prems
      by (intro exI [of _ "c_write_buf k"] exI [of _ "os_calls w"] exI [of _ "[]"]) (simp add: write_loop.simps)
  next
    case False
    show ?thesis
    proof (cases "os_write os (os_calls w) n")
      case (Inl e)
      then have "would_block e" using assms(1) False unfolding os_takes_def by (metis sum.case(1) neq0_conv)
      then show ?thesis
        using False Inl less.prems same ReadRange_ok [OF less.prems(2)]
        by (intro exI [of _ "c_write_buf k"] exI [of _ "os_calls w + 1"] exI [of _ "[]"])
          (subst write_loop.simps, auto simp: count_call_def)
    next
      case (Inr m)
      then have m: "0 < m" "m \<le> n" using assms(1) False unfolding os_takes_def by (metis sum.case(2) neq0_conv)+
      obtain b where b: "ConsumeBytes (c_write_buf k) m = Inr b" "buffer_ok b" "unread b = drop m ?bytes"
        "internal_buf b = internal_buf (c_write_buf k)"
        using ConsumeBytes_ok [OF less.prems(2), of m] m less.prems(3) by blast
      define w1 where "w1 = set_conn c (k\<lparr>c_write_buf := b\<rparr>) (log_net (Wrote (c_fd k) (take m ?bytes)) (count_call w))"
      have step: "write_loop os u c n w = write_loop os u c (length (unread b)) w1"
        using False less.prems Inr b ReadRange_ok [OF less.prems(2)] BytesToRead_ok [OF b(2)]
        by (subst write_loop.simps) (simp add: w1_def)
      have w1: "conns w1 c = Some (k\<lparr>c_write_buf := b\<rparr>)" by (simp add: w1_def world_simps)
      have "length (unread b) < n" using b(3) m less.prems(3) by simp
      from less.IH [OF this w1] b(2) have "\<exists>b' m' chunks. write_loop os u c (length (unread b)) w1 =
        Some (Inr (length (unread b'), w1\<lparr>conns := (conns w1)(c \<mapsto> k\<lparr>c_write_buf := b'\<rparr>), os_calls := m',
                        net_log := net_log w1 @ map (Wrote (c_fd k)) chunks\<rparr>)) \<and>
        buffer_ok b' \<and> concat chunks @ unread b' = unread b \<and> internal_buf b' = internal_buf b \<and>
        (unread b' \<noteq> [] \<longrightarrow> (\<exists>i n e. 0 < n \<and> os_write os i n = Inl e)) \<and> os_calls w1 \<le> m'" by (simp del: fun_upd_apply)
      then obtain b' m' chunks where IH:
        "write_loop os u c (length (unread b)) w1 =
        Some (Inr (length (unread b'), w1\<lparr>conns := (conns w1)(c \<mapsto> k\<lparr>c_write_buf := b'\<rparr>), os_calls := m',
                        net_log := net_log w1 @ map (Wrote (c_fd k)) chunks\<rparr>))"
        "buffer_ok b'" "concat chunks @ unread b' = unread b" "internal_buf b' = internal_buf b"
        "unread b' \<noteq> [] \<longrightarrow> (\<exists>i n e. 0 < n \<and> os_write os i n = Inl e)" "os_calls w1 \<le> m'" by blast
      have "os_calls w \<le> m'" using IH(6) by (simp add: w1_def world_simps)
      have "w1\<lparr>conns := (conns w1)(c \<mapsto> k\<lparr>c_write_buf := b'\<rparr>), os_calls := m',
              net_log := net_log w1 @ map (Wrote (c_fd k)) chunks\<rparr> =
            w\<lparr>conns := (conns w)(c \<mapsto> k\<lparr>c_write_buf := b'\<rparr>), os_calls := m',
              net_log := net_log w @ map (Wrote (c_fd k)) (take m ?bytes # chunks)\<rparr>"
        by (simp add: w1_def set_conn_def log_net_def count_call_def)
      then show ?thesis
        using step IH(1-5) b(3,4) \<open>os_calls w \<le> m'\<close>
        by (intro exI [of _ b'] exI [of _ m'] exI [of _ "take m ?bytes # chunks"]) (simp del: fun_upd_apply)
    qed
  qed
qed

lemma write_loop_all:
  assumes "os_accepts os" "conns w c = Some k" "buffer_ok (c_write_buf k)"
    and "n = length (unread (c_write_buf k))"
  shows "\<exists>b m chunks. write_loop os u c n w =
      Some (Inr (0, w\<lparr>conns := (conns w)(c \<mapsto> k\<lparr>c_write_buf := b\<rparr>), os_calls := m,
                      net_log := net_log w @ map (Wrote (c_fd k)) chunks\<rparr>)) \<and>
    buffer_ok b \<and> unread b = [] \<and> concat chunks = unread (c_write_buf k)"
proof -
  have "os_takes os" using assms(1) unfolding os_accepts_def os_takes_def by (metis sum.case(2))
  moreover have "os_write os i m \<noteq> Inl e" if "0 < m" for i m e using assms(1) that unfolding os_accepts_def by (metis sum.distinct(1))
  ultimately show ?thesis using write_loop_some [OF _ assms(2-4), of os u] by fastforce
qed

lemma sendfile_loop_none:
  "conns w c = Some k \<Longrightarrow> c_zc_fd k = - 1 \<Longrightarrow> sendfile_loop os u c w = Some (Inr w)"
  by (subst sendfile_loop.simps) simp

text \<open>\<open>WriteToPeer\<close> without a file to send: what the socket takes is written, and when nothing is left
  the socket is not watched for writing any more.\<close>

lemma WriteToPeer_some:
  assumes "os_takes os" "InLoopThread w" "conns w c = Some k" "buffer_ok (c_write_buf k)" "c_zc_fd k = - 1" "\<not> c_wdcb k"
  shows "\<exists>b m chunks w1. w1 = w\<lparr>conns := (conns w)(c \<mapsto> k\<lparr>c_write_buf := b\<rparr>), os_calls := m,
                      net_log := net_log w @ map (Wrote (c_fd k)) chunks\<rparr> \<and>
     WriteToPeer os u c w = Some (Inr
       (if unread b = [] then set_events c (ch_events (c_channel k) AND NOT kWriteEvents) (k\<lparr>c_write_buf := b\<rparr>) w1 else w1)) \<and>
     buffer_ok b \<and> concat chunks @ unread b = unread (c_write_buf k) \<and> internal_buf b = internal_buf (c_write_buf k) \<and>
     (unread b \<noteq> [] \<longrightarrow> (\<exists>i n e. 0 < n \<and> os_write os i n = Inl e)) \<and> os_calls w \<le> m"
proof -
  obtain b m chunks where wl: "write_loop os u c (length (unread (c_write_buf k))) w =
      Some (Inr (length (unread b), w\<lparr>conns := (conns w)(c \<mapsto> k\<lparr>c_write_buf := b\<rparr>), os_calls := m,
                      net_log := net_log w @ map (Wrote (c_fd k)) chunks\<rparr>))"
      "buffer_ok b" "concat chunks @ unread b = unread (c_write_buf k)" "internal_buf b = internal_buf (c_write_buf k)"
      "unread b \<noteq> [] \<longrightarrow> (\<exists>i n e. 0 < n \<and> os_write os i n = Inl e)" "os_calls w \<le> m"
    using write_loop_some [OF assms(1,3,4) refl] by blast
  define k1 where "k1 = k\<lparr>c_write_buf := b\<rparr>"
  define w1 where "w1 = w\<lparr>conns := (conns w)(c \<mapsto> k1), os_calls := m, net_log := net_log w @ map (Wrote (c_fd k)) chunks\<rparr>"
  have w1: "conns w1 c = Some k1" "c_zc_fd k1 = - 1" "\<not> c_wdcb k1" "c_channel k1 = c_channel k" "InLoopThread w1"
    using assms(2,5,6) by (simp_all add: w1_def k1_def InLoopThread_def)
  have "set_conn c k1 w1 = w1" using w1(1) by (simp add: set_conn_def fun_upd_idem)
  then have "WriteToPeer os u c w = Some (Inr
       (if unread b = [] then set_events c (ch_events (c_channel k) AND NOT kWriteEvents) k1 w1 else w1))"
    using wl(1) assms(2,3) BytesToRead_ok [OF assms(4)] w1 sendfile_loop_none [OF w1(1,2), of os u]
    by (simp add: WriteToPeer_def with_conn_Some w1_def [symmetric] k1_def [symmetric] on_channel_events(4) [OF w1(5,1)] call_user_def)
  then show ?thesis using wl(2-6) unfolding k1_def w1_def by blast
qed

text \<open>The pieces of a file, in order and without a gap.\<close>

fun covers :: "int \<Rightarrow> int \<Rightarrow> int \<Rightarrow> nat \<Rightarrow> net_event list \<Rightarrow> bool" where
  "covers s f off n [] \<longleftrightarrow> n = 0"
| "covers s f off n (Sent_file s' f' off' m # es) \<longleftrightarrow>
     s' = s \<and> f' = f \<and> off' = off \<and> m \<le> n \<and> covers s f (off + int m) (n - m) es"
| "covers s f off n (e # es) \<longleftrightarrow> False"

lemma sendfile_loop_all:
  assumes "os_accepts os" "conns w c = Some k" "c_zc_fd k \<noteq> - 1" "c_zc_writed k \<le> c_zc_len k"
  shows "\<exists>m segs off. sendfile_loop os u c w =
      Some (Inr (w\<lparr>conns := (conns w)(c \<mapsto> k\<lparr>c_zc_offset := off, c_zc_writed := c_zc_len k\<rparr>), os_calls := m,
                   net_log := net_log w @ segs\<rparr>)) \<and>
    covers (c_fd k) (c_zc_fd k) (c_zc_offset k) (c_zc_len k - c_zc_writed k) segs"
  using assms(2-)
proof (induction "c_zc_len k - c_zc_writed k" arbitrary: w k rule: less_induct)
  case less
  show ?case
  proof (cases "c_zc_writed k = c_zc_len k")
    case True
    have "(conns w)(c \<mapsto> k\<lparr>c_zc_offset := c_zc_offset k, c_zc_writed := c_zc_len k\<rparr>) = conns w"
      using less.prems(1) True [symmetric] by (auto simp: fun_eq_iff)
    then show ?thesis
      using True less.prems
      by (intro exI [of _ "os_calls w"] exI [of _ "[]"] exI [of _ "c_zc_offset k"])
        (simp add: sendfile_loop.simps)
  next
    case False
    let ?left = "c_zc_len k - c_zc_writed k"
    obtain m where m: "os_sendfile os (os_calls w) ?left = Inr m" "0 < m" "m \<le> ?left"
      using assms(1) False less.prems(3) unfolding os_accepts_def by (metis diff_is_0_eq le_antisym neq0_conv)
    define k1 where "k1 = k\<lparr>c_zc_offset := c_zc_offset k + int m, c_zc_writed := c_zc_writed k + m\<rparr>"
    define w1 where "w1 = set_conn c k1 (log_net (Sent_file (c_fd k) (c_zc_fd k) (c_zc_offset k) m) (count_call w))"
    have step: "sendfile_loop os u c w = sendfile_loop os u c w1"
      using False less.prems m by (subst sendfile_loop.simps) (simp add: w1_def k1_def)
    have w1: "conns w1 c = Some k1" by (simp add: w1_def world_simps)
    have k1: "c_zc_fd k1 = c_zc_fd k" "c_fd k1 = c_fd k" "c_zc_len k1 = c_zc_len k"
      "c_zc_writed k1 = c_zc_writed k + m" "c_zc_offset k1 = c_zc_offset k + int m"
      by (simp_all add: k1_def)
    have "c_zc_len k1 - c_zc_writed k1 < ?left" "c_zc_writed k1 \<le> c_zc_len k1" "c_zc_fd k1 \<noteq> - 1"
      using m less.prems k1 by simp_all
    from less.hyps [OF this(1) w1 this(3,2)] obtain m' segs off where IH:
      "sendfile_loop os u c w1 =
      Some (Inr (w1\<lparr>conns := (conns w1)(c \<mapsto> k1\<lparr>c_zc_offset := off, c_zc_writed := c_zc_len k1\<rparr>), os_calls := m',
                   net_log := net_log w1 @ segs\<rparr>))"
      "covers (c_fd k1) (c_zc_fd k1) (c_zc_offset k1) (c_zc_len k1 - c_zc_writed k1) segs" by blast
    have "w1\<lparr>conns := (conns w1)(c \<mapsto> k1\<lparr>c_zc_offset := off, c_zc_writed := c_zc_len k1\<rparr>), os_calls := m',
            net_log := net_log w1 @ segs\<rparr> =
          w\<lparr>conns := (conns w)(c \<mapsto> k\<lparr>c_zc_offset := off, c_zc_writed := c_zc_len k\<rparr>), os_calls := m',
            net_log := net_log w @ Sent_file (c_fd k) (c_zc_fd k) (c_zc_offset k) m # segs\<rparr>"
      by (simp add: w1_def k1_def set_conn_def log_net_def count_call_def)
    then show ?thesis
      using step IH m k1
      by (intro exI [of _ m'] exI [of _ "Sent_file (c_fd k) (c_zc_fd k) (c_zc_offset k) m # segs"] exI [of _ off])
        (simp add: diff_diff_eq)
  qed
qed

text \<open>The connection after everything was sent.\<close>

definition all_sent :: "'x connection \<Rightarrow> buffer \<Rightarrow> 'x connection" where
  "all_sent k b = k\<lparr>c_write_buf := b, c_zc_fd := - 1,
     c_zc_offset := (if c_zc_fd k = - 1 then c_zc_offset k else 0),
     c_zc_len := (if c_zc_fd k = - 1 then c_zc_len k else 0),
     c_zc_writed := (if c_zc_fd k = - 1 then c_zc_writed k else 0)\<rparr>"

lemma WriteToPeer_all:
  assumes "os_accepts os" "InLoopThread w" "conns w c = Some k" "buffer_ok (c_write_buf k)"
    and "c_zc_writed k \<le> c_zc_len k"
  shows "\<exists>w1 b m chunks segs.
     WriteToPeer os u c w = call_user (c_wdcb k) (call_write_done u c)
       (set_events c (ch_events (c_channel k) AND NOT kWriteEvents) (all_sent k b) w1) \<and>
     buffer_ok b \<and> unread b = [] \<and>
     w1 = w\<lparr>conns := (conns w)(c \<mapsto> all_sent k b), os_calls := m,
            net_log := net_log w @ map (Wrote (c_fd k)) chunks @ segs\<rparr> \<and> concat chunks = unread (c_write_buf k) \<and>
     (if c_zc_fd k = - 1 then segs = []
      else covers (c_fd k) (c_zc_fd k) (c_zc_offset k) (c_zc_len k - c_zc_writed k) segs)"
proof -
  obtain b m chunks where wl: "write_loop os u c (length (unread (c_write_buf k))) w =
      Some (Inr (0, w\<lparr>conns := (conns w)(c \<mapsto> k\<lparr>c_write_buf := b\<rparr>), os_calls := m,
                      net_log := net_log w @ map (Wrote (c_fd k)) chunks\<rparr>))"
      "buffer_ok b" "unread b = []" "concat chunks = unread (c_write_buf k)"
    using write_loop_all [OF assms(1,3,4) refl] by blast
  define k1 where "k1 = k\<lparr>c_write_buf := b\<rparr>"
  define w1 where "w1 = w\<lparr>conns := (conns w)(c \<mapsto> k1), os_calls := m,
                      net_log := net_log w @ map (Wrote (c_fd k)) chunks\<rparr>"
  have k1: "conns w1 c = Some k1" "c_zc_fd k1 = c_zc_fd k" "c_zc_writed k1 = c_zc_writed k" "c_zc_len k1 = c_zc_len k"
    "c_zc_offset k1 = c_zc_offset k" "c_fd k1 = c_fd k" "c_channel k1 = c_channel k" "c_wdcb k1 = c_wdcb k"
    by (simp_all add: w1_def k1_def)
  have start: "WriteToPeer os u c w = then_run (sendfile_loop os u c w1) (\<lambda>w2.
          with_conn c (\<lambda>k2 w2.
            if c_zc_fd k2 = - 1 \<or> c_zc_len k2 = c_zc_writed k2 then
              then_run (on_channel Channel_DisableWriting c
                 (set_conn c (if c_zc_fd k2 \<noteq> - 1 then ClearZeroCopyWrite k2 else k2) w2)) (\<lambda>w3.
              call_user (c_wdcb k2) (call_write_done u c) w3)
            else Some (Inr w2)) w2)"
    using wl(1) assms(2,3) BytesToRead_ok [OF assms(4)]
    by (simp add: WriteToPeer_def with_conn_Some w1_def k1_def)
  have in_loop: "InLoopThread w1" using assms(2) by (simp add: w1_def InLoopThread_def)
  show ?thesis
  proof (cases "c_zc_fd k = - 1")
    case True
    have "all_sent k b = k1" using True by (simp add: all_sent_def k1_def)
    moreover have "set_conn c k1 w1 = w1" using k1(1) by (simp add: set_conn_def fun_upd_idem)
    moreover have "sendfile_loop os u c w1 = Some (Inr w1)"
      by (rule sendfile_loop_none [OF k1(1)]) (simp add: k1(2) True)
    ultimately have "WriteToPeer os u c w = call_user (c_wdcb k) (call_write_done u c)
       (set_events c (ch_events (c_channel k) AND NOT kWriteEvents) (all_sent k b) w1)"
      unfolding start using True k1 in_loop by (simp add: world_simps)
    then show ?thesis
      using True wl(2-4) in_loop \<open>all_sent k b = k1\<close>
      by (intro exI [of _ w1] exI [of _ b] exI [of _ m] exI [of _ chunks] exI [of _ "[]"]) (simp add: w1_def)
  next
    case False
    obtain m2 segs off where sf: "sendfile_loop os u c w1 =
      Some (Inr (w1\<lparr>conns := (conns w1)(c \<mapsto> k1\<lparr>c_zc_offset := off, c_zc_writed := c_zc_len k1\<rparr>), os_calls := m2,
                   net_log := net_log w1 @ segs\<rparr>))"
      "covers (c_fd k) (c_zc_fd k) (c_zc_offset k) (c_zc_len k - c_zc_writed k) segs"
      using sendfile_loop_all [OF assms(1) k1(1)] False assms(5) unfolding k1 by blast
    define k2 where "k2 = k1\<lparr>c_zc_offset := off, c_zc_writed := c_zc_len k1\<rparr>"
    define w2 where "w2 = w1\<lparr>conns := (conns w1)(c \<mapsto> k2), os_calls := m2, net_log := net_log w1 @ segs\<rparr>"
    have k2: "conns w2 c = Some k2" "c_zc_fd k2 \<noteq> - 1" "c_zc_writed k2 = c_zc_len k2" "c_wdcb k2 = c_wdcb k"
      "c_channel k2 = c_channel k" "ClearZeroCopyWrite k2 = all_sent k b"
      using False k1 by (simp_all add: w2_def k2_def ClearZeroCopyWrite_def all_sent_def k1_def)
    have in_loop2: "InLoopThread w2" using in_loop by (simp add: w2_def InLoopThread_def)
    have "WriteToPeer os u c w = call_user (c_wdcb k) (call_write_done u c)
       (set_events c (ch_events (c_channel k) AND NOT kWriteEvents) (all_sent k b) (set_conn c (all_sent k b) w2))"
      unfolding start sf(1) k2_def [symmetric] w2_def [symmetric]
      using k2 in_loop2 by (simp add: world_simps) (simp add: all_sent_def)
    then show ?thesis
      using False wl(2-4) in_loop2 sf(2)
      by (intro exI [of _ "set_conn c (all_sent k b) w2"] exI [of _ b] exI [of _ m2] exI [of _ chunks] exI [of _ segs])
        (simp add: set_conn_def w2_def w1_def)
  qed
qed

section \<open>Reading\<close>

lemma take_input_ok:
  assumes "buffer_ok b" "bytes_left = length (internal_buf b) - write_index b"
    and "length data \<le> bytes_left + local_buf_len" "local_buf_len \<le> buffer_space b"
  shows "\<exists>b'. take_input b bytes_left data (length data) = Inr b' \<and> buffer_ok b' \<and> unread b' = unread b @ data \<and>
    buffer_space b - length data \<le> buffer_space b'"
proof (cases "length data \<le> bytes_left")
  case True
  have "write_index b + length data \<le> length (internal_buf b)"
    using True assms(1,2) by (auto simp: buffer_ok_def)
  from AddBytes_ok [OF assms(1) this] obtain b1 where b1:
    "AddBytes (write_direct b data) (length data) = Inr b1" "buffer_ok b1" "unread b1 = unread b @ data" by blast
  have "internal_buf b1 = internal_buf (write_direct b data)"
    using b1(1) by (auto simp: AddBytes_def Let_def)
  then have "buffer_space b1 = buffer_space b"
    using \<open>write_index b + length data \<le> length (internal_buf b)\<close> by (simp add: buffer_space_def write_direct_def)
  then show ?thesis using True b1 by (simp add: take_input_def Let_def)
next
  case False
  let ?now = "take bytes_left data" and ?rest = "drop bytes_left data"
  have len: "length ?now = bytes_left" "length ?rest = length data - bytes_left" using False by simp_all
  have fits: "write_index b + length ?now \<le> length (internal_buf b)"
    using len(1) assms(1,2) by (auto simp: buffer_ok_def)
  from AddBytes_ok [OF assms(1) this] len(1) obtain b1 where b1:
    "AddBytes (write_direct b ?now) bytes_left = Inr b1" "buffer_ok b1" "unread b1 = unread b @ ?now" by auto
  have "internal_buf b1 = internal_buf (write_direct b ?now)"
    using b1(1) by (auto simp: AddBytes_def Let_def)
  then have "buffer_space b1 = buffer_space b"
    using fits by (simp add: buffer_space_def write_direct_def)
  then have "length ?rest \<le> buffer_space b1" using assms(3,4) len(2) by simp
  from Append_ok [OF b1(2) this] obtain b2 where b2: "Buffer_Append b1 ?rest = Inr b2" "buffer_ok b2"
    "unread b2 = unread b1 @ ?rest" "buffer_space b1 - length ?rest \<le> buffer_space b2" by blast
  have "Append_array b1 (?rest @ replicate (local_buf_len - length ?rest) (CHR 0x00)) (length data - bytes_left) = Inr b2"
    using b2(1) len(2) by (simp add: Append_array_def)
  then show ?thesis using False b1 b2 \<open>buffer_space b1 = buffer_space b\<close> by (simp add: take_input_def Let_def)
qed

lemma ReadFromPeer_data:
  assumes "InLoopThread w" "conns w c = Some k" "buffer_ok (c_read_buf k)" "local_buf_len \<le> buffer_space (c_read_buf k)"
    and "os_readv os (os_calls w) (length (internal_buf (c_read_buf k)) - write_index (c_read_buf k) + local_buf_len) = Inr data"
    and "data \<noteq> []"
    and "length data \<le> length (internal_buf (c_read_buf k)) - write_index (c_read_buf k) + local_buf_len"
  shows "\<exists>b. ReadFromPeer os u c w =
      call_user (c_rcb k) (call_read u c) (set_conn c (k\<lparr>c_read_buf := b\<rparr>) (count_call w)) \<and>
    buffer_ok b \<and> unread b = unread (c_read_buf k) @ data \<and> buffer_space (c_read_buf k) - length data \<le> buffer_space b"
proof -
  let ?left = "length (internal_buf (c_read_buf k)) - write_index (c_read_buf k)"
  obtain b where b: "take_input (c_read_buf k) ?left data (length data) = Inr b" "buffer_ok b"
    "unread b = unread (c_read_buf k) @ data" "buffer_space (c_read_buf k) - length data \<le> buffer_space b"
    using take_input_ok [OF assms(3) refl assms(7,4)] by blast
  have "BytesCanWrite (c_read_buf k) = Inr ?left"
    using assms(3) by (simp add: BytesCanWrite_def buffer_ok_def)
  then show ?thesis
    using assms(1,2,5,6) b by (intro exI [of _ b]) (simp add: ReadFromPeer_def with_conn_Some Let_def)
qed

lemma take_input_failed:
  "bytes_left \<le> vector_max_size \<Longrightarrow> \<exists>e. take_input b bytes_left [] (2 ^ 64 - 1) = Inl e"
proof -
  assume "bytes_left \<le> vector_max_size"
  then have big: "\<not> 2 ^ 64 - 1 - bytes_left \<le> local_buf_len" "bytes_left < 2 ^ 64 - 1"
    by (simp_all add: vector_max_size_def local_buf_len_def)
  have "\<exists>e. Append_array b1 (replicate local_buf_len z) (2 ^ 64 - 1 - bytes_left) = Inl e" for b1 z
  proof (cases "EnsureSpace b1 (2 ^ 64 - 1 - bytes_left)")
    case (Inr b2)
    then show ?thesis
      using big(1) unfolding Append_array_def
      by (cases "BytesCanWrite b2") (auto simp: asserting_def simp del: One_nat_def)
  qed (use big(1) in \<open>simp add: Append_array_def\<close>)
  then show ?thesis
    using big(2) unfolding take_input_def Let_def
    by (cases "AddBytes (write_direct b (take bytes_left [])) bytes_left") auto
qed

text \<open>A file that ended before the length announced.\<close>

definition short_file :: "os_net \<Rightarrow> nat \<Rightarrow> ('x, 'z) world_scheme \<Rightarrow> bool" where
  "short_file os c w \<longleftrightarrow> (\<forall>i n. os_sendfile os i n = Inr 0) \<and>
     (\<exists>k. conns w c = Some k \<and> c_zc_fd k \<noteq> - 1 \<and> c_zc_writed k < c_zc_len k)"

lemma sendfile_loop_stuck:
  assumes "sendfile_loop os u c w = Some r"
  shows "\<not> short_file os c w"
  using assms
proof (induction rule: sendfile_loop.raw_induct [rotated -1, consumes 1, case_names step])
  case (step sf os u c w r)
  show ?case
  proof
    assume short: "short_file os c w"
    then obtain k where k: "conns w c = Some k" "c_zc_fd k \<noteq> - 1" "c_zc_writed k < c_zc_len k"
      and zero: "\<And>i n. os_sendfile os i n = Inr 0" by (auto simp: short_file_def)
    let ?w1 = "set_conn c (k\<lparr>c_zc_offset := c_zc_offset k + int 0, c_zc_writed := c_zc_writed k + 0\<rparr>)
                  (log_net (Sent_file (c_fd k) (c_zc_fd k) (c_zc_offset k) 0) (count_call w))"
    have "sf os u c ?w1 = Some r" using step(2) k zero by (simp split: if_splits)
    then have "\<not> short_file os c ?w1" by (rule step(1))
    moreover have "short_file os c ?w1" using k zero by (simp add: short_file_def world_simps)
    ultimately show False by blast
  qed
qed

section \<open>Properties\<close>

text \<open>C11: when the socket takes the bytes, one call of \<open>WriteToPeer\<close> returns after it sent everything
  that was written, in order and once, and then the whole rest of the file; the write buffer is
  empty, writing is disabled, and the write-done callback runs last.\<close>

theorem WriteToPeer_delivers:
  assumes "os_accepts os" "InLoopThread w" "conns w c = Some k" "buffer_ok (c_write_buf k)"
    and "c_zc_writed k \<le> c_zc_len k"
  shows "\<exists>w1 k1 chunks segs.
     WriteToPeer os u c w = call_user (c_wdcb k) (call_write_done u c) w1 \<and>
     net_log w1 = net_log w @ map (Wrote (c_fd k)) chunks @ segs \<and> concat chunks = unread (c_write_buf k) \<and>
     (if c_zc_fd k = - 1 then segs = []
      else covers (c_fd k) (c_zc_fd k) (c_zc_offset k) (c_zc_len k - c_zc_writed k) segs) \<and>
     conns w1 c = Some k1 \<and> unread (c_write_buf k1) = [] \<and> c_zc_fd k1 = - 1 \<and> \<not> is_writing (c_channel k1)"
proof -
  obtain w1 b m chunks segs where r:
     "WriteToPeer os u c w = call_user (c_wdcb k) (call_write_done u c)
       (set_events c (ch_events (c_channel k) AND NOT kWriteEvents) (all_sent k b) w1)"
     "unread b = []"
     "w1 = w\<lparr>conns := (conns w)(c \<mapsto> all_sent k b), os_calls := m,
            net_log := net_log w @ map (Wrote (c_fd k)) chunks @ segs\<rparr>" "concat chunks = unread (c_write_buf k)"
     "if c_zc_fd k = - 1 then segs = []
      else covers (c_fd k) (c_zc_fd k) (c_zc_offset k) (c_zc_len k - c_zc_writed k) segs"
    using WriteToPeer_all [OF assms] by blast
  have "(e AND NOT kWriteEvents) AND kWriteEvents = 0" for e
    by (simp add: and.assoc)
  then show ?thesis
    using r
    by (intro exI [of _ "set_events c (ch_events (c_channel k) AND NOT kWriteEvents) (all_sent k b) w1"]
          exI [of _ "(all_sent k b)\<lparr>c_channel := (c_channel k)\<lparr>ch_events := ch_events (c_channel k) AND NOT kWriteEvents\<rparr>\<rparr>"]
          exI [of _ chunks] exI [of _ segs])
      (simp add: world_simps all_sent_def is_writing_def)
qed

text \<open>C36: a read that would block (a spurious readiness) is taken for \<open>2 ^ 64 - 1\<close> bytes received: the
  server stops, whatever the state of the buffer.\<close>

theorem ReadFromPeer_would_block_faults:
  assumes "InLoopThread w" "conns w c = Some k" "buffer_ok (c_read_buf k)" "\<And>i n. os_readv os i n = Inl EAGAIN"
  shows "\<exists>e. ReadFromPeer os u c w = Some (Inl e)"
proof -
  let ?left = "length (internal_buf (c_read_buf k)) - write_index (c_read_buf k)"
  have "BytesCanWrite (c_read_buf k) = Inr ?left" "?left \<le> vector_max_size"
    using assms(3) by (auto simp: BytesCanWrite_def buffer_ok_def)
  then show ?thesis
    using assms take_input_failed [of ?left "c_read_buf k"]
    by (auto simp: ReadFromPeer_def with_conn_Some Let_def would_block_def)
qed

text \<open>C37: when the file to send ends before the length announced, \<open>sendfile\<close> returns 0 and the loop
  goes round for ever: \<open>WriteToPeer\<close> does not return.\<close>

theorem WriteToPeer_short_file_hangs:
  assumes "InLoopThread w" "conns w c = Some k" "buffer_ok (c_write_buf k)" "unread (c_write_buf k) = []"
    and "c_zc_fd k \<noteq> - 1" "c_zc_writed k < c_zc_len k" "\<And>i n. os_sendfile os i n = Inr 0"
  shows "WriteToPeer os u c w = None"
proof -
  have "sendfile_loop os u c w = None"
    using sendfile_loop_stuck [of os u c w] assms(2,5-7) by (cases "sendfile_loop os u c w") (auto simp: short_file_def)
  then show ?thesis
    using assms(1-4) BytesToRead_ok [OF assms(3)] by (simp add: WriteToPeer_def with_conn_Some write_loop.simps)
qed

section \<open>Witnesses\<close>

text \<open>A started loop with one connection, and a network that takes what is offered.\<close>

definition one_connection :: "'x connection \<Rightarrow> 'x world" where
  "one_connection k = event_loop.extend idle_loop \<lparr>conns = [1 \<mapsto> k], os_calls = 0, net_log = []\<rparr>"

definition local_sockaddr :: sockaddr_in where
  "local_sockaddr = \<lparr>sin_family = AF_INET, sin_port = htons 9026, sin_addr = (127, 0, 0, 1)\<rparr>"

definition local_name :: net_address where
  "local_name = NetAddress_of_text (dotted (127, 0, 0, 1)) 9026"

lemma local_name: "NetAddress_of_sockaddr local_sockaddr = Inr local_name" "ToSockAddr local_name = Inr local_sockaddr"
  by (simp_all add: of_sockaddr local_sockaddr_def local_name_def ToSockAddr_def)

definition easy_net :: "(sock_errno + string) \<Rightarrow> (sock_errno + nat) option \<Rightarrow> os_net" where
  "easy_net input file = \<lparr>os_readv = \<lambda>i n. input, os_write = \<lambda>i n. Inr n,
     os_sendfile = \<lambda>i n. case file of None \<Rightarrow> Inr n | Some r \<Rightarrow> r,
     os_shutdown = \<lambda>i. True, os_so_error = \<lambda>i. 0, os_getsockname = \<lambda>i fd. Some local_sockaddr,
     os_getpeername = \<lambda>i fd. Some local_sockaddr,
     os_socket = \<lambda>i. 3, os_bind = \<lambda>i fd sa. True, os_connect = \<lambda>i fd sa. Connect_ok, os_listen = \<lambda>i fd. True, os_accept = \<lambda>i. 5,
     os_fcntl = \<lambda>i fd. 0 \<le> fd, os_address = \<lambda>i. i + 10, os_now = \<lambda>i. 0\<rparr>"

definition no_calls :: "('x, 'z) user_calls" where
  "no_calls = \<lparr>call_read = \<lambda>c w. Some (Inr w), call_close = \<lambda>fd w. Some (Inr w),
     call_connected = \<lambda>c w. Some (Inr w), call_write_done = \<lambda>c w. Some (Inr w)\<rparr>"

lemma one_connection_parts [simp]:
  "InLoopThread (one_connection k)" "conns (one_connection k) = [1 \<mapsto> k]"
  "net_log (one_connection k) = []" "os_calls (one_connection k) = 0"
  by (simp_all add: one_connection_def idle_loop_def event_loop.defs poller.defs InLoopThread_def)

definition demo_conn :: "unit connection" where
  "demo_conn = (new_connection 1 5 kConnected)\<lparr>c_write_buf := buffer_of ''hi'', c_zc_fd := 9, c_zc_len := 70\<rparr>"

lemma demo_conn_parts [simp]:
  "c_fd demo_conn = 5" "c_write_buf demo_conn = buffer_of ''hi''" "c_read_buf demo_conn = Buffer_init kDefaultReservedSize"
  "c_zc_fd demo_conn = 9" "c_zc_offset demo_conn = 0" "c_zc_len demo_conn = 70" "c_zc_writed demo_conn = 0"
  "c_wdcb demo_conn = False" "c_rcb demo_conn = False"
  by (simp_all add: demo_conn_def new_connection_def)

lemma default_buffer:
  "buffer_ok (Buffer_init kDefaultReservedSize)" "local_buf_len \<le> buffer_space (Buffer_init kDefaultReservedSize)"
  "length (internal_buf (Buffer_init kDefaultReservedSize)) - write_index (Buffer_init kDefaultReservedSize) = kDefaultReservedSize"
  "unread (Buffer_init kDefaultReservedSize) = []"
  by (simp_all add: buffer_ok_def Buffer_init_def kDefaultReservedSize_def vector_max_size_def buffer_space_def
      local_buf_len_def unread_def)

theorem WriteToPeer_delivers_witness:
  "\<exists>w1 k1 chunks segs.
     WriteToPeer (easy_net (Inr []) None) no_calls 1 (one_connection demo_conn) =
       call_user (c_wdcb demo_conn) (call_write_done no_calls 1) w1 \<and>
     net_log w1 = net_log (one_connection demo_conn) @ map (Wrote (c_fd demo_conn)) chunks @ segs \<and>
     concat chunks = unread (c_write_buf demo_conn) \<and>
     (if c_zc_fd demo_conn = - 1 then segs = []
      else covers (c_fd demo_conn) (c_zc_fd demo_conn) (c_zc_offset demo_conn)
             (c_zc_len demo_conn - c_zc_writed demo_conn) segs) \<and>
     conns w1 1 = Some k1 \<and> unread (c_write_buf k1) = [] \<and> c_zc_fd k1 = - 1 \<and> \<not> is_writing (c_channel k1)"
  by (rule WriteToPeer_delivers) (simp_all add: os_accepts_def easy_net_def buffer_of_ok vector_max_size_def)

theorem ReadFromPeer_would_block_faults_witness:
  "\<exists>e. ReadFromPeer (easy_net (Inl EAGAIN) None) no_calls 1 (one_connection demo_conn) = Some (Inl e)"
  by (rule ReadFromPeer_would_block_faults [where k = demo_conn]) (simp_all add: easy_net_def default_buffer)

theorem WriteToPeer_short_file_hangs_witness:
  "WriteToPeer (easy_net (Inr []) (Some (Inr 0))) no_calls 1
     (one_connection (demo_conn\<lparr>c_write_buf := Buffer_init 8\<rparr>)) = None"
  by (rule WriteToPeer_short_file_hangs [where k = "demo_conn\<lparr>c_write_buf := Buffer_init 8\<rparr>"])
    (simp_all add: easy_net_def Buffer_init_def buffer_ok_def vector_max_size_def unread_def)

end
