(* ===== verification/Tcp_Server_Laws.thy ===== *)
theory Tcp_Server_Laws
  imports Tcp_Server Tcp_Connection_Laws
begin

text \<open>
  The life of a connection in the server: which loop it gets, how it is in_table and
  registered, and what closing it does: the socket is shut, the channel removed and the
  descriptor closed in the same round of the loop, whatever is left in the write buffer.
\<close>

section \<open>The pool\<close>

fun next_loops :: "nat \<Rightarrow> loop_pool \<Rightarrow> (loop_ref list \<times> loop_pool) result" where
  "next_loops 0 p = Inr ([], p)"
| "next_loops (Suc k) p = andthen (NextLoop p) (\<lambda>(lr, p1). andthen (next_loops k p1) (\<lambda>(lrs, p2). Inr (lr # lrs, p2)))"

lemma next_loops_from:
  assumes "0 < n" "n < 2 ^ 32" "loop_thread_count p = n" "loops p = map Pool_loop [0 ..< n]" "next_loop p < n"
  shows "\<exists>p'. next_loops k p = Inr (map (\<lambda>i. Pool_loop ((next_loop p + i) mod n)) [0 ..< k], p')"
  using assms(3-)
proof (induction k arbitrary: p)
  case 0
  then show ?case by simp
next
  case (Suc k)
  define p1 where "p1 = p\<lparr>next_loop := (if next_loop p + 1 = n then 0 else next_loop p + 1)\<rparr>"
  have "next_loop p + 1 < 2 ^ 32 \<or> next_loop p + 1 = n" "n \<noteq> 2 ^ 32" using Suc.prems assms(2) by auto
  then have step: "NextLoop p = Inr (Pool_loop (next_loop p), p1)"
    using Suc.prems assms(1,2) by (auto simp: NextLoop_def p1_def Let_def)
  have p1: "loop_thread_count p1 = n" "loops p1 = map Pool_loop [0 ..< n]" "next_loop p1 < n"
    "next_loop p1 = (next_loop p + 1) mod n"
    using Suc.prems assms(1) by (auto simp: p1_def)
  from Suc.IH [OF p1(1-3)] obtain p' where p':
    "next_loops k p1 = Inr (map (\<lambda>i. Pool_loop ((next_loop p1 + i) mod n)) [0 ..< k], p')" by blast
  have "map (\<lambda>i. Pool_loop ((next_loop p + i) mod n)) [0 ..< Suc k] =
      Pool_loop (next_loop p) # map (\<lambda>i. Pool_loop ((next_loop p1 + i) mod n)) [0 ..< k]"
    unfolding map_upt_Suc using Suc.prems(3) p1(4) by (simp add: mod_add_left_eq) 
  then show ?case using step p' by simp
qed

text \<open>A started pool of \<open>n\<close> loops hands them out in turn, from the first one on.\<close>

theorem NextLoop_round_robin:
  assumes "0 < n" "n < 2 ^ 32"
  shows "\<exists>p. next_loops k (LoopPool_Start (SetLoopThreadCount n EventLoopThreadPool_init)) =
     Inr (map (\<lambda>i. Pool_loop (i mod n)) [0 ..< k], p)"
  using next_loops_from [OF assms, of "LoopPool_Start (SetLoopThreadCount n EventLoopThreadPool_init)" k] assms(1)
  by (simp add: LoopPool_Start_def SetLoopThreadCount_def EventLoopThreadPool_init_def)

theorem NextLoop_round_robin_witness:
  "\<exists>p. next_loops 5 (LoopPool_Start (SetLoopThreadCount 3 EventLoopThreadPool_init)) =
     Inr (map (\<lambda>i. Pool_loop (i mod 3)) [0 ..< 5], p)"
  by (rule NextLoop_round_robin) simp_all

section \<open>The parts of the server's state\<close>

lemma server_parts [world_simps]:
  fixes w :: "('x, 'z) server_world_scheme"
  shows "srv_connections (set_conn c k w) = srv_connections w"
    "srv_connections (log_net e w) = srv_connections w"
    "srv_connections (count_call w) = srv_connections w"
    "srv_connections (Poller_UpdateChannel ch w) = srv_connections w"
    "srv_connections (set_events c ev k w) = srv_connections w"
    "srv_conn_loop (set_conn c k w) = srv_conn_loop w"
    "srv_conn_loop (log_net e w) = srv_conn_loop w"
    "srv_conn_loop (count_call w) = srv_conn_loop w"
    "srv_conn_loop (Poller_UpdateChannel ch w) = srv_conn_loop w"
    "srv_conn_loop (set_events c ev k w) = srv_conn_loop w"
    "srv_rcb (set_conn c k w) = srv_rcb w"
    "srv_nccb (set_conn c k w) = srv_nccb w"
    "srv_cccb (set_conn c k w) = srv_cccb w"
    "srv_cccb (log_net e w) = srv_cccb w"
    "srv_cccb (count_call w) = srv_cccb w"
    "srv_cccb (Poller_UpdateChannel ch w) = srv_cccb w"
    "srv_cccb (set_events c ev k w) = srv_cccb w"
  by (simp_all add: set_conn_def log_net_def count_call_def Poller_UpdateChannel_def set_events_def split: option.splits)

lemma loop_parts [world_simps]:
  fixes w :: "('x, 'z) world_scheme"
  shows "p_channels (set_conn c k w) = p_channels w"
    "p_channels (log_net e w) = p_channels w"
    "p_channels (count_call w) = p_channels w"
    "calling_functors (set_conn c k w) = calling_functors w"
    "calling_functors (log_net e w) = calling_functors w"
    "calling_functors (count_call w) = calling_functors w"
    "calling_functors (set_events c ev k w) = calling_functors w"
  by (auto simp: set_conn_def log_net_def count_call_def Poller_UpdateChannel_def set_events_def split: option.splits)

lemma QueueInLoop_parts [world_simps]:
  fixes w :: "('x, 'z) server_world_scheme"
  shows "conns (QueueInLoop f w) = conns w"
    "net_log (QueueInLoop f w) = net_log w"
    "os_calls (QueueInLoop f w) = os_calls w"
    "InLoopThread (QueueInLoop f w) = InLoopThread w"
    "functors (QueueInLoop f w) = functors w @ [f]"
    "p_channels (QueueInLoop f w) = p_channels w"
    "srv_connections (QueueInLoop f w) = srv_connections w"
    "calling_functors (QueueInLoop f w) = calling_functors w"
  by (simp_all add: QueueInLoop_def WakeUp_def Let_def InLoopThread_def)

lemma registered_after: 
  fixes w :: "('x, 'z) world_scheme"
  shows "p_channels (set_events c ev k w) (ch_fd (c_channel k)) \<noteq> None"
  by (auto simp: set_conn_def Poller_UpdateChannel_def set_events_def split: option.splits)

lemma registered_stays:
  fixes w :: "('x, 'z) world_scheme"
  shows "p_channels w (ch_fd ch) \<noteq> None \<Longrightarrow> p_channels (Poller_UpdateChannel ch w) = p_channels w"
    "p_channels w (ch_fd (c_channel k)) \<noteq> None \<Longrightarrow> p_channels (set_events c ev k w) = p_channels w"
  by (auto simp: set_conn_def Poller_UpdateChannel_def set_events_def split: option.splits)

text \<open>What serving a connection leaves as it is.\<close>

definition kept ::
  "('x, 'z) server_world_scheme \<Rightarrow>
   acceptor \<times> loop_pool \<times> bool \<times> bool \<times> bool \<times> loop_functor option \<times> loop_functor wheel" where
  "kept w = (srv_acceptor w, srv_pool w, srv_rcb w, srv_nccb w, srv_cccb w, period_functor w, timer_mgr w)"

lemma kept_parts [world_simps]:
  fixes w :: "('x, 'z) server_world_scheme"
  shows "kept (set_conn c k w) = kept w"
    "kept (log_net e w) = kept w"
    "kept (count_call w) = kept w"
    "kept (Poller_UpdateChannel ch w) = kept w"
    "kept (set_events c ev k w) = kept w"
    "kept (QueueInLoop f w) = kept w"
  by (simp_all add: kept_def set_conn_def log_net_def count_call_def Poller_UpdateChannel_def set_events_def
      QueueInLoop_def WakeUp_def Let_def split: option.splits)

lemma kept_updates [world_simps]:
  fixes w :: "('x, 'z) server_world_scheme"
  shows "kept (w\<lparr>conns := x0\<rparr>) = kept w"
    "kept (w\<lparr>p_channels := x1\<rparr>) = kept w"
    "kept (w\<lparr>epoll_calls := x2\<rparr>) = kept w"
    "kept (w\<lparr>os_calls := x3\<rparr>) = kept w"
    "kept (w\<lparr>net_log := x4\<rparr>) = kept w"
    "kept (w\<lparr>calling_functors := x5\<rparr>) = kept w"
    "kept (w\<lparr>functors := x6\<rparr>) = kept w"
    "kept (w\<lparr>srv_connections := x7\<rparr>) = kept w"
    "kept (w\<lparr>srv_conn_loop := x8\<rparr>) = kept w"
    "kept (w\<lparr>iteration := x9\<rparr>) = kept w"
    "kept (w\<lparr>p_events_size := x10\<rparr>) = kept w"
  by (simp_all add: kept_def)

lemma in_loop_updates:
  fixes w :: "('x, 'z) server_world_scheme"
  shows "InLoopThread (w\<lparr>conns := x0\<rparr>) = InLoopThread w"
    "InLoopThread (w\<lparr>p_channels := x1\<rparr>) = InLoopThread w"
    "InLoopThread (w\<lparr>epoll_calls := x2\<rparr>) = InLoopThread w"
    "InLoopThread (w\<lparr>os_calls := x3\<rparr>) = InLoopThread w"
    "InLoopThread (w\<lparr>net_log := x4\<rparr>) = InLoopThread w"
    "InLoopThread (w\<lparr>calling_functors := x5\<rparr>) = InLoopThread w"
    "InLoopThread (w\<lparr>functors := x6\<rparr>) = InLoopThread w"
    "InLoopThread (w\<lparr>srv_connections := x7\<rparr>) = InLoopThread w"
    "InLoopThread (w\<lparr>srv_conn_loop := x8\<rparr>) = InLoopThread w"
    "InLoopThread (w\<lparr>iteration := x9\<rparr>) = InLoopThread w"
    "InLoopThread (w\<lparr>p_events_size := x10\<rparr>) = InLoopThread w"
  by (simp_all add: InLoopThread_def)

section \<open>Closing\<close>

definition forget :: "int \<Rightarrow> ('x, 'z) server_world_scheme \<Rightarrow> ('x, 'z) server_world_scheme" where
  "forget fd w = w\<lparr>srv_connections := (srv_connections w)(fd := None)\<rparr>"

lemma forget_parts [world_simps]:
  "conns (forget fd w) = conns w" "net_log (forget fd w) = net_log w" "os_calls (forget fd w) = os_calls w"
  "InLoopThread (forget fd w) = InLoopThread w" "functors (forget fd w) = functors w"
  "p_channels (forget fd w) = p_channels w" "srv_connections (forget fd w) = (srv_connections w)(fd := None)"
  "calling_functors (forget fd w) = calling_functors w" "kept (forget fd w) = kept w"
  by (simp_all add: forget_def InLoopThread_def kept_def)

text \<open>A connection of the base loop that the server knows.\<close>

definition served :: "nat \<Rightarrow> 'x connection \<Rightarrow> ('x, 'z) server_world_scheme \<Rightarrow> bool" where
  "served c k w \<longleftrightarrow>
     InLoopThread w \<and> conns w c = Some k \<and> c_ccb k \<and> srv_connections w (c_fd k) = Some c \<and>
     srv_conn_loop w c = Base_loop \<and> \<not> srv_cccb w"

lemma server_forgets:
  assumes "InLoopThread w" "srv_connections w fd = Some c" "srv_conn_loop w c = Base_loop" "\<not> srv_cccb w"
  shows "OnConnectionClosed os v fd w = Some (Inr (QueueInLoop (F_destroy c) (forget fd w)))"
  using assms
  by (simp add: OnConnectionClosed_def RunInLoop_def run_functor_def HandleConnectionClose_def Let_def
      queue_in_loop_def forget_def)

text \<open>The connection and the world after a close.\<close>

definition closed_conn :: "32 word \<Rightarrow> 'x connection \<Rightarrow> 'x connection" where
  "closed_conn ev k = k\<lparr>c_channel := (c_channel k)\<lparr>ch_events := ev\<rparr>, c_state := kDisconnected\<rparr>"

lemma ActiveClose_server:
  assumes "served c k w" "c_state k = kConnected" "os_shutdown os (os_calls w)"
  shows "\<exists>w1 ev. ActiveClose os (server_user_calls os v) c w = Some (Inr w1) \<and>
     conns w1 c = Some (closed_conn ev k) \<and> InLoopThread w1 \<and> functors w1 = functors w @ [F_destroy c] \<and>
     net_log w1 = net_log w @ [Shut_read (c_fd k)] \<and> srv_connections w1 = (srv_connections w)(c_fd k := None) \<and>
     p_channels w1 (ch_fd (c_channel k)) \<noteq> None \<and> kept w1 = kept w \<and>
     (p_channels w (ch_fd (c_channel k)) \<noteq> None \<longrightarrow> p_channels w1 = p_channels w) \<and>
     conns w1 = (conns w)(c \<mapsto> closed_conn ev k)"
proof -
  note s = assms(1) [unfolded served_def]
  define ev where "ev = ch_events (c_channel k) AND NOT kReadEvents"
  define w1 where "w1 = log_net (Shut_read (c_fd k)) (count_call (set_events c ev k w))"
  define w2 where "w2 = set_conn c (closed_conn ev k) w1"
  have w1: "conns w1 c = Some (k\<lparr>c_channel := (c_channel k)\<lparr>ch_events := ev\<rparr>\<rparr>)"
    by (simp add: w1_def world_simps)
  have "ActiveClose os (server_user_calls os v) c w = OnConnectionClosed os v (c_fd k) w2"
    using s assms(2,3) w1
    by (simp add: ActiveClose_def with_conn_Some on_channel_events socketop_DisableReading_def set_events_parts
        w1_def [symmetric] ev_def [symmetric] call_user_def server_user_calls_def closed_conn_def w2_def)
  also have "\<dots> = Some (Inr (QueueInLoop (F_destroy c) (forget (c_fd k) w2)))"
    by (rule server_forgets) (use s in \<open>simp_all add: w2_def w1_def world_simps\<close>)
  finally show ?thesis
    using s registered_after [of c ev k w] registered_stays(2) [of w k c ev] by (auto simp: w2_def w1_def world_simps)
qed

lemma Destroy_server:
  assumes "InLoopThread w" "conns w c = Some k" "c_state k = kDisconnected" "os_shutdown os (os_calls w)"
    and "p_channels w (ch_fd (c_channel k)) \<noteq> None" "\<not> ch_handling_events (c_channel k)"
  shows "\<exists>w1. run_functor os v (F_destroy c) w = Some (Inr w1) \<and> conns w1 = (conns w)(c := None) \<and>
     net_log w1 = net_log w @ [Shut_write (c_fd k), Fd_closed (c_fd k)] \<and>
     srv_connections w1 = srv_connections w \<and> p_channels w1 = (p_channels w)(ch_fd (c_channel k) := None) \<and>
     functors w1 = functors w \<and> InLoopThread w1 \<and> kept w1 = kept w \<and> srv_conn_loop w1 = srv_conn_loop w"
  using assms
  by (simp add: run_functor_def TcpConnection_Destroy_def with_conn_Some socketop_DisableWriting_def world_simps
      EventLoop_RemoveChannel_def Poller_RemoveChannel_def TcpConnection_delete_def with_conn_def in_loop_updates)

lemma CallPending_one:
  fixes w :: "('x, 'z) server_world_scheme"
  assumes "functors w = [f]" "exec f (w\<lparr>calling_functors := True, functors := []\<rparr>) = Some (Inr w1)"
  shows "CallPendingFunctors exec w = Some (Inr (end_calls w1))"
  using assms by (simp add: CallPendingFunctors_def begin_calls_def)

lemma end_calls_parts [world_simps]:
  fixes w :: "('x, 'z) server_world_scheme"
  shows "conns (end_calls w) = conns w" "net_log (end_calls w) = net_log w"
    "srv_connections (end_calls w) = srv_connections w" "p_channels (end_calls w) = p_channels w"
    "functors (end_calls w) = functors w" "InLoopThread (end_calls w) = InLoopThread w" "kept (end_calls w) = kept w"
    "os_calls (end_calls w) = os_calls w" "srv_conn_loop (end_calls w) = srv_conn_loop w" "srv_cccb (end_calls w) = srv_cccb w"
  by (simp_all add: end_calls_def InLoopThread_def kept_def)

lemma Destroy_pending:
  fixes w :: "('x, 'z) server_world_scheme"
  assumes "functors w = [F_destroy c]" "InLoopThread w" "conns w c = Some k" "c_state k = kDisconnected"
    and "os_shutdown os (os_calls w)" "p_channels w (ch_fd (c_channel k)) \<noteq> None"
    and "\<not> ch_handling_events (c_channel k)"
  shows "\<exists>w1. CallPendingFunctors (run_functor os v) w = Some (Inr w1) \<and> conns w1 = (conns w)(c := None) \<and>
     net_log w1 = net_log w @ [Shut_write (c_fd k), Fd_closed (c_fd k)] \<and>
     srv_connections w1 = srv_connections w \<and> p_channels w1 = (p_channels w)(ch_fd (c_channel k) := None) \<and>
     functors w1 = [] \<and> InLoopThread w1 \<and> kept w1 = kept w"
proof -
  let ?w = "w\<lparr>calling_functors := True, functors := []\<rparr>"
  obtain w1 where "run_functor os v (F_destroy c) ?w = Some (Inr w1)" "conns w1 = (conns w)(c := None)"
     "net_log w1 = net_log w @ [Shut_write (c_fd k), Fd_closed (c_fd k)]"
     "srv_connections w1 = srv_connections w" "p_channels w1 = (p_channels w)(ch_fd (c_channel k) := None)"
     "functors w1 = []" "InLoopThread w1" "kept w1 = kept w"
    using Destroy_server [of ?w c k os v] assms by (auto simp: InLoopThread_def kept_def)
  then show ?thesis using CallPending_one [of w "F_destroy c" "run_functor os v" w1] assms(1)
    by (auto simp: world_simps)
qed

text \<open>C12: closing a connection of the server: \<open>ActiveClose\<close> shuts the socket for reading and takes it
  out of the server's table; the pending functors of the same round shut it for writing,
  remove the channel from the poller, close the descriptor and delete the connection. This
  is so whatever the write buffer holds: bytes not written yet are dropped.\<close>

theorem server_close_protocol:
  assumes "served c k w" "c_state k = kConnected" "functors w = []" "\<And>i. os_shutdown os i"
    and "\<not> ch_handling_events (c_channel k)"
  shows "\<exists>w1 w2. ActiveClose os (server_user_calls os v) c w = Some (Inr w1) \<and>
     CallPendingFunctors (run_functor os v) w1 = Some (Inr w2) \<and>
     net_log w2 = net_log w @ [Shut_read (c_fd k), Shut_write (c_fd k), Fd_closed (c_fd k)] \<and>
     conns w2 c = None \<and> srv_connections w2 (c_fd k) = None \<and> p_channels w2 (ch_fd (c_channel k)) = None"
proof -
  obtain w1 ev where w1: "ActiveClose os (server_user_calls os v) c w = Some (Inr w1)"
     "conns w1 c = Some (closed_conn ev k)" "InLoopThread w1" "functors w1 = [F_destroy c]"
     "net_log w1 = net_log w @ [Shut_read (c_fd k)]" "srv_connections w1 = (srv_connections w)(c_fd k := None)"
     "p_channels w1 (ch_fd (c_channel k)) \<noteq> None"
    using ActiveClose_server [OF assms(1,2,4), of v] assms(3) by auto
  have k: "c_state (closed_conn ev k) = kDisconnected" "ch_fd (c_channel (closed_conn ev k)) = ch_fd (c_channel k)"
    "c_fd (closed_conn ev k) = c_fd k" "\<not> ch_handling_events (c_channel (closed_conn ev k))"
    using assms(5) by (simp_all add: closed_conn_def)
  from Destroy_pending [OF w1(4,3,2) k(1) assms(4) _ k(4), of v] w1(7) k obtain w2 where
    "CallPendingFunctors (run_functor os v) w1 = Some (Inr w2)" "conns w2 = (conns w1)(c := None)"
     "net_log w2 = net_log w1 @ [Shut_write (c_fd k), Fd_closed (c_fd k)]"
     "srv_connections w2 = srv_connections w1" "p_channels w2 = (p_channels w1)(ch_fd (c_channel k) := None)" by auto
  then show ?thesis using w1 by auto
qed

text \<open>C35: a peer that resets the connection stops the server: the read fails, the connection is closed
  passively, and \<open>Destroy\<close> then shuts a socket that is not connected any more, where \<open>shutdown\<close>
  fails (\<open>ENOTCONN\<close>) and \<open>PCHECK\<close> aborts.\<close>

theorem server_reset_aborts:
  assumes "served c k w" "c_state k = kConnected" "functors w = []" "\<And>i. \<not> os_shutdown os i"
  shows "\<exists>w1. PassiveClose os (server_user_calls os v) c w = Some (Inr w1) \<and>
     CallPendingFunctors (run_functor os v) w1 = Some (Inl Check_failed)"
proof -
  note s = assms(1) [unfolded served_def]
  define k1 where "k1 = k\<lparr>c_state := kDisconnected\<rparr>"
  define w1 where "w1 = set_conn c k1 w"
  define e1 where "e1 = ch_events (c_channel k1) AND NOT kReadEvents"
  define k2 where "k2 = k1\<lparr>c_channel := (c_channel k1)\<lparr>ch_events := e1\<rparr>\<rparr>"
  define w2 where "w2 = set_events c e1 k1 w1"
  define e2 where "e2 = ch_events (c_channel k2) AND NOT kWriteEvents"
  define w3 where "w3 = set_events c e2 k2 w2"
  have w1: "InLoopThread w1" "conns w1 c = Some k1" using s by (simp_all add: w1_def world_simps)
  have w2: "InLoopThread w2" "conns w2 c = Some k2" using w1 by (simp_all add: w2_def k2_def world_simps)
  have w3: "InLoopThread w3" "srv_connections w3 (c_fd k) = Some c" "srv_conn_loop w3 c = Base_loop" "\<not> srv_cccb w3"
    "functors w3 = []" "conns w3 c = Some (k2\<lparr>c_channel := (c_channel k2)\<lparr>ch_events := e2\<rparr>\<rparr>)"
    using s w2 assms(3) by (simp_all add: w3_def w2_def w1_def world_simps)
  have "PassiveClose os (server_user_calls os v) c w = OnConnectionClosed os v (c_fd k) w3"
    using s assms(2) w1 w2
    by (simp add: PassiveClose_def with_conn_Some k1_def [symmetric] w1_def [symmetric] on_channel_events(2) [OF w1]
        on_channel_events(4) [OF w2] e1_def [symmetric] w2_def [symmetric] e2_def [symmetric] w3_def [symmetric]
        call_user_def server_user_calls_def)
  also have "\<dots> = Some (Inr (QueueInLoop (F_destroy c) (forget (c_fd k) w3)))"
    by (rule server_forgets [OF w3(1-4)])
  finally have p: "PassiveClose os (server_user_calls os v) c w = Some (Inr (QueueInLoop (F_destroy c) (forget (c_fd k) w3)))" .
  let ?w = "QueueInLoop (F_destroy c) (forget (c_fd k) w3)"
  have "functors ?w = [F_destroy c]" "InLoopThread ?w" "conns ?w c = conns w3 c"
    using w3 by (simp_all add: world_simps)
  then have "CallPendingFunctors (run_functor os v) ?w = Some (Inl Check_failed)"
    using w3(6) assms(4)
    by (simp add: CallPendingFunctors_def begin_calls_def run_functor_def TcpConnection_Destroy_def with_conn_def
        InLoopThread_def k2_def k1_def socketop_DisableWriting_def)
  then show ?thesis using p by blast
qed

section \<open>A new connection\<close>

definition accepted :: "net_address \<times> net_address \<Rightarrow> nat \<Rightarrow> int \<Rightarrow> bool \<Rightarrow> 'x connection" where
  "accepted names c fd rcb =
     (new_connection c fd kConnected)
       \<lparr>c_channel := (Channel_init c fd)\<lparr>ch_rcb := Some On_read_from_peer, ch_wcb := Some On_write_to_peer,
                        ch_ecb := Some On_handle_error\<rparr>,
        c_local_addr := Some (fst names), c_peer_addr := Some (snd names),
        c_rcb := rcb, c_ccb := True\<rparr>"

text \<open>The two ends of a connected socket.\<close>

definition named :: "os_net \<Rightarrow> nat \<Rightarrow> int \<Rightarrow> net_address \<times> net_address \<Rightarrow> bool" where
  "named os n fd names \<longleftrightarrow>
     GetLocalAddr (os_getsockname os n fd) = Inr (fst names) \<and> GetPeerAddr (os_getpeername os n fd) = Inr (snd names)"

lemma named_known:
  assumes "os_getsockname os n fd \<noteq> None" "os_getpeername os n fd \<noteq> None"
  obtains names where "named os n fd names"
  using assms that by (auto simp: named_def GetLocalAddr_def GetPeerAddr_def of_sockaddr)

text \<open>The server with the new connection in its table, before the functors of the connection.\<close>

definition in_table ::
  "net_address \<times> net_address \<Rightarrow> loop_ref \<Rightarrow> loop_pool \<Rightarrow> nat \<Rightarrow> int \<Rightarrow> ('x, 'z) server_world_scheme \<Rightarrow> ('x, 'z) server_world_scheme" where
  "in_table names lr pool c fd w =
     (set_conn c (accepted names c fd (srv_rcb w)) (w\<lparr>srv_pool := pool, srv_conn_loop := (srv_conn_loop w)(c := lr)\<rparr>))
       \<lparr>srv_connections := (srv_connections w)(fd \<mapsto> c)\<rparr>"

lemma enters_loop:
  assumes "NextLoop (srv_pool w) = Inr (lr, pool)" "srv_connections w fd = None" "named os (os_calls w) fd names"
  shows "TcpServer_OnNewConnection os v c fd w =
      then_run
        (if srv_nccb w then run_in_loop (run_user_functor v) lr (F_new_connection c) (in_table names lr pool c fd w)
         else Some (Inr (in_table names lr pool c fd w)))
        (run_in_loop run_channel_functor lr (F_enable_reading c))"
proof -
  define w0 where "w0 = w\<lparr>srv_pool := pool, srv_conn_loop := (srv_conn_loop w)(c := lr)\<rparr>"
  have init: "TcpConnection_init os c fd kConnected w0 =
      Some (Inr (set_conn c ((accepted names c fd True)\<lparr>c_rcb := False, c_ccb := False\<rparr>) w0))"
    using assms(3)
    by (simp add: TcpConnection_init_def Let_def ClearZeroCopyWrite_def new_connection_def GetAddress_def named_def
        with_conn_def set_conn_def accepted_def w0_def)
  have w1: "set_conn c (((accepted names c fd True)\<lparr>c_rcb := False, c_ccb := False\<rparr>)\<lparr>c_rcb := srv_rcb w, c_ccb := True\<rparr>)
       (set_conn c ((accepted names c fd True)\<lparr>c_rcb := False, c_ccb := False\<rparr>) w0)
       \<lparr>srv_connections := (srv_connections w)(fd \<mapsto> c)\<rparr> = in_table names lr pool c fd w"
    by (simp add: in_table_def w0_def accepted_def set_conn_def)
  have w0_parts: "srv_connections w0 = srv_connections w" "srv_rcb w0 = srv_rcb w" "srv_nccb w0 = srv_nccb w"
    by (simp_all add: w0_def)
  have "srv_nccb (in_table names lr pool c fd w) = srv_nccb w" by (simp add: in_table_def set_conn_def)
  then show ?thesis
    using assms(1,2)
    by (simp add: TcpServer_OnNewConnection_def w0_def [symmetric] init with_conn_def world_simps Let_def w1 [symmetric] w0_parts)
qed

lemma enters_parts:
  assumes "InLoopThread w" "loop_thread_count (srv_pool w) = 0" "srv_connections w fd = None"
    and "named os (os_calls w) fd names"
  shows "\<exists>w1. TcpServer_OnNewConnection os v c fd w =
      then_run (if srv_nccb w then on_new v c w1 else Some (Inr w1)) (StartReading c) \<and>
    InLoopThread w1 \<and> srv_conn_loop w1 = (srv_conn_loop w)(c := Base_loop) \<and>
    conns w1 = (conns w)(c \<mapsto> accepted names c fd (srv_rcb w)) \<and>
    srv_connections w1 = (srv_connections w)(fd \<mapsto> c) \<and> functors w1 = functors w \<and> net_log w1 = net_log w \<and>
    os_calls w1 = os_calls w \<and> kept w1 = kept w \<and> p_channels w1 = p_channels w"
proof -
  have next_loop: "NextLoop (srv_pool w) = Inr (Base_loop, srv_pool w)" using assms(2) by (simp add: NextLoop_def)
  define w1 where "w1 = in_table names Base_loop (srv_pool w) c fd w"
  have in_loop: "InLoopThread w1" using assms(1) by (simp add: w1_def in_table_def set_conn_def InLoopThread_def)
  have run: "run_in_loop exec Base_loop f = RunInLoop exec f"
    for exec and f :: loop_functor by (simp add: run_in_loop_def fun_eq_iff)
  have "TcpServer_OnNewConnection os v c fd w =
      then_run (if srv_nccb w then on_new v c w1 else Some (Inr w1)) (StartReading c)"
    using in_loop
    by (simp add: enters_loop [OF next_loop assms(3,4)] w1_def [symmetric] run StartReading_def)
      (simp add: RunInLoop_def run_user_functor_def)
  then show ?thesis
    using in_loop
    by (intro exI [of _ w1])
      (simp add: w1_def in_table_def set_conn_def kept_def)
qed

lemma enters_server:
  assumes "InLoopThread w" "loop_thread_count (srv_pool w) = 0" "srv_connections w fd = None" "\<not> srv_cccb w"
    and "named os (os_calls w) fd names"
  shows "\<exists>w1. TcpServer_OnNewConnection os v c fd w =
      then_run (if srv_nccb w then on_new v c w1 else Some (Inr w1)) (StartReading c) \<and>
    served c (accepted names c fd (srv_rcb w)) w1 \<and> conns w1 = (conns w)(c \<mapsto> accepted names c fd (srv_rcb w)) \<and>
    srv_connections w1 = (srv_connections w)(fd \<mapsto> c) \<and> functors w1 = functors w \<and> net_log w1 = net_log w \<and>
    os_calls w1 = os_calls w \<and> kept w1 = kept w \<and> p_channels w1 = p_channels w"
proof -
  obtain w1 where w1: "TcpServer_OnNewConnection os v c fd w =
      then_run (if srv_nccb w then on_new v c w1 else Some (Inr w1)) (StartReading c)"
    "InLoopThread w1" "srv_conn_loop w1 = (srv_conn_loop w)(c := Base_loop)"
    "conns w1 = (conns w)(c \<mapsto> accepted names c fd (srv_rcb w))"
    "srv_connections w1 = (srv_connections w)(fd \<mapsto> c)" "functors w1 = functors w" "net_log w1 = net_log w"
    "os_calls w1 = os_calls w" "kept w1 = kept w" "p_channels w1 = p_channels w"
    using enters_parts [OF assms(1-3,5), of v c] by blast
  moreover have "\<not> srv_cccb w1" using w1(9) assms(4) by (simp add: kept_def)
  ultimately show ?thesis by (intro exI [of _ w1]) (simp add: served_def accepted_def new_connection_def)
qed

text \<open>With the single loop, an accepted descriptor becomes a connected connection with its
  callbacks, in the server's table; the new-connection callback runs on it first, then
  reading is enabled.\<close>

theorem OnNewConnection_enters:
  assumes "InLoopThread w" "loop_thread_count (srv_pool w) = 0" "srv_connections w fd = None" "\<not> srv_cccb w"
    and "named os (os_calls w) fd names"
  shows "\<exists>w1. TcpServer_OnNewConnection os v c fd w =
      then_run (if srv_nccb w then on_new v c w1 else Some (Inr w1)) (StartReading c) \<and>
    served c (accepted names c fd (srv_rcb w)) w1 \<and> conns w1 = (conns w)(c \<mapsto> accepted names c fd (srv_rcb w)) \<and>
    srv_connections w1 = (srv_connections w)(fd \<mapsto> c) \<and> functors w1 = functors w \<and> net_log w1 = net_log w \<and>
    os_calls w1 = os_calls w"
  using enters_server [OF assms, of v c] by blast

section \<open>Witnesses\<close>

definition empty_server :: "'x server_world" where
  "empty_server =
     world.extend (event_loop.extend idle_loop \<lparr>conns = Map.empty, os_calls = 0, net_log = []\<rparr>)
       \<lparr>srv_local_addr = local_name, srv_acceptor = Acceptor_init 0, srv_connections = Map.empty, srv_conn_loop = \<lambda>c. Base_loop, srv_pool = EventLoopThreadPool_init,
        srv_rcb = True, srv_cccb = False, srv_nccb = True, posted = []\<rparr>"

definition one_served :: "'x connection \<Rightarrow> 'x server_world" where
  "one_served k = empty_server\<lparr>conns := [1 \<mapsto> k], srv_connections := [c_fd k \<mapsto> 1]\<rparr>"

definition silent_calls :: "('x, 'z) server_calls" where
  "silent_calls = \<lparr>on_read = \<lambda>c w. Some (Inr w), on_write_done = \<lambda>c w. Some (Inr w),
     on_new = \<lambda>c w. Some (Inr w), on_timer = \<lambda>c w. Some (Inr w),
     on_closed = \<lambda>c w. Some (Inr w)\<rparr>"

lemma empty_server_parts [simp]:
  "InLoopThread empty_server" "functors empty_server = []" "net_log empty_server = []" "os_calls empty_server = 0"
  "conns empty_server = Map.empty" "srv_connections empty_server = Map.empty"
  "loop_thread_count (srv_pool empty_server) = 0" "srv_rcb empty_server" "\<not> srv_cccb empty_server" "srv_nccb empty_server"
  "srv_conn_loop empty_server c = Base_loop"
  by (simp_all add: empty_server_def world.defs event_loop.defs poller.defs idle_loop_def InLoopThread_def
      EventLoopThreadPool_init_def)

lemma one_served_parts [simp]:
  "functors (one_served k) = []" "net_log (one_served k) = []" "served 1 k (one_served k) = c_ccb k"
  using empty_server_parts(1) [where 'a = 'a] by (simp_all add: one_served_def served_def InLoopThread_def)

lemma one_served_first [simp]: "served (Suc 0) k (one_served k) = c_ccb k"
  using one_served_parts(3) [of k] by simp

text \<open>A connection with an answer that was not written yet.\<close>

definition demo_served :: "unit connection" where
  "demo_served = (accepted (local_name, local_name) 1 5 True)\<lparr>c_write_buf := buffer_of ''lost''\<rparr>"

lemma demo_served_parts [simp]: "c_ccb demo_served" "c_state demo_served = kConnected" "\<not> ch_handling_events (c_channel demo_served)"
  by (simp_all add: demo_served_def accepted_def new_connection_def Channel_init_def)

theorem server_close_protocol_witness:
  "\<exists>w1 w2. ActiveClose (easy_net (Inr []) None) (server_user_calls (easy_net (Inr []) None) silent_calls) 1
       (one_served demo_served) = Some (Inr w1) \<and>
     CallPendingFunctors (run_functor (easy_net (Inr []) None) silent_calls) w1 = Some (Inr w2) \<and>
     net_log w2 = net_log (one_served demo_served) @
       [Shut_read (c_fd demo_served), Shut_write (c_fd demo_served), Fd_closed (c_fd demo_served)] \<and>
     conns w2 1 = None \<and> srv_connections w2 (c_fd demo_served) = None \<and>
     p_channels w2 (ch_fd (c_channel demo_served)) = None"
  by (rule server_close_protocol) (simp_all add: easy_net_def)

definition reset_net :: os_net where
  "reset_net = (easy_net (Inl Other_error) None)\<lparr>os_shutdown := \<lambda>i. False\<rparr>"

theorem server_reset_aborts_witness:
  "\<exists>w1. PassiveClose reset_net (server_user_calls reset_net silent_calls) 1 (one_served demo_served) = Some (Inr w1) \<and>
     CallPendingFunctors (run_functor reset_net silent_calls) w1 = Some (Inl Check_failed)"
  by (rule server_reset_aborts [where k = demo_served]) (simp_all add: reset_net_def)

definition demo_server :: "unit server_world" where
  "demo_server = empty_server"

theorem OnNewConnection_enters_witness:
  "\<exists>w1. TcpServer_OnNewConnection (easy_net (Inr []) None) silent_calls 1 5 demo_server =
      then_run (if srv_nccb demo_server then on_new silent_calls 1 w1 else Some (Inr w1)) (StartReading 1) \<and>
    served 1 (accepted (local_name, local_name) 1 5 (srv_rcb demo_server)) w1 \<and>
    conns w1 = (conns demo_server)(1 \<mapsto> accepted (local_name, local_name) 1 5 (srv_rcb demo_server)) \<and>
    srv_connections w1 = (srv_connections demo_server)(5 \<mapsto> 1) \<and> functors w1 = functors demo_server \<and>
    net_log w1 = net_log demo_server \<and> os_calls w1 = os_calls demo_server"
  by (rule OnNewConnection_enters)
    (simp_all add: demo_server_def named_def GetLocalAddr_def GetPeerAddr_def easy_net_def local_name)

end
