(* ===== verification/Tcp_Rounds.thy ===== *)
theory Tcp_Rounds
  imports Tcp_Server_Laws Timer_Wheel_Laws
begin

text \<open>
  The TCP server in its loop: what one round of \<open>EventLoop::Run\<close> does with one active channel,
  how the server starts to listen, and what an \<open>accept\<close> that fails does.
\<close>

unbundle bit_operations_syntax

section \<open>A loop without timers\<close>

definition idle_wheel :: "nat \<Rightarrow> nat \<Rightarrow> 'c wheel \<Rightarrow> bool" where
  "idle_wheel t x tm \<longleftrightarrow>
     wheel_ok tm \<and> timers tm = Map.empty \<and> last_expire_time tm = t \<and> clock (hands tm) = x"

lemma idle_init: "idle_wheel t 0 (TimerWheel_init t)"
  by (simp add: idle_wheel_def init_wheel_ok) (simp add: TimerWheel_init_def hands_def)

lemma idle_step:
  assumes "idle_wheel t x tm" "t \<le> now" "x + (now - t) < 2 ^ 31"
  shows "\<exists>tm'. TimerWheel_Step tm now = Inr ([], tm') \<and> idle_wheel now (x + (now - t)) tm' \<and>
     NextTimeout tm' now = - 1"
proof -
  note i = assms(1) [unfolded idle_wheel_def]
  have a: "wheel_ok tm" "last_expire_time tm \<le> now" "clock (hands tm) + (now - last_expire_time tm) < 2 ^ 31"
    using i assms(2,3) by simp_all
  obtain tm' ids where s: "TimerWheel_Step tm now = Inr (map (\<lambda>k. cb (the (timers tm k))) ids, tm')"
    "set ids = {k \<in> dom (timers tm). expires tm k \<le> now}" "wheel_ok tm'"
    "timers tm' = timers tm |` (- {k \<in> dom (timers tm). expires tm k \<le> now})" "last_expire_time tm' = now"
    "clock (hands tm') = clock (hands tm) + (now - last_expire_time tm)"
    by (rule Step_ok [OF a])
  have "ids = []" "timers tm' = Map.empty" using s(2,4) i by (auto simp: restrict_map_def)
  moreover have "mset (expire_time_queue tm') = image_mset (expires tm') (mset_set (dom (timers tm')))"
    using s(3) unfolding wheel_ok_def by blast
  ultimately have "expire_time_queue tm' = []" by simp
  then show ?thesis
    using s i \<open>ids = []\<close> \<open>timers tm' = Map.empty\<close> by (simp add: idle_wheel_def NextTimeout_def)
qed

section \<open>One round\<close>

text \<open>The state when the handlers of a round begin, after a poll with \<open>n\<close> events.\<close>

definition after_poll :: "nat \<Rightarrow> ('f, 'z) event_loop_scheme \<Rightarrow> ('f, 'z) event_loop_scheme" where
  "after_poll n w =
     (if n = p_events_size w then w\<lparr>p_events_size := p_events_size w * 2\<rparr> else w)
       \<lparr>iteration := size_add (iteration w) 1\<rparr>"

lemma after_poll_parts [world_simps]:
  fixes w :: "('x, 'z) server_world_scheme"
  shows "conns (after_poll n w) = conns w" "net_log (after_poll n w) = net_log w"
    "os_calls (after_poll n w) = os_calls w" "InLoopThread (after_poll n w) = InLoopThread w"
    "functors (after_poll n w) = functors w" "p_channels (after_poll n w) = p_channels w"
    "srv_connections (after_poll n w) = srv_connections w" "srv_conn_loop (after_poll n w) = srv_conn_loop w"
    "srv_acceptor (after_poll n w) = srv_acceptor w" "srv_pool (after_poll n w) = srv_pool w"
    "srv_rcb (after_poll n w) = srv_rcb w" "srv_nccb (after_poll n w) = srv_nccb w"
    "srv_cccb (after_poll n w) = srv_cccb w" "period_functor (after_poll n w) = period_functor w"
    "timer_mgr (after_poll n w) = timer_mgr w"
    "kept (after_poll n w) = kept w"
  by (simp_all add: after_poll_def InLoopThread_def kept_def)

lemma one_round:
  fixes w :: "('f, 'z) event_loop_scheme"
  assumes "p_channels w fd = Some p" "handle (p, ev) (after_poll 1 w) = Some (Inr w1)" "period_functor w1 = None"
    and "CallPendingFunctors exec w1 = Some (Inr w2)" "idle_wheel t x (timer_mgr w2)" "t \<le> now" "x + (now - t) < 2 ^ 31"
  shows "\<exists>tm. loop_round exec handle (Some [(fd, ev)], now) w = Some (Inr (- 1, w2\<lparr>timer_mgr := tm\<rparr>)) \<and>
     idle_wheel now (x + (now - t)) tm"
proof -
  obtain tm where tm: "TimerWheel_Step (timer_mgr w2) now = Inr ([], tm)" "idle_wheel now (x + (now - t)) tm"
    "NextTimeout tm now = - 1"
    using idle_step [OF assms(5-7)] by blast
  have poll: "\<exists>l0. Poll (Some [(fd, ev)]) w = Inr ([(p, ev)], l0) \<and> l0\<lparr>iteration := size_add (iteration l0) 1\<rparr> = after_poll 1 w"
    using assms(1) by (auto simp: Poll_def after_poll_def)
  then show ?thesis
    using assms(2-4) tm by (auto simp: loop_round_def call_if_set_def)
qed

section \<open>The events of a channel\<close>

lemma event_bits [simp]:
  "EPOLLIN AND (EPOLLERR OR EPOLLHUP) = 0" "EPOLLIN AND (EPOLLOUT OR EPOLLWRNORM) = 0"
  "EPOLLIN AND (EPOLLIN OR EPOLLRDNORM) \<noteq> 0" "EPOLLOUT AND (EPOLLERR OR EPOLLHUP) = 0"
  "EPOLLOUT AND (EPOLLOUT OR EPOLLWRNORM) \<noteq> 0" "EPOLLOUT AND (EPOLLIN OR EPOLLRDNORM) = 0"
  "EPOLLIN \<noteq> 0" "EPOLLOUT \<noteq> 0"
  by (simp_all add: EPOLLIN_def EPOLLERR_def EPOLLHUP_def EPOLLOUT_def EPOLLWRNORM_def EPOLLRDNORM_def)

text \<open>The channel of a connection between events (\<open>h\<close> is \<open>False\<close>) and while it handles \<open>ev\<close>.\<close>

definition begin_handling :: "32 word \<Rightarrow> 'x connection \<Rightarrow> 'x connection" where
  "begin_handling ev k = k\<lparr>c_channel := (c_channel k)\<lparr>ch_revents := ev, ch_handling_events := True\<rparr>\<rparr>"

definition stop_handling :: "'x connection \<Rightarrow> 'x connection" where
  "stop_handling k = k\<lparr>c_channel := (c_channel k)\<lparr>ch_handling_events := False\<rparr>\<rparr>"

lemma handled_read:
  assumes "conns w c = Some k" "ch_rcb (c_channel k) = Some h"
    and "run_callback os u c h (set_conn c (begin_handling EPOLLIN k) w) = Some (Inr w1)" "conns w1 c = Some k1"
  shows "handle_channel os u (c, EPOLLIN) w = Some (Inr (set_conn c (stop_handling k1) w1))"
  using assms
  by (simp add: handle_channel_def with_conn_Some HandleEvents_def call_if_set_def Let_def world_simps
      begin_handling_def stop_handling_def) (simp add: set_conn_def)

lemma handled_write:
  assumes "conns w c = Some k" "ch_wcb (c_channel k) = Some h"
    and "run_callback os u c h (set_conn c (begin_handling EPOLLOUT k) w) = Some (Inr w1)" "conns w1 c = Some k1"
    and "ch_revents (c_channel k1) = EPOLLOUT"
  shows "handle_channel os u (c, EPOLLOUT) w = Some (Inr (set_conn c (stop_handling k1) w1))"
  using assms
  by (simp add: handle_channel_def with_conn_Some HandleEvents_def call_if_set_def Let_def world_simps
      begin_handling_def stop_handling_def) (simp add: set_conn_def)

text \<open>The functors of a round when none are queued.\<close>

definition no_calls_left :: "('f, 'z) event_loop_scheme \<Rightarrow> ('f, 'z) event_loop_scheme" where
  "no_calls_left w = w\<lparr>calling_functors := False, functors := []\<rparr>"

lemma CallPending_none: "functors w = [] \<Longrightarrow> CallPendingFunctors exec w = Some (Inr (no_calls_left w))"
  by (simp add: CallPendingFunctors_def begin_calls_def end_calls_def no_calls_left_def)

lemma no_calls_left_parts [world_simps]:
  fixes w :: "('x, 'z) server_world_scheme"
  shows "conns (no_calls_left w) = conns w" "net_log (no_calls_left w) = net_log w"
    "os_calls (no_calls_left w) = os_calls w" "InLoopThread (no_calls_left w) = InLoopThread w"
    "functors (no_calls_left w) = []" "p_channels (no_calls_left w) = p_channels w"
    "srv_connections (no_calls_left w) = srv_connections w" "srv_conn_loop (no_calls_left w) = srv_conn_loop w"
    "kept (no_calls_left w) = kept w"
  by (simp_all add: no_calls_left_def InLoopThread_def kept_def)

text \<open>The end of a round: nothing but the wheel changes.\<close>

lemma timer_update_parts [world_simps]:
  fixes w :: "('x, 'z) server_world_scheme"
  shows "conns (w\<lparr>timer_mgr := tm\<rparr>) = conns w" "net_log (w\<lparr>timer_mgr := tm\<rparr>) = net_log w"
    "InLoopThread (w\<lparr>timer_mgr := tm\<rparr>) = InLoopThread w"
  by (simp_all add: InLoopThread_def)

section \<open>Listening\<close>

text \<open>A server without loop threads that listens on \<open>lfd\<close>, between two rounds of its loop; its
  acceptor's channel is at \<open>a\<close>, the wheel at time \<open>t\<close> has used \<open>x\<close> ms of its range.\<close>

definition listening :: "nat \<Rightarrow> int \<Rightarrow> nat \<Rightarrow> nat \<Rightarrow> ('x, 'z) server_world_scheme \<Rightarrow> bool" where
  "listening a lfd t x w \<longleftrightarrow>
     InLoopThread w \<and> functors w = [] \<and> period_functor w = None \<and> idle_wheel t x (timer_mgr w) \<and>
     loop_thread_count (srv_pool w) = 0 \<and> \<not> srv_cccb w \<and> srv_rcb w \<and> srv_nccb w \<and> ac_nccb (srv_acceptor w) \<and>
     p_channels w lfd = Some a \<and>
     (\<exists>ch. ac_channel (srv_acceptor w) = Some ch \<and> ch_ptr ch = a \<and> ch_fd ch = lfd \<and> ch_rcb ch = Some () \<and>
        is_reading ch \<and> \<not> ch_handling_events ch)"

lemma listening_kept:
  assumes "listening a lfd t x w" "InLoopThread w'" "functors w' = []" "kept w' = kept w" "p_channels w' lfd = Some a"
  shows "listening a lfd t x w'"
  using assms by (simp add: listening_def kept_def)

text \<open>\<open>Start\<close> of a server without loop threads: the socket is bound, listens and is watched.\<close>

lemma LoopPool_Start_none [simp]: "loop_thread_count p = 0 \<Longrightarrow> LoopPool_Start p = p"
  by (simp add: LoopPool_Start_def)

lemma Start_listens:
  fixes w :: "('x, 'z) server_world_scheme"
  assumes "InLoopThread w" "os_socket os (os_calls w) = lfd" "p_channels w lfd = None"
    and "ToSockAddr (srv_local_addr w) = Inr sa" "\<And>i. os_bind os i lfd sa" "\<And>i. os_listen os i lfd" "\<And>i. os_fcntl os i lfd"
  shows "\<exists>w1 ch. TcpServer_Start os v w = Some (Inr w1) \<and> InLoopThread w1 \<and> functors w1 = functors w \<and>
    period_functor w1 = period_functor w \<and> timer_mgr w1 = timer_mgr w \<and> srv_pool w1 = LoopPool_Start (srv_pool w) \<and> posted w1 = posted w \<and>
    srv_rcb w1 = srv_rcb w \<and> srv_cccb w1 = srv_cccb w \<and> srv_nccb w1 = srv_nccb w \<and> ac_nccb (srv_acceptor w1) \<and>
    ac_channel (srv_acceptor w1) = Some ch \<and> ch_ptr ch = os_address os (os_calls w + 3) \<and> ch_fd ch = lfd \<and>
    ch_rcb ch = Some () \<and> ch_wcb ch = None \<and> ch_ecb ch = None \<and> is_reading ch \<and> \<not> ch_handling_events ch \<and>
    conns w1 = conns w \<and> net_log w1 = net_log w \<and> srv_connections w1 = srv_connections w \<and>
    p_channels w1 = (p_channels w)(lfd \<mapsto> os_address os (os_calls w + 3)) \<and> os_calls w1 = os_calls w + 4"
proof -
  let ?w = "w\<lparr>srv_acceptor := set_new_connection_callback (srv_acceptor w)\<rparr>"
  define w1 where "w1 = count_call (count_call ((count_call ?w)\<lparr>srv_acceptor := (srv_acceptor ?w)\<lparr>ac_listen_fd := lfd\<rparr>\<rparr>))"
  define w2 where "w2 = w1\<lparr>srv_pool := LoopPool_Start (srv_pool w1)\<rparr>"
  have w1: "BindOrAbort os (srv_local_addr w) ?w = Some (Inr w1)"
    using assms(2,4,5,7) by (simp add: BindOrAbort_def Let_def w1_def socketop_SetNonblocking_def)
  let ?ch = "Channel_init (os_address os (os_calls w + 3)) lfd :: unit channel"
  let ?ch1 = "?ch\<lparr>ch_events := kReadEvents\<rparr>"
  have w2: "InLoopThread w2" "os_calls w2 = os_calls w + 3" "ac_listen_fd (srv_acceptor w2) = lfd" "functors w2 = functors w"
    "period_functor w2 = period_functor w" "timer_mgr w2 = timer_mgr w" "srv_pool w2 = LoopPool_Start (srv_pool w)" "posted w2 = posted w" "srv_cccb w2 = srv_cccb w"
    "srv_rcb w2 = srv_rcb w" "srv_nccb w2 = srv_nccb w" "ac_nccb (srv_acceptor w2)" "p_channels w2 = p_channels w"
    "conns w2 = conns w" "net_log w2 = net_log w" "srv_connections w2 = srv_connections w"
    using assms(1)
    by (simp_all add: w2_def w1_def count_call_def set_new_connection_callback_def InLoopThread_def)
  define w3 where "w3 = Poller_UpdateChannel ?ch1 (count_call w2)"
  define w4 where "w4 = w3\<lparr>srv_acceptor := (srv_acceptor w3)\<lparr>ac_channel := Some (?ch1\<lparr>ch_rcb := Some ()\<rparr>)\<rparr>\<rparr>"
  have listen: "Acceptor_Listen os w2 = Some (Inr (Poller_UpdateChannel (?ch1\<lparr>ch_rcb := Some ()\<rparr>) w4))"
    using w2(1-3) assms(6)
    by (simp add: Acceptor_Listen_def Let_def Channel_EnableReading_def Channel_set_events_def EventLoop_UpdateChannel_def
        world_simps w3_def w4_def Channel_init_def)
      (simp add: InLoopThread_def Poller_UpdateChannel_def count_call_def split: option.splits)
  have "TcpServer_Start os v w = Some (Inr (Poller_UpdateChannel (?ch1\<lparr>ch_rcb := Some ()\<rparr>) w4))"
    using w1 w2(1) listen by (simp add: TcpServer_Start_def w2_def RunInLoop_def run_functor_def)
  then show ?thesis
    using w2 assms(1,3)
    by (intro exI [of _ "Poller_UpdateChannel (?ch1\<lparr>ch_rcb := Some ()\<rparr>) w4"] exI [of _ "?ch1\<lparr>ch_rcb := Some ()\<rparr>"])
      (simp add: w4_def w3_def Poller_UpdateChannel_def Channel_init_def is_reading_def kReadEvents_def count_call_def
        InLoopThread_def)
qed

lemma server_listens:
  fixes w :: "('x, 'z) server_world_scheme"
  assumes "InLoopThread w" "functors w = []" "period_functor w = None" "idle_wheel t x (timer_mgr w)"
    and "os_socket os (os_calls w) = lfd" "p_channels w lfd = None"
    and "ToSockAddr addr = Inr sa" "\<And>i. os_bind os i lfd sa" "\<And>i. os_listen os i lfd" "\<And>i. os_fcntl os i lfd"
  shows "\<exists>w1. TcpServer_Start os v (server_set_new_callback (server_set_read_callback (TcpServer_init addr unset w))) =
      Some (Inr w1) \<and> listening (os_address os (os_calls w + 3)) lfd t x w1 \<and>
    conns w1 = conns w \<and> net_log w1 = net_log w \<and> srv_connections w1 = Map.empty \<and>
    p_channels w1 = (p_channels w)(lfd \<mapsto> os_address os (os_calls w + 3)) \<and> os_calls w1 = os_calls w + 4"
proof -
  define w0 where "w0 = server_set_new_callback (server_set_read_callback (TcpServer_init addr unset w))"
  have w0: "InLoopThread w0" "functors w0 = []" "period_functor w0 = None" "timer_mgr w0 = timer_mgr w" "os_calls w0 = os_calls w"
    "p_channels w0 = p_channels w" "srv_local_addr w0 = addr" "srv_pool w0 = EventLoopThreadPool_init" "\<not> srv_cccb w0" "srv_rcb w0"
    "srv_nccb w0" "conns w0 = conns w" "net_log w0 = net_log w" "srv_connections w0 = Map.empty"
    using assms(1-3)
    by (simp_all add: w0_def server_set_new_callback_def server_set_read_callback_def TcpServer_init_def InLoopThread_def)
  have "\<exists>w1 ch. TcpServer_Start os v w0 = Some (Inr w1) \<and> InLoopThread w1 \<and> functors w1 = functors w0 \<and>
    period_functor w1 = period_functor w0 \<and> timer_mgr w1 = timer_mgr w0 \<and> srv_pool w1 = LoopPool_Start (srv_pool w0) \<and> posted w1 = posted w0 \<and>
    srv_rcb w1 = srv_rcb w0 \<and> srv_cccb w1 = srv_cccb w0 \<and> srv_nccb w1 = srv_nccb w0 \<and> ac_nccb (srv_acceptor w1) \<and>
    ac_channel (srv_acceptor w1) = Some ch \<and> ch_ptr ch = os_address os (os_calls w0 + 3) \<and> ch_fd ch = lfd \<and>
    ch_rcb ch = Some () \<and> ch_wcb ch = None \<and> ch_ecb ch = None \<and> is_reading ch \<and> \<not> ch_handling_events ch \<and>
    conns w1 = conns w0 \<and> net_log w1 = net_log w0 \<and> srv_connections w1 = srv_connections w0 \<and>
    p_channels w1 = (p_channels w0)(lfd \<mapsto> os_address os (os_calls w0 + 3)) \<and> os_calls w1 = os_calls w0 + 4"
    by (rule Start_listens) (use w0 assms in simp_all)
  then show ?thesis
    using w0 assms(4) unfolding w0_def [symmetric] by (auto simp: listening_def EventLoopThreadPool_init_def)
qed

section \<open>Accepting\<close>

text \<open>The acceptor while it handles \<open>EPOLLIN\<close>.\<close>

definition accepting :: "('x, 'z) server_world_scheme \<Rightarrow> ('x, 'z) server_world_scheme" where
  "accepting w = w\<lparr>srv_acceptor := (srv_acceptor w)\<lparr>ac_channel :=
     map_option (\<lambda>ch. ch\<lparr>ch_revents := EPOLLIN, ch_handling_events := True\<rparr>) (ac_channel (srv_acceptor w))\<rparr>\<rparr>"

definition done_accepting :: "('x, 'z) server_world_scheme \<Rightarrow> ('x, 'z) server_world_scheme" where
  "done_accepting w = w\<lparr>srv_acceptor := (srv_acceptor w)\<lparr>ac_channel :=
     map_option (\<lambda>ch. ch\<lparr>ch_handling_events := False\<rparr>) (ac_channel (srv_acceptor w))\<rparr>\<rparr>"

lemma accepting_parts [world_simps]:
  fixes w :: "('x, 'z) server_world_scheme"
  shows "conns (accepting w) = conns w" "net_log (accepting w) = net_log w" "os_calls (accepting w) = os_calls w"
    "InLoopThread (accepting w) = InLoopThread w" "functors (accepting w) = functors w"
    "p_channels (accepting w) = p_channels w" "srv_connections (accepting w) = srv_connections w"
    "srv_pool (accepting w) = srv_pool w" "srv_rcb (accepting w) = srv_rcb w" "srv_nccb (accepting w) = srv_nccb w"
    "srv_cccb (accepting w) = srv_cccb w" "ac_nccb (srv_acceptor (accepting w)) = ac_nccb (srv_acceptor w)"
    "srv_acceptor (count_call w) = srv_acceptor w" "srv_pool (count_call w) = srv_pool w"
    "srv_rcb (count_call w) = srv_rcb w" "srv_nccb (count_call w) = srv_nccb w"
  by (simp_all add: accepting_def InLoopThread_def count_call_def)

lemma done_accepting_parts [world_simps]:
  fixes w :: "('x, 'z) server_world_scheme"
  shows "conns (done_accepting w) = conns w" "net_log (done_accepting w) = net_log w"
    "os_calls (done_accepting w) = os_calls w" "InLoopThread (done_accepting w) = InLoopThread w"
    "functors (done_accepting w) = functors w" "p_channels (done_accepting w) = p_channels w"
    "srv_connections (done_accepting w) = srv_connections w" "srv_conn_loop (done_accepting w) = srv_conn_loop w"
    "period_functor (done_accepting w) = period_functor w" "timer_mgr (done_accepting w) = timer_mgr w"
    "srv_cccb (done_accepting w) = srv_cccb w"
  by (simp_all add: done_accepting_def InLoopThread_def)

lemma handled_accept:
  assumes "ac_channel (srv_acceptor w) = Some ch" "ch_ptr ch = a" "ch_rcb ch = Some ()" "a \<noteq> ch_ptr wakeup"
  shows "handle_active wakeup os v (a, EPOLLIN) w =
     then_run (server_accept os v (accepting w)) (\<lambda>w1. Some (Inr (done_accepting w1)))"
proof -
  have "handle_active wakeup os v (a, EPOLLIN) w = handle_acceptor os v EPOLLIN ch w"
    using assms by (simp add: handle_active_def)
  also have "\<dots> = then_run (server_accept os v (accepting w)) (\<lambda>w1. Some (Inr (done_accepting w1)))"
    using assms(1,3) by (simp add: handle_acceptor_def HandleEvents_def call_if_set_def Let_def accepting_def done_accepting_def)
  finally show ?thesis .
qed

text \<open>A server started on a network whose first socket is 3.\<close>

definition started_server :: "os_net \<Rightarrow> ('x, unit) server_calls \<Rightarrow> 'x server_world" where
  "started_server os v =
     (let w = server_set_new_callback (server_set_read_callback (TcpServer_init local_name 0 empty_server)) in
      case TcpServer_Start os v w of Some (Inr w1) \<Rightarrow> w1 | _ \<Rightarrow> w)"

lemma started_listens:
  fixes v :: "('x, unit) server_calls"
  assumes "\<And>i. os_socket os i = 3" "\<And>i. os_bind os i 3 local_sockaddr" "\<And>i. os_listen os i 3" "\<And>i. os_fcntl os i 3"
    and "os_address os 3 = a"
  shows "listening a 3 0 0 (started_server os v)" "os_calls (started_server os v) = 4"
    "srv_connections (started_server os v) = Map.empty" "p_channels (started_server os v) = [3 \<mapsto> a]"
    "net_log (started_server os v) = []" "conns (started_server os v) = Map.empty"
proof -
  let ?w = "empty_server :: 'x server_world"
  have w: "InLoopThread ?w" "functors ?w = []" "period_functor ?w = None" "idle_wheel 0 0 (timer_mgr ?w)"
    "p_channels ?w = Map.empty" "os_calls ?w = 0" "net_log ?w = []" "conns ?w = Map.empty"
    by (simp_all add: empty_server_def world.defs event_loop.defs poller.defs idle_loop_def InLoopThread_def idle_init
        Poller_init_def)
  have "p_channels ?w 3 = None" by (simp add: w(5))
  from server_listens [OF w(1-4) assms(1) this local_name(2) assms(2-4), of v 0]
  show "listening a 3 0 0 (started_server os v)" "os_calls (started_server os v) = 4"
    "srv_connections (started_server os v) = Map.empty" "p_channels (started_server os v) = [3 \<mapsto> a]"
    "net_log (started_server os v) = []" "conns (started_server os v) = Map.empty"
    by (auto simp: started_server_def Let_def w assms(5))
qed

text \<open>C19: a client can end the process of the server by the way it connects. When \<open>accept\<close> fails (the
  client is gone again, or no descriptor is left) its \<open>-1\<close> is handed to \<open>fcntl\<close>, whose failure is
  fatal; when the client has reset the connection before it is set up, \<open>getpeername\<close> fails, which is
  fatal too.\<close>

theorem accept_failure_aborts:
  fixes w :: "('x, 'z) server_world_scheme"
  assumes "listening a lfd t x w" "a \<noteq> ch_ptr wakeup" "os_accept os (os_calls w) = fd"
    and "fd = - 1 \<and> \<not> os_fcntl os (os_calls w + 1) fd \<or>
      os_fcntl os (os_calls w + 1) fd \<and> os_getpeername os (os_calls w + 2) fd = None"
  shows "loop_round (run_functor os v) (handle_active wakeup os v) (Some [(lfd, EPOLLIN)], now) w =
     Some (Inl Check_failed)"
proof -
  note l = assms(1) [unfolded listening_def]
  obtain ch where ch: "ac_channel (srv_acceptor w) = Some ch" "ch_ptr ch = a" "ch_rcb ch = Some ()" "p_channels w lfd = Some a"
    using l by auto
  have new: "TcpServer_OnNewConnection os v c fd (count_call (count_call (accepting (after_poll 1 w)))) = Some (Inl Check_failed)"
    if "os_getpeername os (os_calls w + 2) fd = None" for c
    using that l
    by (simp add: TcpServer_OnNewConnection_def NextLoop_def world_simps TcpConnection_init_def Let_def GetAddress_def
        ClearZeroCopyWrite_def new_connection_def GetPeerAddr_def GetLocalAddr_def of_sockaddr split: option.splits)
  have "server_accept os v (accepting (after_poll 1 w)) = Some (Inl Check_failed)"
    using assms(3,4) l new
    by (auto simp: server_accept_def Acceptor_NewConnetion_def Let_def socketop_SetNonblocking_def world_simps call_user_def)
  then have "handle_active wakeup os v (a, EPOLLIN) (after_poll 1 w) = Some (Inl Check_failed)"
    using handled_accept [of "after_poll 1 w" ch a wakeup os v] ch assms(2) by (simp add: world_simps)
  moreover have "\<exists>l0. Poll (Some [(lfd, EPOLLIN)]) w = Inr ([(a, EPOLLIN)], l0) \<and>
      l0\<lparr>iteration := size_add (iteration l0) 1\<rparr> = after_poll 1 w"
    using ch(4) by (auto simp: Poll_def after_poll_def)
  ultimately show ?thesis by (auto simp: loop_round_def)
qed

definition reset_early_net :: os_net where
  "reset_early_net = (easy_net (Inr []) None)\<lparr>os_getpeername := \<lambda>i fd. None\<rparr>"

definition quiet_calls :: "(unit, unit) server_calls" where
  "quiet_calls = silent_calls"

theorem accept_failure_aborts_witness:
  "loop_round (run_functor reset_early_net quiet_calls) (handle_active (Channel_init 1 4) reset_early_net quiet_calls)
     (Some [(3, EPOLLIN)], 7) (started_server reset_early_net quiet_calls) = Some (Inl Check_failed)"
proof (rule accept_failure_aborts [where a = 13 and fd = 5])
  show "listening 13 3 0 0 (started_server reset_early_net quiet_calls)"
    by (rule started_listens) (simp_all add: reset_early_net_def easy_net_def)
qed (simp_all add: reset_early_net_def easy_net_def Channel_init_def)

text \<open>A connection after the new-connection callback has set its context and reading is enabled.\<close>

definition entered :: "net_address \<times> net_address \<Rightarrow> nat \<Rightarrow> int \<Rightarrow> 'x \<Rightarrow> 'x connection" where
  "entered names c fd y =
     (accepted names c fd True)\<lparr>c_ctx := Some y,
        c_channel := (c_channel (accepted names c fd True :: 'x connection))\<lparr>ch_events := EPOLLIN\<rparr>\<rparr>"

text \<open>A round in which a client connects. The user's callback only sets the context.\<close>

lemma accept_round:
  fixes w :: "('x, 'z) server_world_scheme"
  assumes "listening a lfd t x w" "a \<noteq> ch_ptr wakeup" "\<And>i. os_accept os i = fd" "\<And>i. os_fcntl os i fd"
    and "srv_connections w fd = None" "p_channels w fd = None"
    and "c = os_address os (os_calls w + 2)" "\<And>w. on_new v c w = set_context c y w"
    and "t \<le> now" "x + (now - t) < 2 ^ 31" "named os (os_calls w + 2) fd names"
  defines "k \<equiv> entered names c fd y"
  shows "\<exists>w1. loop_round (run_functor os v) (handle_active wakeup os v) (Some [(lfd, EPOLLIN)], now) w = Some (Inr (- 1, w1)) \<and>
     listening a lfd now (x + (now - t)) w1 \<and> served c k w1 \<and> conns w1 = (conns w)(c \<mapsto> k) \<and>
     net_log w1 = net_log w \<and> srv_connections w1 = (srv_connections w)(fd \<mapsto> c) \<and>
     p_channels w1 = (p_channels w)(fd \<mapsto> c)"
proof -
  note l = assms(1) [unfolded listening_def]
  obtain ch where ch: "ac_channel (srv_acceptor w) = Some ch" "ch_ptr ch = a" "ch_fd ch = lfd" "ch_rcb ch = Some ()"
    "is_reading ch" "\<not> ch_handling_events ch" "p_channels w lfd = Some a"
    using l by blast
  have "fd \<noteq> lfd" using ch(7) assms(6) by auto
  define wa where "wa = count_call (count_call (accepting (after_poll 1 w)))"
  have wa: "InLoopThread wa" "loop_thread_count (srv_pool wa) = 0" "srv_connections wa fd = None" "\<not> srv_cccb wa"
    "srv_nccb wa" "srv_rcb wa" "functors wa = []" "os_calls wa = os_calls w + 2"
    using l assms(5) by (simp_all add: wa_def world_simps)
  define k0 where "k0 = (accepted names c fd True :: 'x connection)"
  from enters_server [OF wa(1-4), of os names v c] wa(5,6,8) assms(11) obtain wb where wb:
    "TcpServer_OnNewConnection os v c fd wa = then_run (on_new v c wb) (StartReading c)"
    "served c k0 wb" "conns wb = (conns wa)(c \<mapsto> k0)" "srv_connections wb = (srv_connections wa)(fd \<mapsto> c)"
    "functors wb = functors wa" "net_log wb = net_log wa" "kept wb = kept wa" "p_channels wb = p_channels wa"
    unfolding k0_def by auto
  define k1 where "k1 = k0\<lparr>c_ctx := Some y\<rparr>"
  have k: "k = k1\<lparr>c_channel := (c_channel k1)\<lparr>ch_events := EPOLLIN\<rparr>\<rparr>"
    by (simp add: k_def k1_def k0_def entered_def)
  have k1: "ch_events (c_channel k1) OR kReadEvents = EPOLLIN" "ch_fd (c_channel k1) = fd" "ch_ptr (c_channel k1) = c"
    "c_fd k1 = c_fd k0" "c_ccb k1"
    by (simp_all add: k1_def k0_def accepted_def Channel_init_def kReadEvents_def)
  define wc where "wc = set_events c EPOLLIN k1 (set_conn c k1 wb)"
  have in_loop: "InLoopThread wb" "conns wb c = Some k0" using wb(2) by (simp_all add: served_def)
  have new: "TcpServer_OnNewConnection os v c fd wa = Some (Inr wc)"
    using wb(1) assms(8) in_loop k1(1)
    by (simp add: set_context_def with_conn_Some k1_def [symmetric] StartReading_def RunInLoop_def
        run_channel_functor_def world_simps wc_def)
  have "served c k1 (set_conn c k1 wb)"
    using wb(2) k1(4,5) by (simp add: served_def world_simps)
  then have served: "served c k wc"
    unfolding k wc_def by (simp add: served_def world_simps)
  have wc: "InLoopThread wc" "functors wc = []" "kept wc = kept wa" "conns wc = (conns w)(c \<mapsto> k)" "net_log wc = net_log w"
    "srv_connections wc = (srv_connections w)(fd \<mapsto> c)"
    using wb(3-8) wa(7) in_loop(1) by (simp_all add: wc_def world_simps wa_def k)
  have pc: "p_channels wc = (p_channels w)(fd \<mapsto> c)"
    using wb(8) assms(6) k1(2,3) by (simp add: wc_def wa_def set_events_def set_conn_def Poller_UpdateChannel_def world_simps)
  have "server_accept os v (accepting (after_poll 1 w)) = Some (Inr wc)"
    using new l wa(8) assms(3,4,7)
    by (simp add: server_accept_def Acceptor_NewConnetion_def Let_def socketop_SetNonblocking_def world_simps call_user_def
        wa_def)
  then have handled: "handle_active wakeup os v (a, EPOLLIN) (after_poll 1 w) = Some (Inr (done_accepting wc))"
    using handled_accept [of "after_poll 1 w" ch a wakeup os v] ch assms(2) by (simp add: world_simps)
  define wd where "wd = no_calls_left (done_accepting wc)"
  have pending: "CallPendingFunctors exec (done_accepting wc) = Some (Inr wd)" for exec
    unfolding wd_def by (rule CallPending_none) (simp add: world_simps wc(2))
  have kept: "period_functor wc = None" "timer_mgr wc = timer_mgr w" "srv_pool wc = srv_pool w" "\<not> srv_cccb wc" "srv_rcb wc"
    "srv_nccb wc" "srv_acceptor wc = srv_acceptor (accepting w)"
    using wc(3) l by (simp_all add: kept_def wa_def count_call_def accepting_def after_poll_def)
  have "idle_wheel t x (timer_mgr wd)" using kept(2) l by (simp add: wd_def no_calls_left_def done_accepting_def)
  with one_round [of w lfd a "handle_active wakeup os v" EPOLLIN "done_accepting wc" "run_functor os v" wd t x now]
  obtain tm where tm: "loop_round (run_functor os v) (handle_active wakeup os v) (Some [(lfd, EPOLLIN)], now) w =
       Some (Inr (- 1, wd\<lparr>timer_mgr := tm\<rparr>))" "idle_wheel now (x + (now - t)) tm"
    using handled pending kept(1) assms(9,10) ch(7) by (auto simp: world_simps)
  have "listening a lfd now (x + (now - t)) (wd\<lparr>timer_mgr := tm\<rparr>)"
    unfolding listening_def
  proof (intro conjI exI [of _ "ch\<lparr>ch_revents := EPOLLIN, ch_handling_events := False\<rparr>"])
    show "InLoopThread (wd\<lparr>timer_mgr := tm\<rparr>)" using wc(1) by (simp add: world_simps wd_def)
    show "is_reading (ch\<lparr>ch_revents := EPOLLIN, ch_handling_events := False\<rparr>)" using ch(5) by (simp add: is_reading_def)
  qed (use kept l ch tm(2) pc \<open>fd \<noteq> lfd\<close> in \<open>simp_all add: wd_def no_calls_left_def done_accepting_def accepting_def\<close>)
  moreover have "served c k (wd\<lparr>timer_mgr := tm\<rparr>)"
    using served by (simp add: served_def wd_def no_calls_left_def done_accepting_def InLoopThread_def)
  ultimately show ?thesis
    using tm(1) wc pc by (intro exI [of _ "wd\<lparr>timer_mgr := tm\<rparr>"]) (simp add: wd_def no_calls_left_def done_accepting_def)
qed

end
