(* ===== verification/Http_Message.thy ===== *)
theory Http_Message
  imports Slice "HOL-Library.Char_ord" "HOL-Library.List_Lexorder"
begin

text \<open>
  Requests, responses and the helpers of the HTTP example server
  (examples/httpserver: http_request, http_response, http_utilities, http_defines). A
  \<open>std::map\<close> from strings to strings is its ascending list of pairs.

  The repository only calls Boost, so Boost is a parameter: the record \<open>boost\<close> holds the
  functions the server uses, and \<open>boost_documented\<close> states what their documentation says
  of them. \<open>reference_boost\<close> is a concrete instance, for the witnesses.
\<close>

section \<open>Boost\<close>

datatype format_arg = Str string | Unsigned nat

text \<open>
  \<open>split_iterator\<close> with \<open>first_finder\<close> (the pieces it yields), \<open>lexical_cast<unsigned>\<close>
  (\<open>None\<close> when it throws \<open>bad_lexical_cast\<close>), \<open>to_lower\<close> and \<open>format\<close>.
\<close>

record boost =
  split_pieces :: "string \<Rightarrow> string \<Rightarrow> string list"
  cast_unsigned :: "string \<Rightarrow> nat option"
  lower :: "string \<Rightarrow> string"
  format_args :: "string \<Rightarrow> format_arg list \<Rightarrow> string"

text \<open>Splitting at the successive first occurrences of the separator.\<close>

function split_at_first :: "string \<Rightarrow> string \<Rightarrow> string list" where
  "split_at_first sep s =
     (if sep = [] then [s] else
      case string_find s sep 0 of
        None \<Rightarrow> [s]
      | Some i \<Rightarrow> take i s # split_at_first sep (drop (i + length sep) s))"
  by pat_completeness auto

termination
proof (relation "measure (\<lambda>(sep, s). length s)")
  fix sep s :: string and i
  assume "sep \<noteq> []" "string_find s sep 0 = Some i"
  then have "i + length sep \<le> length s" "0 < length sep"
    by (auto simp: string_find_Some occurs_at_def)
  then show "((sep, drop (i + length sep) s), sep, s) \<in> measure (\<lambda>(sep, s). length s)"
    by (simp only: in_measure prod.case length_drop)
qed simp

declare split_at_first.simps [simp del]

definition decimal_value :: "string \<Rightarrow> nat option" where
  "decimal_value s =
     (if s = [] then None
      else case digits_value s 0 of None \<Rightarrow> None | Some n \<Rightarrow> if n < 2 ^ 32 then Some n else None)"

definition lower_char :: "char \<Rightarrow> char" where
  "lower_char c = (let n = of_char c :: nat in if 65 \<le> n \<and> n \<le> 90 then char_of (n + 32) else c)"

text \<open>The directives \<open>%s\<close> and \<open>%u\<close>, each with the argument of its position.\<close>

fun format_directives :: "string \<Rightarrow> format_arg list \<Rightarrow> string option" where
  "format_directives (a # b # s) args =
     (if a = CHR ''%'' then
        (case args of
           Str x # args' \<Rightarrow>
             if b = CHR ''s'' then map_option ((@) x) (format_directives s args') else None
         | Unsigned n # args' \<Rightarrow>
             if b = CHR ''u'' then map_option ((@) (decimal n)) (format_directives s args') else None
         | [] \<Rightarrow> None)
      else map_option ((#) a) (format_directives (b # s) args))"
| "format_directives [a] args = (if args = [] \<and> a \<noteq> CHR ''%'' then Some [a] else None)"
| "format_directives [] args = (if args = [] then Some [] else None)"

definition boost_documented :: "boost \<Rightarrow> bool" where
  "boost_documented bo \<longleftrightarrow>
     (\<forall>s sep. s \<noteq> [] \<longrightarrow> sep \<noteq> [] \<longrightarrow> split_pieces bo s sep = split_at_first sep s) \<and>
     (\<forall>n < 2 ^ 32. cast_unsigned bo (decimal n) = Some n) \<and>
     (\<forall>s. (\<forall>c \<in> set s. of_char c < (128 :: nat)) \<longrightarrow> lower bo s = map lower_char s) \<and>
     (\<forall>fmt args r. format_directives fmt args = Some r \<longrightarrow> format_args bo fmt args = r)"

definition reference_boost :: boost where
  "reference_boost =
     \<lparr>split_pieces = \<lambda>s sep. split_at_first sep s, cast_unsigned = decimal_value,
      lower = map lower_char, format_args = \<lambda>fmt args. case format_directives fmt args of None \<Rightarrow> [] | Some r \<Rightarrow> r\<rparr>"

section \<open>Requests\<close>

record http_request =
  req_header_length :: nat
  req_body_length :: nat
  req_major_version :: nat
  req_minor_version :: nat
  req_body :: string
  req_request_type :: string
  req_original_request_path :: string
  req_real_request_path :: string
  req_path_candidates :: "string list"
  req_headers :: "(string \<times> string) list"
  req_static_gzipped :: bool
  req_dynamic_gzipped :: bool

definition HTTPRequest_init :: http_request where
  "HTTPRequest_init =
     \<lparr>req_header_length = 0, req_body_length = 0, req_major_version = 0, req_minor_version = 0,
      req_body = [], req_request_type = [], req_original_request_path = [],
      req_real_request_path = [], req_path_candidates = [], req_headers = [],
      req_static_gzipped = False, req_dynamic_gzipped = False\<rparr>"

text \<open>\<open>headers_.find\<close> and \<open>headers_.insert\<close>; the same code serves requests and responses.\<close>

definition insert_header :: "(string \<times> string) list \<Rightarrow> string \<Rightarrow> string \<Rightarrow> bool \<times> (string \<times> string) list" where
  "insert_header hs key val =
     (case map_of hs key of
        Some _ \<Rightarrow> (False, hs)
      | None \<Rightarrow> (True, insort_key fst (key, val) hs))"

definition HTTPRequest_AddHeader :: "http_request \<Rightarrow> string \<Rightarrow> string \<Rightarrow> bool \<times> http_request" where
  "HTTPRequest_AddHeader r key val =
     (case insert_header (req_headers r) key val of (b, hs) \<Rightarrow> (b, r\<lparr>req_headers := hs\<rparr>))"

definition HTTPRequest_GetHeader :: "http_request \<Rightarrow> string \<Rightarrow> string option" where
  "HTTPRequest_GetHeader r name = map_of (req_headers r) name"

definition HTTPRequest_HeaderNames :: "http_request \<Rightarrow> string list" where
  "HTTPRequest_HeaderNames r = map fst (req_headers r)"

definition HTTPRequest_HTTPVersion :: "boost \<Rightarrow> http_request \<Rightarrow> string" where
  "HTTPRequest_HTTPVersion bo r =
     format_args bo ''HTTP/%u.%u'' [Unsigned (req_major_version r), Unsigned (req_minor_version r)]"

text \<open>The stream operator; \<open>nl\<close> is the character \<open>'\\n'\<close>.\<close>

definition nl :: char where
  "nl = CHR 0x0A"

definition print_request :: "boost \<Rightarrow> http_request \<Rightarrow> string" where
  "print_request bo r =
     ''request type: '' @ req_request_type r @ [nl] @
     ''request path: '' @ req_original_request_path r @ [nl] @
     ''http version: '' @ HTTPRequest_HTTPVersion bo r @ [nl] @
     ''header length: '' @ decimal (req_header_length r) @ [nl] @
     ''body length: '' @ decimal (req_body_length r) @ [nl] @
     concat (map (\<lambda>key. key @ '': '' @ the (HTTPRequest_GetHeader r key) @ [nl]) (HTTPRequest_HeaderNames r))"

section \<open>Responses\<close>

text \<open>
  \<open>is_body_gzipped_\<close> is never set nor read and is left out. The zero-copy callback is only
  stored, so it is a flag here.
\<close>

record http_response =
  res_status :: nat
  res_major_version :: nat
  res_minor_version :: nat
  res_body_length :: nat
  res_zero_copy_fd :: int
  res_is_zero_copy_body :: bool
  res_body :: string
  res_headers :: "(string \<times> string) list"
  res_zero_copy_write_cb :: bool

definition HTTPResponse_init :: "nat \<Rightarrow> http_response" where
  "HTTPResponse_init code =
     \<lparr>res_status = code, res_major_version = 1, res_minor_version = 0, res_body_length = 0,
      res_zero_copy_fd = - 1, res_is_zero_copy_body = False, res_body = [], res_headers = [],
      res_zero_copy_write_cb = False\<rparr>"

definition HTTPResponse_AddHeader :: "http_response \<Rightarrow> string \<Rightarrow> string \<Rightarrow> bool \<times> http_response" where
  "HTTPResponse_AddHeader r key val =
     (case insert_header (res_headers r) key val of (b, hs) \<Rightarrow> (b, r\<lparr>res_headers := hs\<rparr>))"

definition HTTPResponse_HTTPVersion :: "boost \<Rightarrow> http_response \<Rightarrow> string" where
  "HTTPResponse_HTTPVersion bo r =
     format_args bo ''HTTP/%u.%u'' [Unsigned (res_major_version r), Unsigned (res_minor_version r)]"

text \<open>
  \<open>GetBodyBuf\<close> resizes the body and hands out \<open>&body_[0]\<close>; what the caller writes there is
  \<open>put_body\<close>. For a length of 0 the reference \<open>body_[0]\<close> does not exist.
\<close>

definition HTTPResponse_GetBodyBuf :: "http_response \<Rightarrow> nat \<Rightarrow> http_response" where
  "HTTPResponse_GetBodyBuf r n = r\<lparr>res_body := replicate n (CHR 0x00), res_body_length := n\<rparr>"

definition put_body :: "http_response \<Rightarrow> string \<Rightarrow> http_response result" where
  "put_body r bytes =
     (if length bytes \<le> length (res_body r) then Inr (r\<lparr>res_body := overwrite (res_body r) 0 bytes\<rparr>)
      else Inl Out_of_bounds)"

definition zero_copy_fd :: "http_response \<Rightarrow> int result" where
  "zero_copy_fd r = asserting (res_is_zero_copy_body r) (Inr (res_zero_copy_fd r))"

definition set_zero_copy_fd :: "http_response \<Rightarrow> int \<Rightarrow> http_response" where
  "set_zero_copy_fd r fd = r\<lparr>res_zero_copy_fd := fd, res_is_zero_copy_body := True\<rparr>"

definition set_zero_copy_write_callback :: "http_response \<Rightarrow> http_response" where
  "set_zero_copy_write_callback r = r\<lparr>res_zero_copy_write_cb := True\<rparr>"

section \<open>Helpers\<close>

definition SplitString :: "boost \<Rightarrow> string \<Rightarrow> string \<Rightarrow> string list \<Rightarrow> string list" where
  "SplitString bo src sep res = res @ split_pieces bo src sep"

definition MakeResponse :: "nat \<Rightarrow> http_response" where
  "MakeResponse code = HTTPResponse_init code"

section \<open>Facts\<close>

lemma insert_header_lookup:
  "map_of (snd (insert_header hs key val)) k =
     (if k = key \<and> map_of hs key = None then Some val else map_of hs k)"
proof (cases "map_of hs key")
  case None
  have "map_of (insort_key fst (key, val) gs) k = ((map_of gs)(key \<mapsto> val)) k"
    if "map_of gs key = None" for gs :: "(string \<times> string) list"
    using that by (induction gs) (auto split: if_splits)
  then show ?thesis using None by (simp add: insert_header_def)
next
  case (Some v)
  then show ?thesis by (auto simp: insert_header_def)
qed

lemma insert_header_ascending:
  "sorted (map fst hs) \<Longrightarrow> distinct (map fst hs) \<Longrightarrow>
    sorted (map fst (snd (insert_header hs key val))) \<and> distinct (map fst (snd (insert_header hs key val)))"
  by (auto simp: insert_header_def sorted_insort_key distinct_insort map_of_eq_None_iff
      distinct_map inj_on_def set_insort_key image_iff split: option.splits)

lemma decimal_value_decimal: "n < 2 ^ 32 \<Longrightarrow> decimal_value (decimal n) = Some n"
  by (simp add: decimal_value_def digits_value_decimal)

lemma reference_boost_documented: "boost_documented reference_boost"
  by (simp add: boost_documented_def reference_boost_def decimal_value_decimal)

text \<open>Splitting a string built from two pieces.\<close>

lemma split_none: "string_find s sep 0 = None \<Longrightarrow> split_at_first sep s = [s]"
  by (subst split_at_first.simps) simp

lemma split_step:
  assumes "sep \<noteq> []" "string_find (x @ sep @ y) sep 0 = Some (length x)"
  shows "split_at_first sep (x @ sep @ y) = x # split_at_first sep y"
  using assms by (subst split_at_first.simps) simp

end
