(* ===== verification/Http_Codec.thy ===== *)
theory Http_Codec
  imports Http_Message Io_Buffer
begin

text \<open>
  The request parser of the example server (examples/httpserver: http_codec,
  http_request_parsing_state). A connection's context holds the parsing state, a status and
  the function to call next; \<open>OnMessage\<close> calls it until the request is done, more bytes are
  needed or the request is refused. The searches of \<open>Slice::find\<close> and the loop of
  \<open>OnMessage\<close> might not end, so the operations return \<open>None\<close> when they do not.

  \<open>decode\<close> is the parser on plain byte strings, with the lemmas that it ends and that more bytes
  at the end of its input do not change an answer. The theory \<open>Http_Codec_Laws\<close> shows that
  the operations on the buffer are this parser, and has the properties.
\<close>

section \<open>State\<close>

datatype parse_result = kParseOK | kParseNeedMore | kParseError

datatype state_type =
  kInit | kParsingRequestLine | kParsingRequestHeader | kParsingRequestBody | kParsingDone

datatype parse_func = StartParsing_f | ReadRequestLine_f | ReadRequestHeader_f | ReadRequestBody_f

text \<open>A \<open>StateFunc\<close> set to \<open>NULL\<close> is \<open>None\<close>; calling it throws \<open>bad_function_call\<close>.\<close>

record parsing_state =
  parse_status :: state_type
  parse_func :: "parse_func option"
  parse_req :: http_request
  parse_res :: "http_response option"

definition HEADER_SEP :: string where
  "HEADER_SEP = [CHR 0x0D, CHR 0x0A]"

definition HEADER_SEP_LEN :: nat where
  "HEADER_SEP_LEN = 2"

definition new_parsing_state :: parsing_state where
  "new_parsing_state =
     \<lparr>parse_status = kInit, parse_func = Some StartParsing_f, parse_req = HTTPRequest_init,
      parse_res = None\<rparr>"

definition OnNewConnection :: "parsing_state option" where
  "OnNewConnection = Some new_parsing_state"

text \<open>\<open>state->res.reset(res)\<close> with a 400 response, before \<open>return kParseError\<close>.\<close>

definition bad_request :: "parsing_state \<Rightarrow> parsing_state" where
  "bad_request st = st\<lparr>parse_res := Some (HTTPResponse_init 400)\<rparr>"

section \<open>The parsing functions\<close>

definition StartParsing :: "parsing_state \<Rightarrow> buffer \<Rightarrow> (parse_result \<times> parsing_state \<times> buffer) result" where
  "StartParsing st b =
     asserting (parse_status st = kInit)
      (andthen (BytesToRead b) (\<lambda>n.
         if n \<noteq> 0 then
           Inr (kParseOK,
                st\<lparr>parse_status := kParsingRequestLine, parse_func := Some ReadRequestLine_f\<rparr>, b)
         else Inr (kParseNeedMore, st, b)))"

text \<open>The bytes to read as a slice of the buffer's vector.\<close>

definition message_slice :: "buffer \<Rightarrow> slice result" where
  "message_slice b = andthen (ReadBegin b) (\<lambda>p. andthen (BytesToRead b) (\<lambda>n. Inr (Slice_of p n)))"

text \<open>\<open>HTTP/<major>.<minor>\<close>; the major number is stored before the minor one is read.\<close>

definition read_version :: "boost \<Rightarrow> string \<Rightarrow> parsing_state \<Rightarrow> parse_result \<times> parsing_state" where
  "read_version bo v st =
     (case string_find v ''/'' 0 of
        None \<Rightarrow> (kParseError, bad_request st)
      | Some s \<Rightarrow>
          if take s v \<noteq> ''HTTP'' then (kParseError, bad_request st)
          else (case string_find v ''.'' (s + 1) of
                  None \<Rightarrow> (kParseError, bad_request st)
                | Some e \<Rightarrow>
                    if e = length v then (kParseError, bad_request st)
                    else (case cast_unsigned bo (take (e - s - 1) (drop (s + 1) v)) of
                            None \<Rightarrow> (kParseError, bad_request st)
                          | Some major \<Rightarrow>
                              let st1 = st\<lparr>parse_req := (parse_req st)\<lparr>req_major_version := major\<rparr>\<rparr>
                              in (case cast_unsigned bo (drop (e + 1) v) of
                                    None \<Rightarrow> (kParseError, bad_request st1)
                                  | Some minor \<Rightarrow>
                                      (kParseOK,
                                       st1\<lparr>parse_req := (parse_req st1)\<lparr>req_minor_version := minor\<rparr>\<rparr>)))))"

definition read_line_parts :: "boost \<Rightarrow> string \<Rightarrow> parsing_state \<Rightarrow> parse_result \<times> parsing_state" where
  "read_line_parts bo line st =
     (let parts = SplitString bo line '' '' [] in
      if length parts \<noteq> 3 then (kParseError, bad_request st)
      else read_version bo (parts ! 2)
             (st\<lparr>parse_req := (parse_req st)\<lparr>req_request_type := parts ! 0,
                                             req_original_request_path := parts ! 1\<rparr>\<rparr>))"

definition ReadRequestLine :: "boost \<Rightarrow> parsing_state \<Rightarrow> buffer \<Rightarrow> (parse_result \<times> parsing_state \<times> buffer) run" where
  "ReadRequestLine bo st b =
     (if parse_status st \<noteq> kParsingRequestLine then Some (Inl Assertion_failed)
      else then_run (Some (message_slice b)) (\<lambda>msg.
           then_run (Slice_find (internal_buf b) msg HEADER_SEP) (\<lambda>found.
           case found of
             None \<Rightarrow> Some (Inr (kParseNeedMore, st, b))
           | Some pos \<Rightarrow> Some (
               andthen (subslice msg 0 pos) (\<lambda>request_line.
               andthen (Slice_to_string (internal_buf b) request_line) (\<lambda>line.
               case read_line_parts bo line st of
                 (kParseOK, st1) \<Rightarrow>
                   andthen (ConsumeBytes b (slice_len request_line + HEADER_SEP_LEN)) (\<lambda>b1.
                     Inr (kParseOK, st1\<lparr>parse_status := kParsingRequestHeader,
                                        parse_func := Some ReadRequestHeader_f\<rparr>, b1))
               | (r, st1) \<Rightarrow> Inr (r, st1, b)))))))"

text \<open>The blank line: the body length is what the header \<open>content-length\<close> says.\<close>

definition end_of_headers :: "boost \<Rightarrow> parsing_state \<Rightarrow> parse_result \<times> parsing_state" where
  "end_of_headers bo st =
     (case HTTPRequest_GetHeader (parse_req st) ''content-length'' of
        Some val \<Rightarrow>
          (case cast_unsigned bo val of
             None \<Rightarrow> (kParseError, bad_request st)
           | Some n \<Rightarrow>
               (kParseOK, st\<lparr>parse_status := kParsingRequestBody,
                             parse_req := (parse_req st)\<lparr>req_body_length := n\<rparr>,
                             parse_func := Some ReadRequestBody_f\<rparr>))
      | None \<Rightarrow> (kParseOK, st\<lparr>parse_status := kParsingDone, parse_func := None\<rparr>))"

text \<open>An ordinary header line; \<open>header_length_\<close> is an \<open>unsigned\<close>.\<close>

definition read_header_line :: "boost \<Rightarrow> string \<Rightarrow> parsing_state \<Rightarrow> parse_result \<times> parsing_state" where
  "read_header_line bo line st =
     (let kv = SplitString bo line '': '' [] in
      if length kv \<noteq> 2 then (kParseError, bad_request st)
      else let r1 = (parse_req st)\<lparr>req_header_length :=
                      (req_header_length (parse_req st) + length line + HEADER_SEP_LEN) mod 2 ^ 32\<rparr>;
               r2 = snd (HTTPRequest_AddHeader r1 (lower bo (kv ! 0)) (kv ! 1))
           in (kParseOK, st\<lparr>parse_req := r2\<rparr>))"

definition ReadRequestHeader :: "boost \<Rightarrow> parsing_state \<Rightarrow> buffer \<Rightarrow> (parse_result \<times> parsing_state \<times> buffer) run" where
  "ReadRequestHeader bo st b =
     (if parse_status st \<noteq> kParsingRequestHeader then Some (Inl Assertion_failed)
      else then_run (Some (message_slice b)) (\<lambda>msg.
           then_run (Slice_find (internal_buf b) msg HEADER_SEP) (\<lambda>found.
           case found of
             None \<Rightarrow> Some (Inr (kParseNeedMore, st, b))
           | Some pos \<Rightarrow>
               if pos = 0 then
                 (case end_of_headers bo st of
                    (kParseOK, st1) \<Rightarrow>
                      Some (andthen (ConsumeBytes b HEADER_SEP_LEN) (\<lambda>b1. Inr (kParseOK, st1, b1)))
                  | (r, st1) \<Rightarrow> Some (Inr (r, st1, b)))
               else Some (
                 andthen (subslice msg 0 pos) (\<lambda>l.
                 andthen (Slice_to_string (internal_buf b) l) (\<lambda>line.
                 case read_header_line bo line st of
                   (kParseOK, st1) \<Rightarrow>
                     andthen (ConsumeBytes b (pos + HEADER_SEP_LEN)) (\<lambda>b1. Inr (kParseOK, st1, b1))
                 | (r, st1) \<Rightarrow> Inr (r, st1, b)))))))"

definition take_body :: "string \<Rightarrow> parsing_state \<Rightarrow> parsing_state" where
  "take_body body st =
     st\<lparr>parse_req := (parse_req st)\<lparr>req_body := body\<rparr>, parse_status := kParsingDone, parse_func := None\<rparr>"

definition ReadRequestBody :: "parsing_state \<Rightarrow> buffer \<Rightarrow> (parse_result \<times> parsing_state \<times> buffer) result" where
  "ReadRequestBody st b =
     (let n = req_body_length (parse_req st) in
      asserting (parse_status st = kParsingRequestBody \<and> n \<noteq> 0)
       (andthen (BytesToRead b) (\<lambda>have.
          if have < n then Inr (kParseNeedMore, st, b)
          else andthen (ReadBegin b) (\<lambda>p.
               andthen (Slice_to_string (internal_buf b) (Slice_of p n)) (\<lambda>body.
               andthen (ConsumeBytes b n) (\<lambda>b1. Inr (kParseOK, take_body body st, b1)))))))"

section \<open>Messages\<close>

definition call_parse_func :: "boost \<Rightarrow> parsing_state \<Rightarrow> buffer \<Rightarrow> (parse_result \<times> parsing_state \<times> buffer) run" where
  "call_parse_func bo st b =
     (case parse_func st of
        None \<Rightarrow> Some (Inl Bad_function_call)
      | Some StartParsing_f \<Rightarrow> Some (StartParsing st b)
      | Some ReadRequestLine_f \<Rightarrow> ReadRequestLine bo st b
      | Some ReadRequestHeader_f \<Rightarrow> ReadRequestHeader bo st b
      | Some ReadRequestBody_f \<Rightarrow> Some (ReadRequestBody st b))"

text \<open>The loop of \<open>OnMessage\<close>; \<open>res\<close> is the result of the last call.\<close>

partial_function (option) parse_loop ::
  "boost \<Rightarrow> parse_result \<Rightarrow> parsing_state \<Rightarrow> buffer \<Rightarrow> (parse_result \<times> parsing_state \<times> buffer) result option" where
  "parse_loop bo res st b =
     (if parse_status st = kParsingDone then Some (Inr (res, st, b))
      else case call_parse_func bo st b of
        None \<Rightarrow> None
      | Some (Inl e) \<Rightarrow> Some (Inl e)
      | Some (Inr (res', st', b')) \<Rightarrow>
          if res' = kParseOK then parse_loop bo res' st' b' else Some (Inr (res', st', b')))"

text \<open>What the codec hands to its callbacks.\<close>

datatype codec_event =
    Codec_wait
  | Codec_error http_response
  | Codec_request http_request

text \<open>
  \<open>rcb\<close> and \<open>ecb\<close> say whether the request and the error callback are set. The context
  \<open>None\<close> is the empty \<open>boost::any\<close>, from which \<open>any_cast\<close> throws. Without an error
  callback a refused request goes the way of a finished one, as in the code.
\<close>

definition OnMessage ::
  "boost \<Rightarrow> bool \<Rightarrow> bool \<Rightarrow> parsing_state option \<Rightarrow> buffer \<Rightarrow> (codec_event \<times> parsing_state option \<times> buffer) run" where
  "OnMessage bo rcb ecb ctx b =
     (case ctx of
        None \<Rightarrow> Some (Inl Bad_any_cast)
      | Some st \<Rightarrow>
          then_run (parse_loop bo kParseError st b) (\<lambda>(res, st', b').
            if res = kParseError \<and> ecb then
              (case parse_res st' of
                 None \<Rightarrow> Some (Inl Assertion_failed)
               | Some r \<Rightarrow> Some (Inr (Codec_error r, Some st', b')))
            else if res = kParseNeedMore then Some (Inr (Codec_wait, Some st', b'))
            else Some (Inr (if rcb then Codec_request (parse_req st') else Codec_wait, None, b'))))"

section \<open>Responses\<close>

definition reason_table :: "(nat \<times> string) list" where
  "reason_table =
     [(301, ''Moved Permanently''), (302, ''Found''), (303, ''See Other''),
      (304, ''Not Modified''), (305, ''Use Proxy''), (307, ''Temporary Redirect''),
      (400, ''Bad Request''), (401, ''Unauthorized''), (402, ''Payment Required''),
      (403, ''Forbidden''), (404, ''Not Found''), (405, ''Method Not Allowed''),
      (406, ''Not Acceptable''), (407, ''Proxy Authentication Required''),
      (408, ''Request Time-out''), (409, ''Conflict''), (410, ''Gone''),
      (411, ''Length Required''), (412, ''Precondition Failed''),
      (413, ''Request Entity Too Large''), (414, ''Request-URI Too Large''),
      (415, ''Unsupported Media Type''), (416, ''Requested range not satisfiable''),
      (417, ''Expectation Failed''), (500, ''Internal Server Error''),
      (501, ''Not Implemented''), (502, ''Bad Gateway''), (503, ''Service Unavailable''),
      (504, ''Gateway Time-out''), (505, ''HTTP Version not supported'')]"

text \<open>\<open>status_to_reason_[code]\<close>: a code that is not there gets the empty string.\<close>

definition reason :: "nat \<Rightarrow> string" where
  "reason code = (case map_of reason_table code of None \<Rightarrow> [] | Some r \<Rightarrow> r)"

definition EncodeResponse :: "boost \<Rightarrow> string \<Rightarrow> http_response \<Rightarrow> string" where
  "EncodeResponse bo date res =
     format_args bo ''%s %u %s%s''
       [Str (HTTPResponse_HTTPVersion bo res), Unsigned (res_status res),
        Str (reason (res_status res)), Str HEADER_SEP] @
     format_args bo ''Date: %s%s'' [Str date, Str HEADER_SEP] @
     format_args bo ''Server: FX Server/0.0.1%s'' [Str HEADER_SEP] @
     format_args bo ''Content-Type: text/html%s'' [Str HEADER_SEP] @
     format_args bo ''Connection: close%s'' [Str HEADER_SEP] @
     (if res_body_length res \<noteq> 0 then
        format_args bo ''Content-Length: %u%s'' [Unsigned (res_body_length res), Str HEADER_SEP] @
        HEADER_SEP
      else [])"

section \<open>The parser on byte strings\<close>

text \<open>
  One call of the parsing function when \<open>s\<close> are the unread bytes: the result, the new
  state, and the bytes that stay unread.
\<close>

definition start_step :: "parsing_state \<Rightarrow> string \<Rightarrow> (parse_result \<times> parsing_state \<times> string) result" where
  "start_step st s =
     asserting (parse_status st = kInit)
      (if s \<noteq> [] then
         Inr (kParseOK, st\<lparr>parse_status := kParsingRequestLine, parse_func := Some ReadRequestLine_f\<rparr>, s)
       else Inr (kParseNeedMore, st, s))"

definition line_step :: "boost \<Rightarrow> parsing_state \<Rightarrow> string \<Rightarrow> (parse_result \<times> parsing_state \<times> string) result" where
  "line_step bo st s =
     asserting (parse_status st = kParsingRequestLine)
      (case string_find s HEADER_SEP 0 of
         None \<Rightarrow> Inr (kParseNeedMore, st, s)
       | Some pos \<Rightarrow>
           (case read_line_parts bo (take pos s) st of
              (kParseOK, st1) \<Rightarrow>
                Inr (kParseOK, st1\<lparr>parse_status := kParsingRequestHeader,
                                   parse_func := Some ReadRequestHeader_f\<rparr>, drop (pos + 2) s)
            | (r, st1) \<Rightarrow> Inr (r, st1, s)))"

definition header_step :: "boost \<Rightarrow> parsing_state \<Rightarrow> string \<Rightarrow> (parse_result \<times> parsing_state \<times> string) result" where
  "header_step bo st s =
     asserting (parse_status st = kParsingRequestHeader)
      (case string_find s HEADER_SEP 0 of
         None \<Rightarrow> Inr (kParseNeedMore, st, s)
       | Some pos \<Rightarrow>
           (case if pos = 0 then end_of_headers bo st else read_header_line bo (take pos s) st of
              (kParseOK, st1) \<Rightarrow> Inr (kParseOK, st1, drop (pos + 2) s)
            | (r, st1) \<Rightarrow> Inr (r, st1, s)))"

definition body_step :: "parsing_state \<Rightarrow> string \<Rightarrow> (parse_result \<times> parsing_state \<times> string) result" where
  "body_step st s =
     (let n = req_body_length (parse_req st) in
      asserting (parse_status st = kParsingRequestBody \<and> n \<noteq> 0)
        (if length s < n then Inr (kParseNeedMore, st, s)
         else Inr (kParseOK, take_body (take n s) st, drop n s)))"

definition parse_step :: "boost \<Rightarrow> parsing_state \<Rightarrow> string \<Rightarrow> (parse_result \<times> parsing_state \<times> string) result" where
  "parse_step bo st s =
     (case parse_func st of
        None \<Rightarrow> Inl Bad_function_call
      | Some StartParsing_f \<Rightarrow> start_step st s
      | Some ReadRequestLine_f \<Rightarrow> line_step bo st s
      | Some ReadRequestHeader_f \<Rightarrow> header_step bo st s
      | Some ReadRequestBody_f \<Rightarrow> body_step st s)"

text \<open>Every successful call moves on or consumes bytes.\<close>

definition parse_rank :: "parsing_state \<Rightarrow> nat" where
  "parse_rank st =
     (case parse_status st of
        kInit \<Rightarrow> 4 | kParsingRequestLine \<Rightarrow> 3 | kParsingRequestHeader \<Rightarrow> 2
      | kParsingRequestBody \<Rightarrow> 1 | kParsingDone \<Rightarrow> 0)"

lemma read_version_status:
  "read_version bo v st = (r, st') \<Longrightarrow> parse_status st' = parse_status st \<and> parse_func st' = parse_func st \<and>
     (r = kParseError \<longleftrightarrow> r \<noteq> kParseOK) \<and> (r = kParseError \<longrightarrow> parse_res st' \<noteq> None)"
  by (auto simp: read_version_def bad_request_def Let_def split: option.splits if_splits)

lemma read_line_parts_status:
  "read_line_parts bo l st = (r, st') \<Longrightarrow> parse_status st' = parse_status st \<and> parse_func st' = parse_func st \<and>
     (r = kParseError \<longleftrightarrow> r \<noteq> kParseOK) \<and> (r = kParseError \<longrightarrow> parse_res st' \<noteq> None)"
  by (auto simp: read_line_parts_def bad_request_def Let_def dest!: read_version_status split: if_splits)

lemma read_header_line_status:
  "read_header_line bo l st = (r, st') \<Longrightarrow> parse_status st' = parse_status st \<and> parse_func st' = parse_func st \<and>
     (r = kParseError \<longleftrightarrow> r \<noteq> kParseOK) \<and> (r = kParseError \<longrightarrow> parse_res st' \<noteq> None)"
  by (auto simp: read_header_line_def bad_request_def Let_def split: if_splits)

lemma end_of_headers_status:
  "end_of_headers bo st = (r, st') \<Longrightarrow>
     r = kParseOK \<and> (parse_status st' = kParsingRequestBody \<and> parse_func st' = Some ReadRequestBody_f \<or>
       parse_status st' = kParsingDone \<and> parse_func st' = None) \<or>
     r = kParseError \<and> parse_res st' \<noteq> None \<and> parse_status st' = parse_status st \<and> parse_func st' = parse_func st"
  by (auto simp: end_of_headers_def bad_request_def split: option.splits)

lemma header_sep_occurs:
  "string_find s HEADER_SEP 0 = Some pos \<Longrightarrow> pos + 2 \<le> length s"
  by (auto simp: string_find_Some occurs_at_def HEADER_SEP_def)

lemma parse_step_decreases:
  assumes "parse_step bo st s = Inr (kParseOK, st', s')"
  shows "length s' + parse_rank st' < length s + parse_rank st"
proof -
  consider "start_step st s = Inr (kParseOK, st', s')" | "line_step bo st s = Inr (kParseOK, st', s')"
    | "header_step bo st s = Inr (kParseOK, st', s')" | "body_step st s = Inr (kParseOK, st', s')"
    using assms by (auto simp: parse_step_def split: option.splits parse_func.splits)
  then show ?thesis
  proof cases
    case 1
    then show ?thesis by (auto simp: start_step_def parse_rank_def split: if_splits)
  next
    case 2
    then show ?thesis
      using header_sep_occurs [of s]
      by (auto simp: line_step_def parse_rank_def split: option.splits prod.splits parse_result.splits)
  next
    case 3
    then obtain pos where pos: "string_find s HEADER_SEP 0 = Some pos" "parse_status st = kParsingRequestHeader"
      by (auto simp: header_step_def split: option.splits)
    show ?thesis
    proof (cases "pos = 0")
      case True
      then obtain "end_of_headers bo st = (kParseOK, st')" "s' = drop (pos + 2) s"
        using 3 pos by (auto simp: header_step_def split: prod.splits parse_result.splits)
      then show ?thesis
        using header_sep_occurs [OF pos(1)] pos True
        by (auto simp: end_of_headers_def parse_rank_def split: option.splits)
    next
      case False
      then obtain "read_header_line bo (take pos s) st = (kParseOK, st')" "s' = drop (pos + 2) s"
        using 3 pos by (auto simp: header_step_def split: prod.splits parse_result.splits)
      then show ?thesis
        using header_sep_occurs [OF pos(1)] read_header_line_status [of bo "take pos s" st kParseOK st']
        by (simp add: parse_rank_def)
    qed
  next
    case 4
    then show ?thesis
      by (auto simp: body_step_def Let_def parse_rank_def take_body_def split: if_splits)
  qed
qed

function decode :: "boost \<Rightarrow> parse_result \<Rightarrow> parsing_state \<Rightarrow> string \<Rightarrow> (parse_result \<times> parsing_state \<times> string) result" where
  "decode bo res st s =
     (if parse_status st = kParsingDone then Inr (res, st, s)
      else case parse_step bo st s of
        Inl e \<Rightarrow> Inl e
      | Inr (res', st', s') \<Rightarrow> if res' = kParseOK then decode bo res' st' s' else Inr (res', st', s'))"
  by pat_completeness auto

termination
  by (relation "measure (\<lambda>(bo, res, st, s). length s + parse_rank st)")
    (auto dest: parse_step_decreases)

declare decode.simps [simp del]

text \<open>More bytes at the end change nothing but the bytes that stay.\<close>

lemma string_find_append:
  assumes "string_find a p 0 = Some i"
  shows "string_find (a @ b) p 0 = Some i"
proof -
  have "occurs_at (a @ b) p j \<longleftrightarrow> occurs_at a p j" if "j + length p \<le> length a" for j
    using that by (auto simp: occurs_at_def)
  then show ?thesis
    using assms unfolding string_find_Some by (auto simp: occurs_at_def)
qed

lemma parse_step_more:
  "parse_step bo st a = Inr (kParseNeedMore, st', s') \<Longrightarrow> st' = st \<and> s' = a \<and> parse_status st \<noteq> kParsingDone"
  by (auto simp: parse_step_def start_step_def line_step_def header_step_def body_step_def Let_def
      dest!: read_line_parts_status read_header_line_status end_of_headers_status
      split: option.splits parse_func.splits if_splits prod.splits parse_result.splits)

lemma line_step_append:
  "line_step bo st a = Inr (r, st', s') \<Longrightarrow> r \<noteq> kParseNeedMore \<Longrightarrow>
     line_step bo st (a @ b) = Inr (r, st', s' @ b)"
  using string_find_append [of a HEADER_SEP _ b] header_sep_occurs [of a]
  by (auto simp: line_step_def split: option.splits prod.splits parse_result.splits)

lemma header_step_append:
  "header_step bo st a = Inr (r, st', s') \<Longrightarrow> r \<noteq> kParseNeedMore \<Longrightarrow>
     header_step bo st (a @ b) = Inr (r, st', s' @ b)"
  using string_find_append [of a HEADER_SEP _ b] header_sep_occurs [of a]
  by (auto simp: header_step_def split: option.splits prod.splits parse_result.splits if_splits)

lemma parse_step_append:
  assumes "parse_step bo st a = Inr (r, st', s')" "r \<noteq> kParseNeedMore"
  shows "parse_step bo st (a @ b) = Inr (r, st', s' @ b)"
  using assms line_step_append [of bo st a r st' s' b] header_step_append [of bo st a r st' s' b]
  by (auto simp: parse_step_def start_step_def body_step_def Let_def
      split: option.splits parse_func.splits if_splits)

lemma parse_step_fault:
  "parse_step bo st a = Inl e \<Longrightarrow> parse_step bo st (a @ b) = Inl e"
  by (auto simp: parse_step_def start_step_def line_step_def header_step_def body_step_def Let_def asserting_def
      split: option.splits parse_func.splits if_splits prod.splits parse_result.splits)

lemma decode_restart: "parse_status st \<noteq> kParsingDone \<Longrightarrow> decode bo res st s = decode bo res' st s"
  by (subst (1 2) decode.simps) simp

lemma decode_more:
  "decode bo res st a = Inr (kParseNeedMore, st', s') \<Longrightarrow> res \<noteq> kParseNeedMore \<Longrightarrow>
     parse_status st' \<noteq> kParsingDone \<and> decode bo res st (a @ b) = decode bo kParseError st' (s' @ b)"
proof (induction bo res st a rule: decode.induct)
  case (1 bo res st s)
  show ?case
  proof (cases "parse_status st = kParsingDone")
    case True
    then show ?thesis using 1 by (simp add: decode.simps)
  next
    case False
    then obtain r1 st1 s1 where step: "parse_step bo st s = Inr (r1, st1, s1)"
      using "1.prems"(1) by (subst (asm) decode.simps) (auto split: sum.splits)
    show ?thesis
    proof (cases "r1 = kParseOK")
      case True
      have "decode bo kParseOK st1 s1 = Inr (kParseNeedMore, st', s')"
        using "1.prems"(1) False step True by (subst (asm) decode.simps) simp
      moreover have "decode bo res st (s @ b) = decode bo kParseOK st1 (s1 @ b)"
        using parse_step_append [OF step, of b] False True by (subst decode.simps) simp
      ultimately show ?thesis using "1.IH" [OF False step] True by simp
    next
      case other: False
      then have "r1 = kParseNeedMore" "st' = st1" "s' = s1"
        using "1.prems"(1) False step by (subst (asm) decode.simps, simp)+
      then have "st1 = st" "s1 = s" using parse_step_more step by blast+
      then show ?thesis using False decode_restart \<open>st' = st1\<close> \<open>s' = s1\<close> by blast
    qed
  qed
qed

lemma decode_stable:
  "decode bo res st a = Inr (r, st', s') \<Longrightarrow> r \<noteq> kParseNeedMore \<Longrightarrow>
     decode bo res st (a @ b) = Inr (r, st', s' @ b)"
proof (induction bo res st a rule: decode.induct)
  case (1 bo res st s)
  show ?case
  proof (cases "parse_status st = kParsingDone")
    case True
    then show ?thesis using 1 by (simp add: decode.simps)
  next
    case False
    then obtain r1 st1 s1 where step: "parse_step bo st s = Inr (r1, st1, s1)"
      using "1.prems"(1) by (subst (asm) decode.simps) (auto split: sum.splits)
    have "r1 \<noteq> kParseNeedMore"
      using 1 False step by (subst (asm) (2) decode.simps) (auto split: if_splits)
    note app = parse_step_append [OF step this, of b]
    show ?thesis
    proof (cases "r1 = kParseOK")
      case True
      have "decode bo kParseOK st1 s1 = Inr (r, st', s')"
        using "1.prems"(1) False step True by (subst (asm) decode.simps) simp
      then have "decode bo kParseOK st1 (s1 @ b) = Inr (r, st', s' @ b)"
        using "1.IH" [OF False step] True "1.prems"(2) by simp
      then show ?thesis using app False True by (subst decode.simps) simp
    next
      case other: False
      then show ?thesis
        using "1.prems"(1) False step app by (subst (asm) decode.simps, subst decode.simps) simp
    qed
  qed
qed

lemma decode_fault:
  "decode bo res st a = Inl e \<Longrightarrow> decode bo res st (a @ b) = Inl e"
proof (induction bo res st a rule: decode.induct)
  case (1 bo res st s)
  have nd: "parse_status st \<noteq> kParsingDone"
    using "1.prems" by (subst (asm) decode.simps) (auto split: if_splits)
  show ?case
  proof (cases "parse_step bo st s")
    case (Inl e')
    then have "e' = e" using "1.prems" nd by (subst (asm) decode.simps) simp
    then show ?thesis using parse_step_fault [OF Inl, of b] nd by (subst decode.simps) simp
  next
    case (Inr x)
    obtain r1 st1 s1 where x: "x = (r1, st1, s1)" by (cases x) auto
    have ok: "r1 = kParseOK"
      using "1.prems" nd Inr x by (subst (asm) decode.simps) (auto split: if_splits)
    then have "decode bo kParseOK st1 s1 = Inl e"
      using "1.prems" nd Inr x by (subst (asm) decode.simps) simp
    then have "decode bo kParseOK st1 (s1 @ b) = Inl e"
      using "1.IH" [OF nd Inr x [symmetric]] ok x by simp
    then show ?thesis
      using parse_step_append [OF Inr [unfolded x], of b] ok nd by (subst decode.simps) simp
  qed
qed

end
