(* ===== verification/Http_Server.thy ===== *)
theory Http_Server
  imports Http_Codec
begin

unbundle bit_operations_syntax

text \<open>
  The request pipeline of the example server (examples/httpserver: http_server and the
  modules request_validator, request_rewrite and file_accessor). The modules register
  functions with the server; \<open>OnRequest\<close> runs them on a request and writes the response to
  the connection. What is done to the connection is the list of \<open>conn_action\<close>s, what is
  done to files the list of \<open>file_event\<close>s.

  The calls to the operating system are a parameter, the record \<open>posix\<close>.
\<close>

section \<open>The operating system\<close>

datatype errno = ENOENT | ENAMETOOLONG | ENOTDIR | EACCES | Other_errno

record file_stat =
  st_regular :: bool
  st_mode :: nat
  st_uid :: nat
  st_gid :: nat
  st_size :: nat

text \<open>
  \<open>stat\<close>, \<open>open\<close> for reading (a negative result is a failure), \<open>pread\<close> at offset 0 (\<open>None\<close>
  is a failure), \<open>getuid\<close> and \<open>getgid\<close>.
\<close>

record posix =
  sys_stat :: "string \<Rightarrow> errno + file_stat"
  sys_open :: "string \<Rightarrow> int"
  sys_pread :: "int \<Rightarrow> nat \<Rightarrow> string option"
  sys_uid :: nat
  sys_gid :: nat

datatype file_event = Opened string int | Closed int

datatype conn_action =
    Write_bytes string
  | Zero_copy_write int nat nat
  | Set_write_done
  | Active_close

datatype ret_code = kOk | kForbidden | kNotFound | kNotFile | kInternalError

type_synonym pre_func = "http_request \<Rightarrow> (http_response option \<times> http_request) result"
type_synonym proc_func = "http_request \<Rightarrow> http_response \<Rightarrow> (http_response \<times> file_event list) result"

record http_server =
  pre_processing_funcs :: "pre_func list"
  processing_funcs :: "proc_func list"
  post_processing_funcs :: "proc_func list"

definition RegisterPreProcessing :: "pre_func \<Rightarrow> http_server \<Rightarrow> http_server" where
  "RegisterPreProcessing f s = s\<lparr>pre_processing_funcs := pre_processing_funcs s @ [f]\<rparr>"

definition RegisterProcessing :: "proc_func \<Rightarrow> http_server \<Rightarrow> http_server" where
  "RegisterProcessing f s = s\<lparr>processing_funcs := processing_funcs s @ [f]\<rparr>"

definition RegisterPostProcessing :: "proc_func \<Rightarrow> http_server \<Rightarrow> http_server" where
  "RegisterPostProcessing f s = s\<lparr>post_processing_funcs := post_processing_funcs s @ [f]\<rparr>"

section \<open>The request validator\<close>

text \<open>
  The warning about the version prints \<open>res->HTTPVersion()\<close> while \<open>res\<close> is null. The second
  search, for three dots, is implied by the first.
\<close>

definition Validator_Process :: pre_func where
  "Validator_Process req =
     (if 1 < req_minor_version req \<or> 1 < req_major_version req then Inl Null_dereference
      else if req_minor_version req = 1 \<and> req_major_version req = 1 \<and>
              HTTPRequest_GetHeader req ''host'' = None then
        Inr (Some (MakeResponse 400), req)
      else if string_find (req_original_request_path req) ''..'' 0 \<noteq> None \<or>
              string_find (req_original_request_path req) ''...'' 0 \<noteq> None then
        Inr (Some (MakeResponse 400), req)
      else if req_request_type req \<noteq> ''GET'' then Inr (Some (MakeResponse 501), req)
      else Inr (None, req))"

section \<open>The request rewriter\<close>

definition dir_access_suffixes :: "string list" where
  "dir_access_suffixes = [''/index.html'']"

definition compressed_file_extensions :: "string list" where
  "compressed_file_extensions = [''.gz'']"

definition add_request_path_candidate :: "string \<Rightarrow> http_request \<Rightarrow> http_request" where
  "add_request_path_candidate p r = r\<lparr>req_path_candidates := req_path_candidates r @ [p]\<rparr>"

definition ResolveRequestPathCandidates :: pre_func where
  "ResolveRequestPathCandidates req =
     (let path = req_original_request_path req in
      asserting (path \<noteq> [])
       (Inr (None,
          if last path = CHR ''/'' then fold add_request_path_candidate dir_access_suffixes req
          else add_request_path_candidate path
                 (fold (\<lambda>ext. add_request_path_candidate (path @ ext)) compressed_file_extensions req))))"

section \<open>The file accessor\<close>

definition zero_copy_file_min_size :: nat where
  "zero_copy_file_min_size = 1048576"

definition S_IRUSR :: nat where "S_IRUSR = 256"
definition S_IRGRP :: nat where "S_IRGRP = 32"
definition S_IROTH :: nat where "S_IROTH = 4"

text \<open>The return code, and the size stored through \<open>byte_size\<close> where the function gets to it.\<close>

definition CheckFileCanRead :: "posix \<Rightarrow> string \<Rightarrow> string \<Rightarrow> ret_code \<times> nat option" where
  "CheckFileCanRead os base_path file_path =
     (case sys_stat os (c_str (base_path @ file_path)) of
        Inl e \<Rightarrow>
          (if e = ENOENT \<or> e = ENAMETOOLONG \<or> e = ENOTDIR then (kNotFound, None)
           else if e = EACCES then (kForbidden, None)
           else (kInternalError, None))
      | Inr sb \<Rightarrow>
          if \<not> st_regular sb then (kNotFile, None)
          else
            let mask = (if sys_uid os = st_uid sb then S_IRUSR
                        else if sys_gid os = st_gid sb then S_IRGRP else S_IROTH)
            in (if st_mode sb AND mask \<noteq> 0 then kOk else kForbidden, Some (st_size sb)))"

fun search_candidates :: "posix \<Rightarrow> string \<Rightarrow> string list \<Rightarrow> http_request \<Rightarrow> http_response option \<times> http_request" where
  "search_candidates os base [] req = (Some (MakeResponse 404), req)"
| "search_candidates os base (path # paths) req =
     (case fst (CheckFileCanRead os base path) of
        kOk \<Rightarrow> (None, req\<lparr>req_real_request_path := path\<rparr>)
      | kNotFound \<Rightarrow> search_candidates os base paths req
      | kForbidden \<Rightarrow> (Some (MakeResponse 403), req)
      | kNotFile \<Rightarrow> (Some (MakeResponse 400), req)
      | kInternalError \<Rightarrow> (Some (MakeResponse 500), req))"

definition FileAccessor_PreProcessing :: "posix \<Rightarrow> string \<Rightarrow> pre_func" where
  "FileAccessor_PreProcessing os base req =
     asserting (req_path_candidates req \<noteq> [])
       (Inr (search_candidates os base (req_path_candidates req) req))"

text \<open>
  \<open>ReadFile\<close>. The file is looked at again; when it cannot be opened the response stays as
  it is. A large file is left open for the zero-copy write.
\<close>

definition ReadFile :: "posix \<Rightarrow> string \<Rightarrow> proc_func" where
  "ReadFile os base req res =
     (case CheckFileCanRead os base (req_real_request_path req) of
        (ret, sz) \<Rightarrow>
          asserting (ret = kOk)
           (let byte_size = (case sz of Some n \<Rightarrow> n | None \<Rightarrow> 0);
                abs_path = c_str (base @ req_real_request_path req);
                fd = sys_open os abs_path
            in if fd < 0 then Inr (res, [])
               else if zero_copy_file_min_size \<le> byte_size then
                 Inr (set_zero_copy_write_callback (set_zero_copy_fd res fd), [Opened abs_path fd])
               else
                 let res1 = HTTPResponse_GetBodyBuf res byte_size
                 in (case sys_pread os fd byte_size of
                       None \<Rightarrow> Inr (res1, [Opened abs_path fd, Closed fd])
                     | Some bytes \<Rightarrow>
                         andthen (put_body res1 bytes) (\<lambda>res2.
                         asserting (length bytes = byte_size)
                           (Inr (res2, [Opened abs_path fd, Closed fd]))))))"

definition OnZeroCopyWriteFinished :: "int \<Rightarrow> file_event list" where
  "OnZeroCopyWriteFinished fd = [Closed fd]"

section \<open>The server\<close>

text \<open>Each module registers when it is constructed, in this order.\<close>

definition Validator_Init :: "http_server \<Rightarrow> http_server" where
  "Validator_Init s = RegisterPreProcessing Validator_Process s"

definition Rewrite_Init :: "http_server \<Rightarrow> http_server" where
  "Rewrite_Init s = RegisterPreProcessing ResolveRequestPathCandidates s"

definition FileAccessor_Init :: "posix \<Rightarrow> string \<Rightarrow> http_server \<Rightarrow> http_server" where
  "FileAccessor_Init os base s =
     RegisterProcessing (ReadFile os base) (RegisterPreProcessing (FileAccessor_PreProcessing os base) s)"

definition InitModules :: "posix \<Rightarrow> string \<Rightarrow> http_server \<Rightarrow> http_server" where
  "InitModules os base s = FileAccessor_Init os base (Rewrite_Init (Validator_Init s))"

definition HTTPServer_init :: http_server where
  "HTTPServer_init = \<lparr>pre_processing_funcs = [], processing_funcs = [], post_processing_funcs = []\<rparr>"

definition WriteResponseAndClose :: "boost \<Rightarrow> string \<Rightarrow> http_response \<Rightarrow> conn_action list result" where
  "WriteResponseAndClose bo date res =
     (let head = Write_bytes (EncodeResponse bo date res);
          body_len = res_body_length res
      in if body_len = 0 then Inr [head, Set_write_done]
         else if res_is_zero_copy_body res then
           andthen (zero_copy_fd res) (\<lambda>fd. Inr [head, Zero_copy_write fd 0 body_len, Set_write_done])
         else if body_len \<le> length (res_body res) then
           Inr [head, Write_bytes (take body_len (res_body res)), Set_write_done]
         else Inl Out_of_bounds)"

text \<open>The weak pointer to the connection may have expired.\<close>

definition WriteResponseDone :: "bool \<Rightarrow> conn_action list" where
  "WriteResponseDone alive = (if alive then [Active_close] else [])"

fun run_pre :: "pre_func list \<Rightarrow> http_request \<Rightarrow> (http_response option \<times> http_request) result" where
  "run_pre [] req = Inr (None, req)"
| "run_pre (f # fs) req =
     andthen (f req) (\<lambda>(res, req').
       case res of Some r \<Rightarrow> Inr (Some r, req') | None \<Rightarrow> run_pre fs req')"

fun run_proc :: "proc_func list \<Rightarrow> http_request \<Rightarrow> http_response \<Rightarrow> (http_response \<times> file_event list) result" where
  "run_proc [] req res = Inr (res, [])"
| "run_proc (f # fs) req res =
     andthen (f req res) (\<lambda>(res', evs).
       andthen (run_proc fs req res') (\<lambda>(res'', evs'). Inr (res'', evs @ evs')))"

definition OnRequest ::
  "boost \<Rightarrow> string \<Rightarrow> http_server \<Rightarrow> http_request \<Rightarrow> (conn_action list \<times> file_event list) result" where
  "OnRequest bo date srv r =
     andthen (run_pre (pre_processing_funcs srv) r) (\<lambda>(res, req).
       case res of
         Some response \<Rightarrow>
           andthen (WriteResponseAndClose bo date response) (\<lambda>acts. Inr (acts, []))
       | None \<Rightarrow>
           andthen (run_proc (processing_funcs srv) req (HTTPResponse_init 200)) (\<lambda>(res1, evs1).
           andthen (run_proc (post_processing_funcs srv) req res1) (\<lambda>(res2, evs2).
           andthen (WriteResponseAndClose bo date res2) (\<lambda>acts. Inr (acts, evs1 @ evs2)))))"

definition OnParseHeaderError :: "boost \<Rightarrow> string \<Rightarrow> http_response \<Rightarrow> conn_action list result" where
  "OnParseHeaderError bo date res = WriteResponseAndClose bo date res"

text \<open>The server as \<open>Run\<close> sets it up, and its reading of one packet.\<close>

definition file_server :: "posix \<Rightarrow> string \<Rightarrow> http_server" where
  "file_server os base = InitModules os base HTTPServer_init"

definition server_read ::
  "boost \<Rightarrow> string \<Rightarrow> http_server \<Rightarrow> parsing_state option \<Rightarrow> buffer \<Rightarrow>
    (conn_action list \<times> file_event list \<times> parsing_state option \<times> buffer) run" where
  "server_read bo date srv ctx b =
     then_run (OnMessage bo True True ctx b) (\<lambda>(ev, ctx', b').
       Some (case ev of
         Codec_wait \<Rightarrow> Inr ([], [], ctx', b')
       | Codec_error res \<Rightarrow> andthen (OnParseHeaderError bo date res) (\<lambda>acts. Inr (acts, [], ctx', b'))
       | Codec_request r \<Rightarrow> andthen (OnRequest bo date srv r) (\<lambda>(acts, evs). Inr (acts, evs, ctx', b'))))"

end
