(* ===== verification/Stream_Decoder.thy ===== *)
theory Stream_Decoder
  imports Fx_Prelude
begin

text \<open>
  The contract between a decoder and the connection that feeds it. A decoder takes the bytes
  not yet consumed and either asks for more (\<open>None\<close>) or delivers an outcome, with its new
  state and the bytes it leaves. Its laws say that an answer given on a prefix of the stream
  stands. The lemma of the interface is that the cutting of the stream into chunks cannot be
  seen: feeding chunk after chunk is decoding their concatenation.
\<close>

fun feed ::
  "('s \<Rightarrow> 'a list \<Rightarrow> ('o option \<times> 's \<times> 'a list) result) \<Rightarrow> 's \<Rightarrow> 'a list \<Rightarrow> 'a list list \<Rightarrow>
    ('o option \<times> 's \<times> 'a list) result" where
  "feed dec st r [] = Inr (None, st, r)"
| "feed dec st r (c # cs) =
     andthen (dec st (r @ c)) (\<lambda>(out, st', r').
       case out of
         None \<Rightarrow> feed dec st' r' cs
       | Some x \<Rightarrow> Inr (Some x, st', r' @ concat cs))"

locale stream_decoder =
  fixes dec :: "'s \<Rightarrow> 'a list \<Rightarrow> ('o option \<times> 's \<times> 'a list) result"
  assumes more_law: "dec st a = Inr (None, st', r) \<Longrightarrow> dec st (a @ b) = dec st' (r @ b)"
    and done_law: "dec st a = Inr (Some x, st', r) \<Longrightarrow> dec st (a @ b) = Inr (Some x, st', r @ b)"
    and fault_law: "dec st a = Inl e \<Longrightarrow> dec st (a @ b) = Inl e"
begin

lemma more_again: "dec st a = Inr (None, st', r) \<Longrightarrow> dec st' r = Inr (None, st', r)"
  using more_law [of st a st' r "[]"] by simp

lemma feed_concat:
  assumes "cs \<noteq> []"
  shows "feed dec st r cs = dec st (r @ concat cs)"
  using assms
proof (induction cs arbitrary: st r)
  case Nil
  then show ?case by simp
next
  case (Cons c cs)
  show ?case
  proof (cases "dec st (r @ c)")
    case (Inl e)
    then show ?thesis using fault_law [OF Inl, of "concat cs"] by simp
  next
    case (Inr x)
    obtain out st' r' where x: "x = (out, st', r')" by (cases x) auto
    show ?thesis
    proof (cases out)
      case None
      then have step: "dec st (r @ c) = Inr (None, st', r')" using Inr x by simp
      show ?thesis
      proof (cases "cs = []")
        case True
        then show ?thesis using step by simp
      next
        case False
        then show ?thesis using step Cons.IH [OF False, of st' r'] more_law [OF step, of "concat cs"] by simp
      qed
    next
      case (Some y)
      then show ?thesis using Inr x done_law [of st "r @ c" y st' r' "concat cs"] by simp
    qed
  qed
qed

end

end
