(* ===== verification/Http_Codec_Laws.thy ===== *)
theory Http_Codec_Laws
  imports Http_Codec Stream_Decoder
begin

text \<open>
  What the codec does. The operations on the buffer are the parser on its unread bytes
  (\<open>follows\<close>), so the loop of \<open>OnMessage\<close> ends; the parser is an instance of the interface
  \<open>stream_decoder\<close>, so the cutting of a request into packets cannot be seen; and well-formed
  requests are read back as they were written. The last properties state where the codec
  fails: a body length of 0, a second request on a connection, a header value with a colon
  and a blank, and the missing blank line of a response without a body.
\<close>


section \<open>The buffer operations are the parser\<close>

text \<open>
  \<open>follows b r p\<close>: the outcome \<open>r\<close> of an operation on buffer \<open>b\<close> is the outcome \<open>p\<close> on its
  unread bytes; the operation ended, the buffer is still in order and its storage untouched.
\<close>

definition follows ::
  "buffer \<Rightarrow> (parse_result \<times> parsing_state \<times> buffer) run \<Rightarrow> (parse_result \<times> parsing_state \<times> string) result \<Rightarrow> bool" where
  "follows b r p \<longleftrightarrow>
     (case p of
        Inl e \<Rightarrow> r = Some (Inl e)
      | Inr (res, st, s) \<Rightarrow>
          \<exists>b'. r = Some (Inr (res, st, b')) \<and> buffer_ok b' \<and> unread b' = s \<and> internal_buf b' = internal_buf b)"

lemma follows_same:
  "buffer_ok b \<Longrightarrow> unread b = s \<Longrightarrow> follows b (Some (Inr (res, st, b))) (Inr (res, st, s))"
  by (simp add: follows_def)

lemma follows_consume:
  assumes "buffer_ok b" "n \<le> length (unread b)"
  shows "follows b (Some (andthen (ConsumeBytes b n) (\<lambda>b1. Inr (res, st, b1)))) (Inr (res, st, drop n (unread b)))"
  using ConsumeBytes_ok [OF assms] by (auto simp: follows_def)

lemma message_slice_ok:
  assumes "buffer_ok b"
  shows "\<exists>msg. message_slice b = Inr msg \<and> Slice_to_string (internal_buf b) msg = Inr (unread b) \<and>
           slice_len msg = length (unread b)"
proof -
  have "ReadBegin b = Inr (read_index b)"
    using assms by (simp add: ReadBegin_def buffer_ok_def)
  then show ?thesis
    using assms unread_length [OF assms]
    by (auto simp: message_slice_def BytesToRead_ok Slice_to_string_def Slice_of_def buffer_ok_def unread_def)
qed

lemma find_sep:
  assumes "Slice_to_string mem msg = Inr s"
  shows "Slice_find mem msg HEADER_SEP = Some (Inr (string_find s HEADER_SEP 0))"
  by (rule Slice_find_exact [OF assms]) (auto simp: HEADER_SEP_def)

lemma subslice_take:
  assumes "Slice_to_string mem msg = Inr s" "pos + 2 \<le> length s" "slice_len msg = length s"
  shows "\<exists>l. subslice msg 0 pos = Inr l \<and> Slice_to_string mem l = Inr (take pos s) \<and> slice_len l = pos"
proof -
  obtain l where l: "subslice msg 0 pos = Inr l" "Slice_to_string mem l = Inr (take pos s)"
    using subslice_bytes [OF assms(1), of 0 pos] by auto
  have "slice_len l = pos"
    using l(1) assms(2,3) by (auto simp: subslice_def split: if_splits)
  then show ?thesis using l by blast
qed

lemma StartParsing_follows:
  "buffer_ok b \<Longrightarrow> follows b (Some (StartParsing st b)) (start_step st (unread b))"
  by (auto simp: StartParsing_def start_step_def BytesToRead_ok asserting_def follows_def)

lemma ReadRequestLine_follows:
  assumes "buffer_ok b"
  shows "follows b (ReadRequestLine bo st b) (line_step bo st (unread b))"
proof (cases "parse_status st = kParsingRequestLine")
  case True
  obtain msg where msg: "message_slice b = Inr msg"
    "Slice_to_string (internal_buf b) msg = Inr (unread b)" "slice_len msg = length (unread b)"
    using message_slice_ok [OF assms] by blast
  show ?thesis
  proof (cases "string_find (unread b) HEADER_SEP 0")
    case None
    then show ?thesis
      using True msg(1) find_sep [OF msg(2)] assms
      by (simp add: ReadRequestLine_def line_step_def then_run_def follows_def)
  next
    case (Some pos)
    have len: "pos + 2 \<le> length (unread b)" by (rule header_sep_occurs [OF Some])
    obtain l where l: "subslice msg 0 pos = Inr l"
      "Slice_to_string (internal_buf b) l = Inr (take pos (unread b))" "slice_len l = pos"
      using subslice_take [OF msg(2) len msg(3)] by blast
    obtain r st1 where p: "read_line_parts bo (take pos (unread b)) st = (r, st1)" by fastforce
    show ?thesis
      using True msg(1) find_sep [OF msg(2)] Some l p assms follows_consume [OF assms len]
      by (cases r) (simp_all add: ReadRequestLine_def line_step_def then_run_def HEADER_SEP_LEN_def follows_same)
  qed
qed (simp add: ReadRequestLine_def line_step_def follows_def)

lemma ReadRequestHeader_follows:
  assumes "buffer_ok b"
  shows "follows b (ReadRequestHeader bo st b) (header_step bo st (unread b))"
proof (cases "parse_status st = kParsingRequestHeader")
  case True
  obtain msg where msg: "message_slice b = Inr msg"
    "Slice_to_string (internal_buf b) msg = Inr (unread b)" "slice_len msg = length (unread b)"
    using message_slice_ok [OF assms] by blast
  show ?thesis
  proof (cases "string_find (unread b) HEADER_SEP 0")
    case None
    then show ?thesis
      using True msg(1) find_sep [OF msg(2)] assms
      by (simp add: ReadRequestHeader_def header_step_def then_run_def follows_def)
  next
    case (Some pos)
    have len: "pos + 2 \<le> length (unread b)" by (rule header_sep_occurs [OF Some])
    show ?thesis
    proof (cases "pos = 0")
      case zero: True
      obtain r st1 where p: "end_of_headers bo st = (r, st1)" by fastforce
      have "2 \<le> length (unread b)" using len by simp
      from follows_consume [OF assms this] show ?thesis
        using True msg(1) find_sep [OF msg(2)] Some p assms zero
        by (cases r) (simp_all add: ReadRequestHeader_def header_step_def then_run_def HEADER_SEP_LEN_def follows_same numeral_2_eq_2)
    next
      case pos: False
      obtain l where l: "subslice msg 0 pos = Inr l"
        "Slice_to_string (internal_buf b) l = Inr (take pos (unread b))" "slice_len l = pos"
        using subslice_take [OF msg(2) len msg(3)] by blast
      obtain r st1 where p: "read_header_line bo (take pos (unread b)) st = (r, st1)" by fastforce
      show ?thesis
        using True msg(1) find_sep [OF msg(2)] Some l p assms pos follows_consume [OF assms len]
        by (cases r) (simp_all add: ReadRequestHeader_def header_step_def then_run_def HEADER_SEP_LEN_def follows_same)
    qed
  qed
qed (simp add: ReadRequestHeader_def header_step_def follows_def)

lemma ReadRequestBody_follows:
  assumes "buffer_ok b"
  shows "follows b (Some (ReadRequestBody st b)) (body_step st (unread b))"
proof -
  let ?n = "req_body_length (parse_req st)"
  show ?thesis
  proof (cases "parse_status st = kParsingRequestBody \<and> ?n \<noteq> 0")
    case True
    show ?thesis
    proof (cases "length (unread b) < ?n")
      case short: True
      then show ?thesis
        using True assms
        by (simp add: ReadRequestBody_def body_step_def BytesToRead_ok follows_same)
    next
      case False
      have "ReadBegin b = Inr (read_index b)"
        using assms by (simp add: ReadBegin_def buffer_ok_def)
      moreover have "Slice_to_string (internal_buf b) (Slice_of (read_index b) ?n) = Inr (take ?n (unread b))"
      proof -
        have "read_index b + ?n \<le> write_index b" "write_index b \<le> length (internal_buf b)"
          using False assms unread_length [OF assms] by (auto simp: buffer_ok_def)
        then show ?thesis by (simp add: Slice_to_string_def Slice_of_def unread_def)
      qed
      ultimately show ?thesis
        using True False assms follows_consume [OF assms, of ?n]
        by (simp add: ReadRequestBody_def body_step_def BytesToRead_ok Let_def)
    qed
  next
    case False
    then show ?thesis
      by (auto simp: ReadRequestBody_def body_step_def Let_def follows_def asserting_def)
  qed
qed

lemma call_parse_func_follows:
  assumes "buffer_ok b"
  shows "follows b (call_parse_func bo st b) (parse_step bo st (unread b))"
  using StartParsing_follows [OF assms] ReadRequestLine_follows [OF assms]
    ReadRequestHeader_follows [OF assms] ReadRequestBody_follows [OF assms]
  by (auto simp: call_parse_func_def parse_step_def follows_def split: option.splits parse_func.splits)

lemma parse_loop_follows:
  assumes "buffer_ok b"
  shows "follows b (parse_loop bo res st b) (decode bo res st (unread b))"
  using assms
proof (induction bo res st s \<equiv> "unread b" arbitrary: b rule: decode.induct)
  case (1 bo res st b)
  show ?case
  proof (cases "parse_status st = kParsingDone")
    case True
    then show ?thesis
      using "1.prems" by (subst parse_loop.simps, subst decode.simps) (simp add: follows_same)
  next
    case False
    note step = call_parse_func_follows [OF "1.prems", of bo st]
    show ?thesis
    proof (cases "parse_step bo st (unread b)")
      case (Inl e)
      then show ?thesis
        using False step by (subst parse_loop.simps, subst decode.simps) (simp add: follows_def)
    next
      case (Inr x)
      obtain r1 st1 s1 where x: "x = (r1, st1, s1)" by (cases x) auto
      obtain b1 where b1: "call_parse_func bo st b = Some (Inr (r1, st1, b1))" "buffer_ok b1"
        "unread b1 = s1" "internal_buf b1 = internal_buf b"
        using step Inr x by (auto simp: follows_def)
      show ?thesis
      proof (cases "r1 = kParseOK")
        case True
        then have "follows b1 (parse_loop bo r1 st1 b1) (decode bo r1 st1 (unread b1))"
          using "1.hyps" [OF False Inr x [symmetric]] b1(2,3) by blast
        then have "follows b (parse_loop bo r1 st1 b1) (decode bo r1 st1 s1)"
          unfolding follows_def b1(3,4) .
        moreover have "parse_loop bo res st b = parse_loop bo r1 st1 b1"
          using False True b1(1) by (subst parse_loop.simps) simp
        moreover have "decode bo res st (unread b) = decode bo r1 st1 s1"
          using False True Inr x by (subst decode.simps) simp
        ultimately show ?thesis by simp
      next
        case other: False
        then show ?thesis
          using False Inr x b1 by (subst parse_loop.simps, subst decode.simps) (auto simp: follows_def)
      qed
    qed
  qed
qed

text \<open>The outcome of a message: the event and the context, from the parser's outcome.\<close>

definition message_outcome :: "parse_result \<times> parsing_state \<times> string \<Rightarrow> (codec_event \<times> parsing_state option \<times> string) result" where
  "message_outcome x =
     (case x of (r, st, s) \<Rightarrow>
       if r = kParseError then
         (case parse_res st of None \<Rightarrow> Inl Assertion_failed | Some res \<Rightarrow> Inr (Codec_error res, Some st, s))
       else if r = kParseNeedMore then Inr (Codec_wait, Some st, s)
       else Inr (Codec_request (parse_req st), None, s))"

definition decode_message :: "boost \<Rightarrow> parsing_state \<Rightarrow> string \<Rightarrow> (codec_event \<times> parsing_state option \<times> string) result" where
  "decode_message bo st s = andthen (decode bo kParseError st s) message_outcome"

lemma OnMessage_decodes:
  assumes "buffer_ok b"
  shows "case decode_message bo st (unread b) of
      Inl e \<Rightarrow> OnMessage bo True True (Some st) b = Some (Inl e)
    | Inr (ev, ctx, s) \<Rightarrow> \<exists>b'. OnMessage bo True True (Some st) b = Some (Inr (ev, ctx, b')) \<and>
        buffer_ok b' \<and> unread b' = s \<and> internal_buf b' = internal_buf b"
  using parse_loop_follows [OF assms, of bo kParseError st]
  by (auto simp: OnMessage_def decode_message_def message_outcome_def follows_def then_run_def
      split: sum.splits option.splits)

definition codec_decode ::
  "boost \<Rightarrow> parsing_state \<Rightarrow> string \<Rightarrow> (parse_result option \<times> parsing_state \<times> string) result" where
  "codec_decode bo st s =
     andthen (decode bo kParseError st s) (\<lambda>(r, st', s').
       Inr (if r = kParseNeedMore then None else Some r, st', s'))"

interpretation http_stream: stream_decoder "codec_decode bo" for bo
proof unfold_locales
  show "codec_decode bo st (a @ b) = codec_decode bo st' (r @ b)"
    if "codec_decode bo st a = Inr (None, st', r)" for st a st' r b
    using that decode_more [of bo kParseError st a st' r b]
    by (auto simp: codec_decode_def andthen_Inr_iff split: if_splits)
  show "codec_decode bo st (a @ b) = Inr (Some x, st', r @ b)"
    if "codec_decode bo st a = Inr (Some x, st', r)" for st a x st' r b
    using that decode_stable [of bo kParseError st a x st' r b]
    by (auto simp: codec_decode_def andthen_Inr_iff split: if_splits)
  show "codec_decode bo st (a @ b) = Inl e" if "codec_decode bo st a = Inl e" for st a e b
    using that decode_fault [of bo kParseError st a e b]
    by (cases "decode bo kParseError st a") (auto simp: codec_decode_def)
qed

text \<open>A connection's read callback for every packet: append to the buffer, then parse.\<close>

fun receive_packets ::
  "boost \<Rightarrow> parsing_state \<Rightarrow> buffer \<Rightarrow> string list \<Rightarrow> (codec_event \<times> parsing_state option \<times> buffer) run" where
  "receive_packets bo st b [] = Some (Inr (Codec_wait, Some st, b))"
| "receive_packets bo st b (c # cs) =
     then_run (Some (Buffer_Append b c)) (\<lambda>b1.
     then_run (OnMessage bo True True (Some st) b1) (\<lambda>(ev, ctx, b2).
       case (ev, ctx) of
         (Codec_wait, Some st') \<Rightarrow> receive_packets bo st' b2 cs
       | _ \<Rightarrow> Some (Inr (ev, ctx, b2))))"

definition codec_outcome ::
  "(parse_result option \<times> parsing_state \<times> string) result \<Rightarrow> (codec_event \<times> parsing_state option) result" where
  "codec_outcome x =
     andthen x (\<lambda>(r, st, s).
       case r of
         None \<Rightarrow> Inr (Codec_wait, Some st)
       | Some kParseError \<Rightarrow>
           (case parse_res st of None \<Rightarrow> Inl Assertion_failed | Some res \<Rightarrow> Inr (Codec_error res, Some st))
       | Some _ \<Rightarrow> Inr (Codec_request (parse_req st), None))"

definition run_event :: "(codec_event \<times> parsing_state option \<times> buffer) run \<Rightarrow> (codec_event \<times> parsing_state option) run" where
  "run_event r = then_run r (\<lambda>(ev, ctx, b). Some (Inr (ev, ctx)))"

lemma OnMessage_outcome:
  assumes "buffer_ok b"
  shows "run_event (OnMessage bo True True (Some st) b) = Some (codec_outcome (codec_decode bo st (unread b)))"
  using parse_loop_follows [OF assms, of bo kParseError st]
  by (auto simp: OnMessage_def codec_decode_def codec_outcome_def follows_def then_run_def run_event_def
      split: sum.splits option.splits parse_result.splits)

lemma receive_feed:
  assumes "buffer_ok b" "length (concat cs) \<le> buffer_space b"
  shows "run_event (receive_packets bo st b cs) = Some (codec_outcome (feed (codec_decode bo) st (unread b) cs))"
  using assms
proof (induction cs arbitrary: st b)
  case Nil
  then show ?case by (simp add: run_event_def then_run_def codec_outcome_def)
next
  case (Cons c cs)
  obtain b1 where b1: "Buffer_Append b c = Inr b1" "buffer_ok b1" "unread b1 = unread b @ c"
    "buffer_space b - length c \<le> buffer_space b1"
    using Append_ok [of b c] Cons.prems by auto
  have fits: "length (concat cs) \<le> buffer_space b1" using b1(4) Cons.prems(2) by simp
  note loop = parse_loop_follows [OF b1(2), of bo kParseError st]
  show ?case
  proof (cases "decode bo kParseError st (unread b1)")
    case (Inl e)
    then show ?thesis
      using loop b1 by (simp add: run_event_def then_run_def OnMessage_def codec_decode_def codec_outcome_def follows_def)
  next
    case (Inr x)
    obtain r st' s' where x: "x = (r, st', s')" by (cases x) auto
    obtain b2 where b2: "parse_loop bo kParseError st b1 = Some (Inr (r, st', b2))" "buffer_ok b2"
      "unread b2 = s'" "internal_buf b2 = internal_buf b1"
      using loop Inr x by (auto simp: follows_def)
    show ?thesis
    proof (cases "r = kParseNeedMore")
      case True
      have "length (concat cs) \<le> buffer_space b2"
        using fits b2(4) by (simp add: buffer_space_def)
      then have "run_event (receive_packets bo st' b2 cs) = Some (codec_outcome (feed (codec_decode bo) st' s' cs))"
        using Cons.IH [OF b2(2)] b2(3) by blast
      moreover have "codec_decode bo st (unread b @ c) = Inr (None, st', s')"
        using True Inr x b1(3) by (simp add: codec_decode_def)
      moreover have "receive_packets bo st b (c # cs) = receive_packets bo st' b2 cs"
        using True b1 b2 by (simp add: then_run_def OnMessage_def)
      ultimately show ?thesis by simp
    next
      case False
      then show ?thesis
        using Inr x b1 b2
        by (cases r) (auto simp: run_event_def then_run_def OnMessage_def codec_decode_def codec_outcome_def
            split: option.splits)
    qed
  qed
qed

section \<open>Well-formed requests\<close>

text \<open>Pieces without the separator that are joined by it come back from the split.\<close>

definition lacks :: "string \<Rightarrow> string \<Rightarrow> bool" where
  "lacks sep s \<longleftrightarrow> string_find s sep 0 = None"

lemma find_after:
  assumes "sep \<noteq> []" "lacks sep x" "\<forall>k. 0 < k \<and> k < length sep \<longrightarrow> take (length sep - k) sep \<noteq> drop k sep"
  shows "string_find (x @ sep @ y) sep 0 = Some (length x)"
proof -
  have "\<not> occurs_at (x @ sep @ y) sep j" if "j < length x" for j
  proof
    assume o: "occurs_at (x @ sep @ y) sep j"
    show False
    proof (cases "j + length sep \<le> length x")
      case True
      then have "occurs_at x sep j" using o by (auto simp: occurs_at_def)
      then show False using assms(2) by (auto simp: lacks_def string_find_None)
    next
      case False
      define k where "k = length x - j"
      have k: "0 < k" "k < length sep" using that False by (auto simp: k_def)
      have "take (length sep) (drop j (x @ sep @ y)) = sep" using o by (simp add: occurs_at_def)
      then have "drop k (take (length sep) (drop j (x @ sep @ y))) = drop k sep" by simp
      moreover have "drop k (take (length sep) (drop j (x @ sep @ y))) = take (length sep - k) (sep @ y)"
      proof -
        have "drop k (drop j (x @ sep @ y)) = sep @ y"
          using that by (simp add: k_def)
        then show ?thesis by (simp only: drop_take)
      qed
      ultimately have "take (length sep - k) sep = drop k sep" by simp
      then show False using assms(3) k by blast
    qed
  qed
  then show ?thesis by (auto simp: string_find_Some occurs_at_def)
qed

lemma lacks_char: "lacks [c] s \<longleftrightarrow> c \<notin> set s"
proof
  assume l: "lacks [c] s"
  show "c \<notin> set s"
  proof
    assume "c \<in> set s"
    then obtain i where "i < length s" "s ! i = c" by (auto simp: in_set_conv_nth)
    then have "occurs_at s [c] i" by (simp add: occurs_at_iff)
    then show False using l by (auto simp: lacks_def string_find_None)
  qed
next
  assume "c \<notin> set s"
  then show "lacks [c] s"
    by (auto simp: lacks_def string_find_None occurs_at_iff)
qed

lemma lacks_first:
  assumes "c \<notin> set s"
  shows "lacks (c # cs) s"
proof -
  have "\<not> occurs_at s (c # cs) j" for j
  proof
    assume "occurs_at s (c # cs) j"
    then have "j < length s" "s ! (j + 0) = (c # cs) ! 0" unfolding occurs_at_iff by auto
    then show False using assms nth_mem by force
  qed
  then show ?thesis by (simp add: lacks_def string_find_None)
qed

lemma find_char:
  assumes "c \<notin> set x"
  shows "string_find (x @ c # y) [c] 0 = Some (length x)"
proof -
  have "\<forall>k. 0 < k \<and> k < length [c] \<longrightarrow> take (length [c] - k) [c] \<noteq> drop k [c]" by auto
  from find_after [OF _ _ this, of x y] show ?thesis using assms by (simp add: lacks_char)
qed

lemma find_sep_after: "CHR 0x0D \<notin> set x \<Longrightarrow> string_find (x @ HEADER_SEP @ y) HEADER_SEP 0 = Some (length x)"
  by (rule find_after) (auto simp: HEADER_SEP_def lacks_first less_Suc_eq)

lemma split_char3:
  assumes "c \<notin> set x" "c \<notin> set y" "c \<notin> set z"
  shows "split_at_first [c] (x @ c # y @ c # z) = [x, y, z]"
  using split_step [of "[c]" x "y @ c # z"] split_step [of "[c]" y z] find_char [OF assms(1), of "y @ c # z"]
    find_char [OF assms(2), of z] split_none [of z "[c]"] assms(3)
  by (simp add: lacks_char [symmetric] lacks_def)

text \<open>A request as a client writes it, and what a well-formed one is.\<close>

definition render_header :: "string \<times> string \<Rightarrow> string" where
  "render_header h = fst h @ '': '' @ snd h @ HEADER_SEP"

definition render_line :: "string \<Rightarrow> string \<Rightarrow> nat \<Rightarrow> nat \<Rightarrow> string" where
  "render_line m p major minor = m @ '' '' @ p @ '' HTTP/'' @ decimal major @ ''.'' @ decimal minor"

definition render_request ::
  "string \<Rightarrow> string \<Rightarrow> nat \<Rightarrow> nat \<Rightarrow> (string \<times> string) list \<Rightarrow> string \<Rightarrow> string" where
  "render_request m p major minor hs body =
     render_line m p major minor @ HEADER_SEP @ concat (map render_header hs) @ HEADER_SEP @ body"

definition token_ok :: "string \<Rightarrow> bool" where
  "token_ok s \<longleftrightarrow> CHR '' '' \<notin> set s \<and> CHR 0x0D \<notin> set s"

definition header_ok :: "string \<times> string \<Rightarrow> bool" where
  "header_ok h \<longleftrightarrow>
     (\<forall>c \<in> set (fst h). of_char c < (128 :: nat)) \<and> CHR 0x0D \<notin> set (fst h) \<and> CHR 0x0D \<notin> set (snd h) \<and>
     lacks '': '' (fst h) \<and> lacks '': '' (snd h)"

definition lowered :: "(string \<times> string) list \<Rightarrow> (string \<times> string) list" where
  "lowered hs = map (\<lambda>(k, v). (map lower_char k, v)) hs"

definition add_header_line :: "string \<times> string \<Rightarrow> http_request \<Rightarrow> http_request" where
  "add_header_line h r =
     snd (HTTPRequest_AddHeader
       (r\<lparr>req_header_length := (req_header_length r + length (fst h @ '': '' @ snd h) + 2) mod 2 ^ 32\<rparr>)
       (map lower_char (fst h)) (snd h))"

lemma decode_ok:
  "parse_step bo st s = Inr (kParseOK, st', s') \<Longrightarrow> parse_status st \<noteq> kParsingDone \<Longrightarrow>
    decode bo res st s = decode bo kParseOK st' s'"
  by (subst decode.simps) simp

lemma decode_refused:
  "parse_step bo st s = Inr (kParseError, st', s') \<Longrightarrow> parse_status st \<noteq> kParsingDone \<Longrightarrow>
    decode bo res st s = Inr (kParseError, st', s')"
  by (subst decode.simps) simp

lemma decode_failed:
  "parse_step bo st s = Inl e \<Longrightarrow> parse_status st \<noteq> kParsingDone \<Longrightarrow> decode bo res st s = Inl e"
  by (subst decode.simps) simp

lemma digit_not: "c \<in> set (decimal n) \<Longrightarrow> c \<noteq> CHR ''.'' \<and> c \<noteq> CHR '' '' \<and> c \<noteq> CHR 0x0D"
  using decimal_digits [of n] by auto

lemma read_version_rendered:
  assumes "boost_documented bo" "major < 2 ^ 32" "minor < 2 ^ 32"
  shows "read_version bo (''HTTP/'' @ decimal major @ ''.'' @ decimal minor) st =
     (kParseOK, st\<lparr>parse_req := (parse_req st)\<lparr>req_major_version := major, req_minor_version := minor\<rparr>\<rparr>)"
proof -
  let ?v = "''HTTP/'' @ decimal major @ ''.'' @ decimal minor"
  let ?e = "5 + length (decimal major)"
  have s: "string_find ?v ''/'' 0 = Some 4"
    using find_char [of "CHR ''/''" "''HTTP''" "decimal major @ ''.'' @ decimal minor"] by simp
  have at_e: "occurs_at ?v ''.'' ?e" by (simp add: occurs_at_iff nth_append)
  have "\<not> occurs_at ?v ''.'' j" if "5 \<le> j" "j < ?e" for j
  proof
    assume "occurs_at ?v ''.'' j"
    then have "?v ! j = CHR ''.''" by (simp add: occurs_at_iff)
    moreover define d where "d = j - 5"
    have d: "j = length ''HTTP/'' + d" "d < length (decimal major)"
      using that by (simp_all add: d_def)
    have "?v ! j = (decimal major @ ''.'' @ decimal minor) ! d"
      unfolding d(1) by (rule nth_append_length_plus)
    then have "?v ! j = decimal major ! d" using d(2) by (simp add: nth_append)
    moreover have "decimal major ! d \<in> set (decimal major)" using d(2) by simp
    ultimately show False using digit_not by metis
  qed
  then have e: "string_find ?v ''.'' 5 = Some ?e" using at_e by (simp add: string_find_Some)
  have cast: "cast_unsigned bo (decimal major) = Some major" "cast_unsigned bo (decimal minor) = Some minor"
    using assms by (simp_all add: boost_documented_def)
  have n: "?e + 1 = Suc (Suc (Suc (Suc (Suc (Suc (length (decimal major)))))))" by simp
  have "drop (?e + 1) ?v = decimal minor" unfolding n by simp
  moreover have "take (?e - 4 - 1) (drop 5 ?v) = decimal major" by simp
  ultimately have "take (?e - 4 - 1) (drop 5 ?v) = decimal major" "drop (?e + 1) ?v = decimal minor" by blast+
  then show ?thesis
    using s e cast by (simp add: read_version_def Let_def)
qed

lemma line_rendered:
  assumes "boost_documented bo" "token_ok m" "token_ok p" "major < 2 ^ 32" "minor < 2 ^ 32"
    "parse_status st = kParsingRequestLine"
  shows "line_step bo st (render_line m p major minor @ HEADER_SEP @ rest) =
     Inr (kParseOK, st\<lparr>parse_req := (parse_req st)\<lparr>req_request_type := m, req_original_request_path := p,
            req_major_version := major, req_minor_version := minor\<rparr>,
            parse_status := kParsingRequestHeader, parse_func := Some ReadRequestHeader_f\<rparr>, rest)"
proof -
  let ?v = "''HTTP/'' @ decimal major @ ''.'' @ decimal minor"
  let ?l = "render_line m p major minor"
  have nocr: "CHR 0x0D \<notin> set ?l"
    using assms(2,3) digit_not by (auto simp: render_line_def token_ok_def)
  have "CHR '' '' \<notin> set ?v" using digit_not by auto
  then have "split_at_first '' '' ?l = [m, p, ?v]"
    using split_char3 [of "CHR '' ''" m p ?v] assms(2,3) by (simp add: render_line_def token_ok_def)
  moreover have "?l \<noteq> []" by (simp add: render_line_def)
  ultimately have "SplitString bo ?l '' '' [] = [m, p, ?v]"
    using assms(1) by (simp add: SplitString_def boost_documented_def)
  then have "read_line_parts bo ?l st = (kParseOK, st\<lparr>parse_req := (parse_req st)\<lparr>req_request_type := m,
      req_original_request_path := p, req_major_version := major, req_minor_version := minor\<rparr>\<rparr>)"
    using read_version_rendered [OF assms(1,4,5)] by (simp add: read_line_parts_def)
  moreover have "string_find (?l @ HEADER_SEP @ rest) HEADER_SEP 0 = Some (length ?l)"
    by (rule find_sep_after [OF nocr])
  ultimately show ?thesis
    using assms(6) by (simp add: line_step_def HEADER_SEP_def)
qed

lemma lacks_pair: "lacks '': '' k \<Longrightarrow> string_find (k @ '': '' @ v) '': '' 0 = Some (length k)"
  by (rule find_after) (auto simp: less_Suc_eq)

lemma header_rendered:
  assumes "boost_documented bo" "header_ok h" "parse_status st = kParsingRequestHeader"
  shows "header_step bo st (render_header h @ rest) =
     Inr (kParseOK, st\<lparr>parse_req := add_header_line h (parse_req st)\<rparr>, rest)"
proof -
  let ?l = "fst h @ '': '' @ snd h"
  have nocr: "CHR 0x0D \<notin> set ?l" using assms(2) by (auto simp: header_ok_def)
  have "split_at_first '': '' ?l = [fst h, snd h]"
    using split_step [of "'': ''" "fst h" "snd h"] lacks_pair [of "fst h" "snd h"] split_none [of "snd h" "'': ''"] assms(2)
    by (simp add: header_ok_def lacks_def)
  then have "SplitString bo ?l '': '' [] = [fst h, snd h]"
    using assms(1) by (simp add: SplitString_def boost_documented_def)
  moreover have "lower bo (fst h) = map lower_char (fst h)"
    using assms(1,2) by (simp add: boost_documented_def header_ok_def)
  ultimately have line: "read_header_line bo ?l st = (kParseOK, st\<lparr>parse_req := add_header_line h (parse_req st)\<rparr>)"
    by (simp add: read_header_line_def add_header_line_def Let_def HEADER_SEP_LEN_def)
  define l where "l = ?l"
  have l: "render_header h @ rest = l @ HEADER_SEP @ rest" "l \<noteq> []"
    by (simp_all add: l_def render_header_def)
  have "string_find (l @ HEADER_SEP @ rest) HEADER_SEP 0 = Some (length l)"
    unfolding l_def by (rule find_sep_after [OF nocr])
  moreover have "drop (length l + 2) (l @ HEADER_SEP @ rest) = rest" by (simp add: HEADER_SEP_def)
  ultimately show ?thesis
    unfolding l(1) using assms(3) line [folded l_def] l(2) by (simp add: header_step_def)
qed

lemma headers_rendered:
  assumes "boost_documented bo" "\<forall>h \<in> set hs. header_ok h"
    "parse_status st = kParsingRequestHeader" "parse_func st = Some ReadRequestHeader_f"
  shows "decode bo res st (concat (map render_header hs) @ rest) =
     decode bo kParseOK (st\<lparr>parse_req := fold add_header_line hs (parse_req st)\<rparr>) rest"
  using assms(2-)
proof (induction hs arbitrary: st res)
  case Nil
  then show ?case using decode_restart [of st bo res rest kParseOK] by simp
next
  case (Cons h hs)
  have "parse_step bo st (concat (map render_header (h # hs)) @ rest) =
      Inr (kParseOK, st\<lparr>parse_req := add_header_line h (parse_req st)\<rparr>, concat (map render_header hs) @ rest)"
    using header_rendered [OF assms(1), of h st "concat (map render_header hs) @ rest"] Cons.prems
    by (simp add: parse_step_def)
  then have "decode bo res st (concat (map render_header (h # hs)) @ rest) =
      decode bo kParseOK (st\<lparr>parse_req := add_header_line h (parse_req st)\<rparr>) (concat (map render_header hs) @ rest)"
    using Cons.prems(2) by (intro decode_ok) simp_all
  then show ?case using Cons.IH [of "st\<lparr>parse_req := add_header_line h (parse_req st)\<rparr>" kParseOK] Cons.prems by simp
qed

text \<open>The request once its headers are read.\<close>

definition request_of :: "string \<Rightarrow> string \<Rightarrow> nat \<Rightarrow> nat \<Rightarrow> (string \<times> string) list \<Rightarrow> http_request" where
  "request_of m p major minor hs =
     fold add_header_line hs
       (HTTPRequest_init\<lparr>req_request_type := m, req_original_request_path := p,
          req_major_version := major, req_minor_version := minor\<rparr>)"

definition header_state :: "http_request \<Rightarrow> parsing_state" where
  "header_state r = \<lparr>parse_status = kParsingRequestHeader, parse_func = Some ReadRequestHeader_f,
     parse_req = r, parse_res = None\<rparr>"

lemma decode_headers:
  assumes "boost_documented bo" "token_ok m" "token_ok p" "major < 2 ^ 32" "minor < 2 ^ 32" "\<forall>h \<in> set hs. header_ok h"
  shows "decode bo kParseError new_parsing_state
      (render_line m p major minor @ HEADER_SEP @ concat (map render_header hs) @ rest) =
    decode bo kParseOK (header_state (request_of m p major minor hs)) rest"
proof -
  let ?s = "render_line m p major minor @ HEADER_SEP @ concat (map render_header hs) @ rest"
  let ?st1 = "new_parsing_state\<lparr>parse_status := kParsingRequestLine, parse_func := Some ReadRequestLine_f\<rparr>"
  let ?r = "HTTPRequest_init\<lparr>req_request_type := m, req_original_request_path := p,
          req_major_version := major, req_minor_version := minor\<rparr>"
  have "?s \<noteq> []" by (simp add: HEADER_SEP_def)
  then have "parse_step bo new_parsing_state ?s = Inr (kParseOK, ?st1, ?s)"
    by (simp add: parse_step_def start_step_def new_parsing_state_def)
  then have "decode bo kParseError new_parsing_state ?s = decode bo kParseOK ?st1 ?s"
    by (rule decode_ok) (simp add: new_parsing_state_def)
  also have "\<dots> = decode bo kParseOK (header_state ?r) (concat (map render_header hs) @ rest)"
    using line_rendered [OF assms(1-5), of ?st1 "concat (map render_header hs) @ rest"]
    by (intro decode_ok) (simp_all add: parse_step_def new_parsing_state_def header_state_def)
  also have "\<dots> = decode bo kParseOK (header_state (request_of m p major minor hs)) rest"
    using headers_rendered [OF assms(1,6), of "header_state ?r" kParseOK rest]
    by (simp add: header_state_def request_of_def)
  finally show ?thesis .
qed

lemma add_header_line_fields:
  "req_request_type (add_header_line h r) = req_request_type r"
  "req_original_request_path (add_header_line h r) = req_original_request_path r"
  "req_major_version (add_header_line h r) = req_major_version r"
  "req_minor_version (add_header_line h r) = req_minor_version r"
  "req_body (add_header_line h r) = req_body r"
  "req_path_candidates (add_header_line h r) = req_path_candidates r"
  "map_of (req_headers (add_header_line h r)) k =
     (if k = map lower_char (fst h) \<and> map_of (req_headers r) k = None then Some (snd h) else map_of (req_headers r) k)"
  using insert_header_lookup [of "req_headers r" "map lower_char (fst h)" "snd h" k]
  by (auto simp: add_header_line_def HTTPRequest_AddHeader_def case_prod_unfold)

lemma fold_header_fields:
  "req_request_type (fold add_header_line hs r) = req_request_type r"
  "req_original_request_path (fold add_header_line hs r) = req_original_request_path r"
  "req_major_version (fold add_header_line hs r) = req_major_version r"
  "req_minor_version (fold add_header_line hs r) = req_minor_version r"
  "req_body (fold add_header_line hs r) = req_body r"
  "req_path_candidates (fold add_header_line hs r) = req_path_candidates r"
  by (induction hs arbitrary: r) (simp_all add: add_header_line_fields)

lemma fold_header_lookup:
  "map_of (req_headers (fold add_header_line hs r)) k =
     (case map_of (req_headers r) k of Some v \<Rightarrow> Some v | None \<Rightarrow> map_of (lowered hs) k)"
proof (induction hs arbitrary: r)
  case Nil
  then show ?case by (simp add: lowered_def split: option.splits)
next
  case (Cons h hs)
  show ?case
    unfolding fold.simps comp_def Cons.IH add_header_line_fields(7)
    by (cases h) (auto simp: lowered_def split: option.splits)
qed

lemma request_of_fields [simp]:
  "req_request_type (request_of m p major minor hs) = m"
  "req_original_request_path (request_of m p major minor hs) = p"
  "req_major_version (request_of m p major minor hs) = major"
  "req_minor_version (request_of m p major minor hs) = minor"
  "req_body (request_of m p major minor hs) = []"
  "req_path_candidates (request_of m p major minor hs) = []"
  "HTTPRequest_GetHeader (request_of m p major minor hs) k = map_of (lowered hs) k"
  by (simp_all add: request_of_def fold_header_fields fold_header_lookup HTTPRequest_GetHeader_def HTTPRequest_init_def)

lemma get_header_after_body [simp]:
  "HTTPRequest_GetHeader (r\<lparr>req_body_length := n\<rparr>) k = HTTPRequest_GetHeader r k"
  "HTTPRequest_GetHeader (r\<lparr>req_body_length := n, req_body := body\<rparr>) k = HTTPRequest_GetHeader r k"
  by (simp_all add: HTTPRequest_GetHeader_def)

lemma blank_line: "string_find (HEADER_SEP @ s) HEADER_SEP 0 = Some 0"
  using find_sep_after [of "[]" s] by simp

lemma decode_no_body:
  assumes "HTTPRequest_GetHeader r ''content-length'' = None"
  shows "decode bo res (header_state r) (HEADER_SEP @ rest) =
     Inr (kParseOK, (header_state r)\<lparr>parse_status := kParsingDone, parse_func := None\<rparr>, rest)"
proof -
  have "parse_step bo (header_state r) (HEADER_SEP @ rest) =
      Inr (kParseOK, (header_state r)\<lparr>parse_status := kParsingDone, parse_func := None\<rparr>, rest)"
    using blank_line [of rest] assms
    by (simp add: parse_step_def header_state_def header_step_def end_of_headers_def HEADER_SEP_def)
  then have "decode bo res (header_state r) (HEADER_SEP @ rest) =
      decode bo kParseOK ((header_state r)\<lparr>parse_status := kParsingDone, parse_func := None\<rparr>) rest"
    by (rule decode_ok) (simp add: header_state_def)
  then show ?thesis by (simp add: decode.simps)
qed

lemma decode_to_body:
  assumes "HTTPRequest_GetHeader r ''content-length'' = Some v" "cast_unsigned bo v = Some n"
  shows "decode bo res (header_state r) (HEADER_SEP @ rest) =
     decode bo kParseOK ((header_state r)\<lparr>parse_status := kParsingRequestBody,
       parse_req := r\<lparr>req_body_length := n\<rparr>, parse_func := Some ReadRequestBody_f\<rparr>) rest"
  using blank_line [of rest] assms
  by (intro decode_ok)
    (simp_all add: parse_step_def header_state_def header_step_def end_of_headers_def HEADER_SEP_def)

section \<open>Properties\<close>

lemma OnMessage_reads_back:
  assumes "boost_documented bo" "buffer_ok b" "token_ok m" "token_ok p" "major < 2 ^ 32" "minor < 2 ^ 32"
    and "\<forall>h \<in> set hs. header_ok h" "length body < 2 ^ 32"
    and "map_of (lowered hs) ''content-length'' = (if body = [] then None else Some (decimal (length body)))"
    and "unread b = render_request m p major minor hs body @ rest"
  shows "\<exists>r b'. OnMessage bo True True OnNewConnection b = Some (Inr (Codec_request r, None, b')) \<and>
     req_request_type r = m \<and> req_original_request_path r = p \<and>
     req_major_version r = major \<and> req_minor_version r = minor \<and> req_body r = body \<and>
     (\<forall>k. HTTPRequest_GetHeader r k = map_of (lowered hs) k) \<and> req_path_candidates r = [] \<and>
     buffer_ok b' \<and> unread b' = rest"
proof -
  let ?r = "request_of m p major minor hs"
  have d: "decode bo kParseError new_parsing_state (unread b) =
      decode bo kParseOK (header_state ?r) (HEADER_SEP @ body @ rest)"
    using decode_headers [OF assms(1,3-7), of "HEADER_SEP @ body @ rest"] assms(10)
    by (simp add: render_request_def)
  obtain r st where r: "decode bo kParseError new_parsing_state (unread b) = Inr (kParseOK, st, rest)"
    "parse_req st = r" "req_request_type r = m" "req_original_request_path r = p" "req_major_version r = major"
    "req_minor_version r = minor" "req_body r = body" "\<And>k. HTTPRequest_GetHeader r k = map_of (lowered hs) k"
    "req_path_candidates r = []"
  proof (cases "body = []")
    case True
    then have "HTTPRequest_GetHeader ?r ''content-length'' = None" using assms(9) by simp
    from decode_no_body [OF this, of bo kParseOK rest] show ?thesis
      using that d True by (simp add: header_state_def)
  next
    case False
    let ?st = "(header_state ?r)\<lparr>parse_status := kParsingRequestBody,
       parse_req := ?r\<lparr>req_body_length := length body\<rparr>, parse_func := Some ReadRequestBody_f\<rparr>"
    have "cast_unsigned bo (decimal (length body)) = Some (length body)"
      using assms(1,8) by (simp add: boost_documented_def)
    then have "decode bo kParseOK (header_state ?r) (HEADER_SEP @ body @ rest) = decode bo kParseOK ?st (body @ rest)"
      using decode_to_body [of ?r] assms(9) False by simp
    also have "\<dots> = Inr (kParseOK, take_body body ?st, rest)"
      using decode_ok [of bo ?st "body @ rest" "take_body body ?st" rest kParseOK] False
      by (simp add: parse_step_def body_step_def header_state_def take_body_def decode.simps)
    finally show ?thesis
      using that [of "take_body body ?st"] d by (simp add: header_state_def take_body_def)
  qed
  have f: "follows b (parse_loop bo kParseError new_parsing_state b) (Inr (kParseOK, st, rest))"
    using parse_loop_follows [OF assms(2), of bo kParseError new_parsing_state] r(1) by simp
  then obtain b' where "parse_loop bo kParseError new_parsing_state b = Some (Inr (kParseOK, st, b'))"
    "buffer_ok b'" "unread b' = rest"
    by (auto simp: follows_def)
  then show ?thesis
    using r by (auto simp: OnMessage_def OnNewConnection_def then_run_def)
qed

text \<open>C24: the parser reads back what a client writes: for every well-formed request, with or
  without a body, \<open>OnMessage\<close> delivers a request with the same method, path, version, headers
  (names in lower case, the first of equal names) and body, and leaves the bytes after it.\<close>

theorem OnMessage_roundtrip:
  assumes "boost_documented bo" "buffer_ok b" "token_ok m" "token_ok p" "major < 2 ^ 32" "minor < 2 ^ 32"
    and "\<forall>h \<in> set hs. header_ok h" "length body < 2 ^ 32"
    and "map_of (lowered hs) ''content-length'' = (if body = [] then None else Some (decimal (length body)))"
    and "unread b = render_request m p major minor hs body @ rest"
  shows "\<exists>r b'. OnMessage bo True True OnNewConnection b = Some (Inr (Codec_request r, None, b')) \<and>
     req_request_type r = m \<and> req_original_request_path r = p \<and>
     req_major_version r = major \<and> req_minor_version r = minor \<and> req_body r = body \<and>
     (\<forall>k. HTTPRequest_GetHeader r k = map_of (lowered hs) k) \<and> buffer_ok b' \<and> unread b' = rest"
  using OnMessage_reads_back [OF assms] by blast

text \<open>Two headers of the witnesses, one with a body length.\<close>

lemma header_examples:
  "header_ok (''Host'', ''a'')" "header_ok (''Content-Length'', ''2'')" "header_ok (''Content-Length'', ''0'')"
  "lowered [(''Host'', ''a''), (''Content-Length'', ''2'')] = [(''host'', ''a''), (''content-length'', ''2'')]"
  "lowered [(''Content-Length'', ''0'')] = [(''content-length'', ''0'')]"
  by (simp_all add: header_ok_def lacks_first lowered_def lower_char_def) (simp_all add: char_of_def bit_numeral_rec bit_0)

theorem OnMessage_roundtrip_witness:
  "\<exists>r b'. OnMessage reference_boost True True OnNewConnection
        (buffer_of (render_request ''GET'' ''/a'' 1 0 [(''Host'', ''a''), (''Content-Length'', ''2'')] ''xy'' @ ''zz'')) =
      Some (Inr (Codec_request r, None, b')) \<and>
     req_request_type r = ''GET'' \<and> req_original_request_path r = ''/a'' \<and>
     req_major_version r = 1 \<and> req_minor_version r = 0 \<and> req_body r = ''xy'' \<and>
     (\<forall>k. HTTPRequest_GetHeader r k = map_of (lowered [(''Host'', ''a''), (''Content-Length'', ''2'')]) k) \<and>
     buffer_ok b' \<and> unread b' = ''zz''"
proof (rule OnMessage_roundtrip [OF reference_boost_documented])
  have "length (decimal 1) = 1" "length (decimal 0) = 1" by (simp_all add: decimal.simps)
  then show "buffer_ok (buffer_of (render_request ''GET'' ''/a'' 1 0 [(''Host'', ''a''), (''Content-Length'', ''2'')] ''xy'' @ ''zz''))"
    by (intro buffer_of_ok(1))
      (simp add: vector_max_size_def render_request_def render_line_def render_header_def HEADER_SEP_def)
  show "\<forall>h \<in> set [(''Host'', ''a''), (''Content-Length'', ''2'')]. header_ok h"
    using header_examples(1,2) by simp
  show "map_of (lowered [(''Host'', ''a''), (''Content-Length'', ''2'')]) ''content-length'' =
      (if ''xy'' = [] then None else Some (decimal (length ''xy'')))"
    unfolding header_examples(4) by (simp add: decimal.simps char_of_def bit_numeral_rec bit_0)
qed (simp_all add: token_ok_def buffer_of_ok)



text \<open>C34: a well-formed request with the header \<open>Content-Length: 0\<close> stops the server: the codec goes
  on to read a body and fails the assertion that its length is not 0.\<close>

theorem content_length_zero_fails:
  assumes "boost_documented bo" "buffer_ok b" "token_ok m" "token_ok p" "major < 2 ^ 32" "minor < 2 ^ 32"
    and "\<forall>h \<in> set hs. header_ok h" "map_of (lowered hs) ''content-length'' = Some ''0''"
    and "unread b = render_request m p major minor hs [] @ rest"
  shows "OnMessage bo rcb ecb OnNewConnection b = Some (Inl Assertion_failed)"
proof -
  let ?r = "request_of m p major minor hs"
  let ?st = "(header_state ?r)\<lparr>parse_status := kParsingRequestBody,
       parse_req := ?r\<lparr>req_body_length := 0\<rparr>, parse_func := Some ReadRequestBody_f\<rparr>"
  have "decimal 0 = ''0''" by (simp add: decimal.simps char_of_def bit_numeral_rec bit_0)
  then have "cast_unsigned bo ''0'' = Some 0"
    using assms(1) unfolding boost_documented_def by (metis zero_less_numeral zero_less_power)
  then have "decode bo kParseOK (header_state ?r) (HEADER_SEP @ rest) = decode bo kParseOK ?st rest"
    using decode_to_body [of ?r "''0''" bo 0 kParseOK rest] assms(8) by simp
  also have "\<dots> = Inl Assertion_failed"
    by (rule decode_failed) (simp_all add: parse_step_def body_step_def header_state_def)
  finally have "decode bo kParseError new_parsing_state (unread b) = Inl Assertion_failed"
    using decode_headers [OF assms(1,3-7), of "HEADER_SEP @ rest"] assms(9) by (simp add: render_request_def)
  then have "parse_loop bo kParseError new_parsing_state b = Some (Inl Assertion_failed)"
    using parse_loop_follows [OF assms(2), of bo kParseError new_parsing_state] by (simp add: follows_def)
  then show ?thesis by (simp add: OnMessage_def OnNewConnection_def then_run_def)
qed

theorem content_length_zero_fails_witness:
  "OnMessage reference_boost True True OnNewConnection
     (buffer_of (render_request ''POST'' ''/'' 1 0 [(''Content-Length'', ''0'')] [] @ [])) = Some (Inl Assertion_failed)"
proof (rule content_length_zero_fails [where m = "''POST''" and p = "''/''" and major = 1 and minor = 0
      and rest = "[]", OF reference_boost_documented])
  have "length (decimal 1) = 1" "length (decimal 0) = 1" by (simp_all add: decimal.simps)
  then show "buffer_ok (buffer_of (render_request ''POST'' ''/'' 1 0 [(''Content-Length'', ''0'')] [] @ []))"
    by (intro buffer_of_ok(1))
      (simp add: vector_max_size_def render_request_def render_line_def render_header_def HEADER_SEP_def)
  show "\<forall>h \<in> set [(''Content-Length'', ''0'')]. header_ok h" using header_examples(3) by simp
  show "map_of (lowered [(''Content-Length'', ''0'')]) ''content-length'' = Some ''0''"
    unfolding header_examples(5) by simp
qed (simp_all add: token_ok_def buffer_of_ok)

text \<open>Once a request was delivered the context is empty, and the next bytes on the same
  connection throw \<open>bad_any_cast\<close>: a second, pipelined request is never answered.\<close>

theorem second_request_throws:
  assumes "OnMessage bo rcb ecb ctx b = Some (Inr (Codec_request r, ctx', b'))"
  shows "OnMessage bo rcb ecb ctx' b'' = Some (Inl Bad_any_cast)"
proof -
  have "ctx' = None"
    using assms
    by (auto simp: OnMessage_def then_run_def split: option.splits sum.splits prod.splits if_splits)
  then show ?thesis by (simp add: OnMessage_def)
qed

text \<open>A header whose value contains a colon and a blank, such as a date or a quoted URL, is
  refused with status 400, since the line is cut at every separator and not at the first.\<close>

theorem colon_in_header_refused:
  assumes "boost_documented bo" "buffer_ok b" "token_ok m" "token_ok p" "major < 2 ^ 32" "minor < 2 ^ 32"
    and "\<forall>h \<in> set hs. header_ok h" "header_ok (k, v)" "CHR 0x0D \<notin> set w"
    and "unread b = render_request m p major minor (hs @ [(k, v @ '': '' @ w)]) body"
  shows "\<exists>st b'. OnMessage bo True True OnNewConnection b =
     Some (Inr (Codec_error (HTTPResponse_init 400), Some st, b'))"
proof -
  let ?r = "request_of m p major minor hs"
  let ?rest = "render_header (k, v @ '': '' @ w) @ HEADER_SEP @ body"
  define l where "l = k @ '': '' @ v @ '': '' @ w"
  have l: "?rest = l @ HEADER_SEP @ HEADER_SEP @ body" "l \<noteq> []"
    by (simp_all add: l_def render_header_def)
  have nocr: "CHR 0x0D \<notin> set l" using assms(8,9) by (auto simp: header_ok_def l_def)
  have sep: "lacks '': '' k" "lacks '': '' v" using assms(8) by (simp_all add: header_ok_def)
  have "split_at_first '': '' l = k # split_at_first '': '' (v @ '': '' @ w)"
    unfolding l_def by (rule split_step) (simp, rule lacks_pair [OF sep(1)])
  also have "split_at_first '': '' (v @ '': '' @ w) = v # split_at_first '': '' w"
    by (rule split_step) (simp, rule lacks_pair [OF sep(2)])
  finally have "length (SplitString bo l '': '' []) \<noteq> 2"
    using assms(1) l(2)
    by (simp add: SplitString_def boost_documented_def split_at_first.simps [of _ w] split: option.splits)
  then have "read_header_line bo l (header_state ?r) = (kParseError, bad_request (header_state ?r))"
    by (simp add: read_header_line_def)
  moreover have "string_find (l @ HEADER_SEP @ HEADER_SEP @ body) HEADER_SEP 0 = Some (length l)"
    by (rule find_sep_after [OF nocr])
  ultimately have "parse_step bo (header_state ?r) ?rest = Inr (kParseError, bad_request (header_state ?r), ?rest)"
    unfolding l(1) using l(2) by (simp add: parse_step_def header_step_def header_state_def)
  then have "decode bo kParseOK (header_state ?r) ?rest = Inr (kParseError, bad_request (header_state ?r), ?rest)"
    by (rule decode_refused) (simp add: header_state_def)
  then have "decode bo kParseError new_parsing_state (unread b) = Inr (kParseError, bad_request (header_state ?r), ?rest)"
    using decode_headers [OF assms(1,3-7), of ?rest] assms(10) by (simp add: render_request_def)
  then obtain b' where "parse_loop bo kParseError new_parsing_state b =
      Some (Inr (kParseError, bad_request (header_state ?r), b'))"
    using parse_loop_follows [OF assms(2), of bo kParseError new_parsing_state] by (auto simp: follows_def)
  then show ?thesis
    by (simp add: OnMessage_def OnNewConnection_def then_run_def bad_request_def)
qed

theorem second_request_throws_witness:
  "OnMessage reference_boost True True None (Buffer_init 8) = Some (Inl Bad_any_cast)"
proof -
  have "OnMessage reference_boost True False (Some (new_parsing_state\<lparr>parse_status := kParsingDone\<rparr>)) (Buffer_init 8) =
      Some (Inr (Codec_request HTTPRequest_init, None, Buffer_init 8))"
    by (simp add: OnMessage_def then_run_def parse_loop.simps new_parsing_state_def)
  from second_request_throws [OF this, of "Buffer_init 8"] show ?thesis by (simp add: OnMessage_def)
qed

theorem colon_in_header_refused_witness:
  "\<exists>st b'. OnMessage reference_boost True True OnNewConnection
       (buffer_of (render_request ''GET'' ''/'' 1 0 ([] @ [(''Referer'', ''a'' @ '': '' @ ''b'')]) [])) =
     Some (Inr (Codec_error (HTTPResponse_init 400), Some st, b'))"
proof (rule colon_in_header_refused [where m = "''GET''" and p = "''/''" and major = 1 and minor = 0
      and body = "[]" and hs = "[]" and w = "''b''", OF reference_boost_documented])
  have "length (decimal 1) = 1" "length (decimal 0) = 1" by (simp_all add: decimal.simps)
  then show "buffer_ok (buffer_of (render_request ''GET'' ''/'' 1 0 ([] @ [(''Referer'', ''a'' @ '': '' @ ''b'')]) []))"
    by (intro buffer_of_ok(1))
      (simp add: vector_max_size_def render_request_def render_line_def render_header_def HEADER_SEP_def)
  show "header_ok (''Referer'', ''a'')" by (simp add: header_ok_def lacks_first)
qed (simp_all add: token_ok_def buffer_of_ok)

text \<open>The status and the function of a parsing state agree.\<close>

definition parse_consistent :: "parsing_state \<Rightarrow> bool" where
  "parse_consistent st \<longleftrightarrow>
     parse_func st = (case parse_status st of
        kInit \<Rightarrow> Some StartParsing_f | kParsingRequestLine \<Rightarrow> Some ReadRequestLine_f
      | kParsingRequestHeader \<Rightarrow> Some ReadRequestHeader_f | kParsingRequestBody \<Rightarrow> Some ReadRequestBody_f
      | kParsingDone \<Rightarrow> None)"

lemma parse_step_consistent:
  assumes "parse_step bo st s = Inr (r, st', s')" "parse_consistent st"
  shows "parse_consistent st' \<and> (r = kParseError \<longrightarrow> parse_res st' \<noteq> None)"
  using assms
  by (auto simp: parse_step_def start_step_def line_step_def header_step_def body_step_def Let_def take_body_def
      parse_consistent_def
      split: option.splits parse_func.splits if_splits prod.splits parse_result.splits
      dest!: read_line_parts_status read_header_line_status end_of_headers_status)

lemma parse_step_fault_consistent:
  assumes "parse_step bo st s = Inl e" "parse_consistent st" "parse_status st \<noteq> kParsingDone"
  shows "e = Assertion_failed"
  using assms
  by (auto simp: parse_step_def start_step_def line_step_def header_step_def body_step_def Let_def
      parse_consistent_def asserting_def
      split: option.splits parse_func.splits if_splits prod.splits parse_result.splits state_type.splits)

lemma decode_consistent:
  "parse_consistent st \<Longrightarrow> case decode bo res st s of
     Inl e \<Rightarrow> e = Assertion_failed
   | Inr (r, st', s') \<Rightarrow> parse_consistent st' \<and>
       (parse_status st \<noteq> kParsingDone \<longrightarrow> r = kParseError \<longrightarrow> parse_res st' \<noteq> None)"
proof (induction bo res st s rule: decode.induct)
  case (1 bo res st s)
  show ?case
  proof (cases "parse_status st = kParsingDone")
    case True
    then show ?thesis using "1.prems" by (simp add: decode.simps)
  next
    case False
    show ?thesis
    proof (cases "parse_step bo st s")
      case (Inl e)
      then show ?thesis
        using False parse_step_fault_consistent [OF Inl "1.prems" False] by (subst decode.simps) simp
    next
      case (Inr x)
      obtain r1 st1 s1 where x: "x = (r1, st1, s1)" by (cases x) auto
      note c = parse_step_consistent [OF Inr [unfolded x] "1.prems"]
      show ?thesis
      proof (cases "r1 = kParseOK")
        case True
        have d: "decode bo res st s = decode bo kParseOK st1 s1"
          using decode_ok Inr x True False by blast
        show ?thesis
        proof (cases "parse_status st1 = kParsingDone")
          case over: True
          then show ?thesis unfolding d using c by (subst decode.simps) simp
        next
          case notdone: False
          have "case decode bo r1 st1 s1 of Inl e \<Rightarrow> e = Assertion_failed
            | Inr (r, st', s') \<Rightarrow> parse_consistent st' \<and>
                (parse_status st1 \<noteq> kParsingDone \<longrightarrow> r = kParseError \<longrightarrow> parse_res st' \<noteq> None)"
            by (rule "1.IH" [OF False Inr x [symmetric] refl True]) (use c in blast)
          then show ?thesis unfolding d using notdone True by (auto split: sum.splits)
        qed
      next
        case other: False
        then show ?thesis using False Inr x c by (subst decode.simps) auto
      qed
    qed
  qed
qed

text \<open>C26: from any consistent parsing state \<open>OnMessage\<close> returns; it keeps the buffer and the state
  in order, and the only fault it can end in is a failed assertion (C3 says when): no search
  runs past the buffer, no empty function is called, and every refusal has a response.\<close>

theorem OnMessage_safe:
  assumes "buffer_ok b" "parse_consistent st" "parse_status st \<noteq> kParsingDone"
  shows "case OnMessage bo True True (Some st) b of
      None \<Rightarrow> False
    | Some (Inl e) \<Rightarrow> e = Assertion_failed
    | Some (Inr (ev, ctx, b')) \<Rightarrow> buffer_ok b' \<and>
        (case ctx of None \<Rightarrow> (\<exists>r. ev = Codec_request r) | Some st' \<Rightarrow> parse_consistent st')"
proof -
  note f = parse_loop_follows [OF assms(1), of bo kParseError st]
  note c = decode_consistent [OF assms(2), of bo kParseError "unread b"]
  show ?thesis
  proof (cases "decode bo kParseError st (unread b)")
    case (Inl e)
    then show ?thesis using f c by (simp add: follows_def OnMessage_def then_run_def)
  next
    case (Inr x)
    obtain r st' s' where x: "x = (r, st', s')" by (cases x) auto
    obtain b' where "parse_loop bo kParseError st b = Some (Inr (r, st', b'))" "buffer_ok b'"
      using f Inr x by (auto simp: follows_def)
    then show ?thesis
      using c Inr x assms(3)
      by (cases r) (auto simp: OnMessage_def then_run_def split: option.splits)
  qed
qed

theorem OnMessage_safe_witness:
  "case OnMessage reference_boost True True (Some new_parsing_state) (Buffer_init 8) of
      None \<Rightarrow> False
    | Some (Inl e) \<Rightarrow> e = Assertion_failed
    | Some (Inr (ev, ctx, b')) \<Rightarrow> buffer_ok b' \<and>
        (case ctx of None \<Rightarrow> (\<exists>r. ev = Codec_request r) | Some st' \<Rightarrow> parse_consistent st')"
  by (rule OnMessage_safe)
    (simp_all add: buffer_ok_def Buffer_init_def vector_max_size_def new_parsing_state_def parse_consistent_def)

lemma no_blank_line:
  assumes "\<forall>x \<in> set xs. x \<noteq> [] \<and> CHR 0x0D \<notin> set x"
  shows "\<not> occurs_at (concat (map (\<lambda>x. x @ HEADER_SEP) xs)) (HEADER_SEP @ HEADER_SEP) j"
  using assms
proof (induction xs arbitrary: j)
  case Nil
  then show ?case by (simp add: occurs_at_def HEADER_SEP_def)
next
  case (Cons x xs)
  let ?rest = "concat (map (\<lambda>x. x @ HEADER_SEP) xs)"
  let ?s = "x @ CHR 0x0D # CHR 0x0A # ?rest"
  have s: "concat (map (\<lambda>x. x @ HEADER_SEP) (x # xs)) = ?s" by (simp add: HEADER_SEP_def)
  show ?case
  proof
    assume "occurs_at (concat (map (\<lambda>x. x @ HEADER_SEP) (x # xs))) (HEADER_SEP @ HEADER_SEP) j"
    then have o: "j + 4 \<le> length ?s" "\<forall>k<4. ?s ! (j + k) = [CHR 0x0D, CHR 0x0A, CHR 0x0D, CHR 0x0A] ! k"
      unfolding s by (auto simp: occurs_at_iff HEADER_SEP_def)
    have c: "?s ! j = CHR 0x0D" "?s ! (j + 2) = CHR 0x0D"
      using o(2) [rule_format, of 0] o(2) [rule_format, of 2] by simp_all
    consider "j < length x" | "j = length x" | "j = Suc (length x)" | "length x + 2 \<le> j" by linarith
    then show False
    proof cases
      case 1
      then have "x ! j = CHR 0x0D" using c(1) by (simp add: nth_append)
      then show False using 1 Cons.prems nth_mem [of j x] by auto
    next
      case 2
      have r: "2 \<le> length ?rest" "?rest ! 0 = CHR 0x0D" using o(1) c(2) 2 by (simp_all add: nth_append)
      obtain y ys where "xs = y # ys" using r(1) by (cases xs) simp_all
      then show False using r(2) Cons.prems by (cases y) auto
    next
      case 3
      then show False using c(1) by (simp add: nth_append)
    next
      case 4
      define i where "i = j - (length x + 2)"
      have j: "j = length x + (i + 2)" using 4 by (simp add: i_def)
      have "?s ! (j + k) = ?rest ! (i + k)" for k
        unfolding j by (simp add: nth_append)
      then have "occurs_at ?rest (HEADER_SEP @ HEADER_SEP) i"
        using o j by (simp add: occurs_at_iff HEADER_SEP_def)
      then show False using Cons by auto
    qed
  qed
qed

definition header_lines :: "string \<Rightarrow> http_response \<Rightarrow> string list" where
  "header_lines date res =
     [''HTTP/'' @ decimal (res_major_version res) @ ''.'' @ decimal (res_minor_version res) @ '' '' @
        decimal (res_status res) @ '' '' @ reason (res_status res),
      ''Date: '' @ date, ''Server: FX Server/0.0.1'', ''Content-Type: text/html'', ''Connection: close'']"

lemma encode_lines:
  assumes "boost_documented bo"
  shows "EncodeResponse bo date res =
     concat (map (\<lambda>x. x @ HEADER_SEP) (header_lines date res)) @
     (if res_body_length res = 0 then []
      else ''Content-Length: '' @ decimal (res_body_length res) @ HEADER_SEP @ HEADER_SEP)"
proof -
  have fmt: "format_args bo f args = r" if "format_directives f args = Some r" for f args r
    using assms that by (simp add: boost_documented_def)
  have "HTTPResponse_HTTPVersion bo res = ''HTTP/'' @ decimal (res_major_version res) @ ''.'' @ decimal (res_minor_version res)"
    unfolding HTTPResponse_HTTPVersion_def by (rule fmt) simp
  moreover have "format_args bo ''%s %u %s%s'' [Str v, Unsigned n, Str t, Str HEADER_SEP] =
      v @ '' '' @ decimal n @ '' '' @ t @ HEADER_SEP" for v n t
    by (rule fmt) simp
  moreover have "format_args bo ''Date: %s%s'' [Str date, Str HEADER_SEP] = ''Date: '' @ date @ HEADER_SEP"
    by (rule fmt) simp
  moreover have "format_args bo ''Server: FX Server/0.0.1%s'' [Str HEADER_SEP] = ''Server: FX Server/0.0.1'' @ HEADER_SEP"
    by (rule fmt) simp
  moreover have "format_args bo ''Content-Type: text/html%s'' [Str HEADER_SEP] = ''Content-Type: text/html'' @ HEADER_SEP"
    by (rule fmt) simp
  moreover have "format_args bo ''Connection: close%s'' [Str HEADER_SEP] = ''Connection: close'' @ HEADER_SEP"
    by (rule fmt) simp
  moreover have "format_args bo ''Content-Length: %u%s'' [Unsigned n, Str HEADER_SEP] =
      ''Content-Length: '' @ decimal n @ HEADER_SEP" for n
    by (rule fmt) simp
  ultimately show ?thesis by (simp add: EncodeResponse_def header_lines_def)
qed

lemma reason_no_cr: "CHR 0x0D \<notin> set (reason code)"
proof -
  have "\<forall>p \<in> set reason_table. CHR 0x0D \<notin> set (snd p)" by (simp add: reason_table_def)
  then show ?thesis
    using map_of_SomeD [of reason_table code] by (cases "map_of reason_table code") (force simp: reason_def)+
qed

text \<open>A response with a body ends its headers with the blank line; one without a body has no
  blank line at all, so that its client cannot tell where the headers end.\<close>

theorem EncodeResponse_blank_line:
  assumes "boost_documented bo" "CHR 0x0D \<notin> set date"
  shows "(\<exists>j. occurs_at (EncodeResponse bo date res) (HEADER_SEP @ HEADER_SEP) j) \<longleftrightarrow> res_body_length res \<noteq> 0"
proof (cases "res_body_length res = 0")
  case True
  have "\<forall>x \<in> set (header_lines date res). x \<noteq> [] \<and> CHR 0x0D \<notin> set x"
    using assms(2) reason_no_cr digit_not by (auto simp: header_lines_def)
  then have "\<not> occurs_at (EncodeResponse bo date res) (HEADER_SEP @ HEADER_SEP) j" for j
    unfolding encode_lines [OF assms(1)] using True no_blank_line by simp
  then show ?thesis using True by simp
next
  case False
  define a where "a = concat (map (\<lambda>x. x @ HEADER_SEP) (header_lines date res)) @
    ''Content-Length: '' @ decimal (res_body_length res)"
  have "EncodeResponse bo date res = a @ HEADER_SEP @ HEADER_SEP"
    unfolding encode_lines [OF assms(1)] a_def using False by simp
  then have "occurs_at (EncodeResponse bo date res) (HEADER_SEP @ HEADER_SEP) (length a)"
    by (simp add: occurs_at_def)
  then show ?thesis using False by blast
qed

theorem EncodeResponse_blank_line_witness:
  "(\<exists>j. occurs_at (EncodeResponse reference_boost ''now'' (HTTPResponse_init 404)) (HEADER_SEP @ HEADER_SEP) j) \<longleftrightarrow>
     res_body_length (HTTPResponse_init 404) \<noteq> 0"
  by (rule EncodeResponse_blank_line) (simp_all add: reference_boost_documented)

end
