(* ===== verification/Http_Server_Laws.thy ===== *)
theory Http_Server_Laws
  imports Http_Server Http_Codec_Laws
begin

text \<open>
  What the example server answers: which requests it refuses and with which status, which
  file it serves, that no request leaves the base directory through two dots, and where it
  fails: a version above 1, an empty path, a path without a slash, and a large file.
\<close>

section \<open>The pipeline\<close>

text \<open>
  What the three modules decide, as one function of the parts of the request: the status of
  the refusal, or the candidate to serve. The file system is the same at every look (a file
  that disappears between the two looks fails the assertion of \<open>ReadFile\<close>).
\<close>

definition validator_status :: "string \<Rightarrow> string \<Rightarrow> nat \<Rightarrow> nat \<Rightarrow> string option \<Rightarrow> nat option" where
  "validator_status m p major minor host =
     (if minor = 1 \<and> major = 1 \<and> host = None then Some 400
      else if \<not> lacks ''..'' p then Some 400
      else if m \<noteq> ''GET'' then Some 501
      else None)"

definition path_candidates :: "string \<Rightarrow> string list" where
  "path_candidates p = (if last p = CHR ''/'' then [''/index.html''] else [p @ ''.gz'', p])"

fun candidate_status :: "posix \<Rightarrow> string \<Rightarrow> string list \<Rightarrow> nat + string" where
  "candidate_status os base [] = Inl 404"
| "candidate_status os base (q # qs) =
     (case fst (CheckFileCanRead os base q) of
        kOk \<Rightarrow> Inr q
      | kNotFound \<Rightarrow> candidate_status os base qs
      | kForbidden \<Rightarrow> Inl 403
      | kNotFile \<Rightarrow> Inl 400
      | kInternalError \<Rightarrow> Inl 500)"

definition verdict ::
  "posix \<Rightarrow> string \<Rightarrow> string \<Rightarrow> string \<Rightarrow> nat \<Rightarrow> nat \<Rightarrow> string option \<Rightarrow> nat + string" where
  "verdict os base m p major minor host =
     (case validator_status m p major minor host of
        Some code \<Rightarrow> Inl code
      | None \<Rightarrow> candidate_status os base (path_candidates p))"

definition request_verdict :: "posix \<Rightarrow> string \<Rightarrow> http_request \<Rightarrow> nat + string" where
  "request_verdict os base r =
     verdict os base (req_request_type r) (req_original_request_path r)
       (req_major_version r) (req_minor_version r) (HTTPRequest_GetHeader r ''host'')"

definition version_ok :: "http_request \<Rightarrow> bool" where
  "version_ok r \<longleftrightarrow> req_minor_version r \<le> 1 \<and> req_major_version r \<le> 1"

lemma occurs_prefix:
  assumes "occurs_at s (p @ q) j"
  shows "occurs_at s p j"
  using assms by (auto simp: occurs_at_iff nth_append split: if_splits)

lemma three_dots: "lacks ''..'' s \<Longrightarrow> string_find s ''...'' 0 = None"
  using occurs_prefix [of s "''..''" "''.''"] by (auto simp: lacks_def string_find_None)

lemma Validator_Process_status:
  "version_ok r \<Longrightarrow> Validator_Process r =
     Inr (map_option MakeResponse (validator_status (req_request_type r) (req_original_request_path r)
       (req_major_version r) (req_minor_version r) (HTTPRequest_GetHeader r ''host'')), r)"
  using three_dots [of "req_original_request_path r"]
  by (auto simp: Validator_Process_def validator_status_def version_ok_def lacks_def)

lemma Resolve_candidates:
  "req_path_candidates r = [] \<Longrightarrow> req_original_request_path r \<noteq> [] \<Longrightarrow>
    ResolveRequestPathCandidates r =
      Inr (None, r\<lparr>req_path_candidates := path_candidates (req_original_request_path r)\<rparr>)"
  by (simp add: ResolveRequestPathCandidates_def path_candidates_def add_request_path_candidate_def
      dir_access_suffixes_def compressed_file_extensions_def Let_def)

lemma search_candidates_status:
  "search_candidates os base qs r =
     (case candidate_status os base qs of
        Inl code \<Rightarrow> (Some (MakeResponse code), r)
      | Inr q \<Rightarrow> (None, r\<lparr>req_real_request_path := q\<rparr>))"
  by (induction qs) (auto split: ret_code.splits)

lemma path_candidates_not_Nil [simp]: "path_candidates p \<noteq> []"
  by (simp add: path_candidates_def)

lemma file_server_funcs:
  "pre_processing_funcs (file_server os base) =
     [Validator_Process, ResolveRequestPathCandidates, FileAccessor_PreProcessing os base]"
  "processing_funcs (file_server os base) = [ReadFile os base]"
  "post_processing_funcs (file_server os base) = []"
  by (simp_all add: file_server_def InitModules_def Validator_Init_def Rewrite_Init_def FileAccessor_Init_def
      HTTPServer_init_def RegisterPreProcessing_def RegisterProcessing_def)

text \<open>The request as the file accessor leaves it.\<close>

definition chosen :: "http_request \<Rightarrow> string \<Rightarrow> http_request" where
  "chosen r q = r\<lparr>req_path_candidates := path_candidates (req_original_request_path r), req_real_request_path := q\<rparr>"

lemma pre_processing:
  assumes "version_ok r" "req_path_candidates r = []" "req_original_request_path r \<noteq> []"
  shows "\<exists>r'. run_pre (pre_processing_funcs (file_server os base)) r =
     Inr (case request_verdict os base r of Inl code \<Rightarrow> (Some (MakeResponse code), r') | Inr q \<Rightarrow> (None, chosen r q))"
  using Validator_Process_status [OF assms(1)] Resolve_candidates [OF assms(2,3)]
  by (auto simp: file_server_funcs request_verdict_def verdict_def FileAccessor_PreProcessing_def
      search_candidates_status chosen_def split: option.splits sum.splits)

lemma OnRequest_verdict:
  assumes "version_ok r" "req_path_candidates r = []" "req_original_request_path r \<noteq> []"
  shows "OnRequest bo date (file_server os base) r =
    (case request_verdict os base r of
       Inl code \<Rightarrow> Inr ([Write_bytes (EncodeResponse bo date (MakeResponse code)), Set_write_done], [])
     | Inr q \<Rightarrow>
         andthen (ReadFile os base (chosen r q) (HTTPResponse_init 200)) (\<lambda>(res, evs).
         andthen (WriteResponseAndClose bo date res) (\<lambda>acts. Inr (acts, evs))))"
proof -
  obtain r' where r': "run_pre (pre_processing_funcs (file_server os base)) r =
     Inr (case request_verdict os base r of Inl code \<Rightarrow> (Some (MakeResponse code), r') | Inr q \<Rightarrow> (None, chosen r q))"
    using pre_processing [OF assms] by blast
  show ?thesis
  proof (cases "request_verdict os base r")
    case (Inl code)
    then show ?thesis
      using r' by (simp add: OnRequest_def WriteResponseAndClose_def MakeResponse_def HTTPResponse_init_def)
  next
    case (Inr q)
    then show ?thesis
      using r'
      by (cases "ReadFile os base (chosen r q) (HTTPResponse_init 200)")
        (auto simp: OnRequest_def file_server_funcs)
  qed
qed

lemma candidate_status_member: "candidate_status os base qs = Inr q \<Longrightarrow> q \<in> set qs \<and> fst (CheckFileCanRead os base q) = kOk"
  by (induction qs) (auto split: ret_code.splits)

lemma CheckFileCanRead_size: "fst (CheckFileCanRead os base q) = kOk \<Longrightarrow>
    \<exists>sb. sys_stat os (c_str (base @ q)) = Inr sb \<and> CheckFileCanRead os base q = (kOk, Some (st_size sb))"
  by (auto simp: CheckFileCanRead_def Let_def split: sum.splits if_splits)

text \<open>What \<open>ReadFile\<close> does with a candidate that was found readable.\<close>

lemma ReadFile_small:
  assumes "fst (CheckFileCanRead os base q) = kOk" "sys_stat os (c_str (base @ q)) = Inr sb"
    and "sys_open os (c_str (base @ q)) = fd" "0 \<le> fd" "sys_pread os fd (st_size sb) = Some bytes"
    and "length bytes = st_size sb" "st_size sb < zero_copy_file_min_size" "req_real_request_path r = q"
  shows "ReadFile os base r res =
     Inr (res\<lparr>res_body := bytes, res_body_length := length bytes\<rparr>, [Opened (c_str (base @ q)) fd, Closed fd])"
  using CheckFileCanRead_size [OF assms(1)] assms(2-)
  by (auto simp: ReadFile_def Let_def HTTPResponse_GetBodyBuf_def put_body_def overwrite_def)

lemma ReadFile_large:
  assumes "fst (CheckFileCanRead os base q) = kOk" "sys_stat os (c_str (base @ q)) = Inr sb"
    and "sys_open os (c_str (base @ q)) = fd" "0 \<le> fd" "zero_copy_file_min_size \<le> st_size sb"
    and "req_real_request_path r = q"
  shows "ReadFile os base r res =
     Inr (set_zero_copy_write_callback (set_zero_copy_fd res fd), [Opened (c_str (base @ q)) fd])"
  using CheckFileCanRead_size [OF assms(1)] assms(2-) by (auto simp: ReadFile_def Let_def)

lemma ReadFile_opens:
  assumes "ReadFile os base r res = Inr (res', evs)" "Opened path fd \<in> set evs"
  shows "path = c_str (base @ req_real_request_path r)"
proof -
  obtain ret sz where c: "CheckFileCanRead os base (req_real_request_path r) = (ret, sz)" by fastforce
  show ?thesis
    using assms unfolding ReadFile_def c Let_def
    by (auto simp: andthen_Inr_iff split: if_splits option.splits)
qed

lemma verdict_candidate:
  assumes "verdict os base m p major minor host = Inr q"
  shows "q \<in> set (path_candidates p)" "fst (CheckFileCanRead os base q) = kOk" "lacks ''..'' p"
  using assms candidate_status_member [of os base "path_candidates p" q]
  by (auto simp: verdict_def validator_status_def split: option.splits if_splits)

section \<open>From the bytes of a request to the answer\<close>

text \<open>A request without a body, as the bytes at the front of a new connection's buffer.\<close>

definition request_arrived ::
  "boost \<Rightarrow> buffer \<Rightarrow> string \<Rightarrow> string \<Rightarrow> nat \<Rightarrow> nat \<Rightarrow> (string \<times> string) list \<Rightarrow> bool" where
  "request_arrived bo b m p major minor hs \<longleftrightarrow>
     boost_documented bo \<and> buffer_ok b \<and> token_ok m \<and> token_ok p \<and> major < 2 ^ 32 \<and> minor < 2 ^ 32 \<and>
     list_all header_ok hs \<and> map_of (lowered hs) ''content-length'' = None \<and>
     unread b = render_request m p major minor hs []"

lemma server_reads:
  assumes "request_arrived bo b m p major minor hs"
  shows "\<exists>r b'. server_read bo date srv OnNewConnection b =
       Some (andthen (OnRequest bo date srv r) (\<lambda>(acts, evs). Inr (acts, evs, None, b'))) \<and>
     req_request_type r = m \<and> req_original_request_path r = p \<and> req_major_version r = major \<and>
     req_minor_version r = minor \<and> HTTPRequest_GetHeader r ''host'' = map_of (lowered hs) ''host'' \<and>
     req_path_candidates r = [] \<and> unread b' = []"
proof -
  have "unread b = render_request m p major minor hs [] @ []" "\<forall>h \<in> set hs. header_ok h"
    using assms by (simp_all add: request_arrived_def list_all_iff)
  then obtain r b' where "OnMessage bo True True OnNewConnection b = Some (Inr (Codec_request r, None, b'))"
     "req_request_type r = m" "req_original_request_path r = p" "req_major_version r = major"
     "req_minor_version r = minor" "HTTPRequest_GetHeader r ''host'' = map_of (lowered hs) ''host''"
     "req_path_candidates r = []" "unread b' = []"
    using assms OnMessage_reads_back [of bo b m p major minor hs "[]" "[]"]
    unfolding request_arrived_def by auto
  then show ?thesis by (auto simp: server_read_def then_run_def)
qed

lemma server_answers:
  assumes "request_arrived bo b m p major minor hs" "p \<noteq> []" "major \<le> 1" "minor \<le> 1"
  shows "\<exists>r b'. server_read bo date (file_server os base) OnNewConnection b =
    Some (andthen
      (case verdict os base m p major minor (map_of (lowered hs) ''host'') of
         Inl code \<Rightarrow> Inr ([Write_bytes (EncodeResponse bo date (MakeResponse code)), Set_write_done], [])
       | Inr q \<Rightarrow>
           andthen (ReadFile os base (chosen r q) (HTTPResponse_init 200)) (\<lambda>(res, evs).
           andthen (WriteResponseAndClose bo date res) (\<lambda>acts. Inr (acts, evs))))
      (\<lambda>(acts, evs). Inr (acts, evs, None, b'))) \<and> unread b' = []"
proof -
  obtain r b' where r: "server_read bo date (file_server os base) OnNewConnection b =
       Some (andthen (OnRequest bo date (file_server os base) r) (\<lambda>(acts, evs). Inr (acts, evs, None, b')))"
     "req_request_type r = m" "req_original_request_path r = p" "req_major_version r = major"
     "req_minor_version r = minor" "HTTPRequest_GetHeader r ''host'' = map_of (lowered hs) ''host''"
     "req_path_candidates r = []" "unread b' = []"
    using server_reads [OF assms(1), of date "file_server os base"] by blast
  have v: "version_ok r" "req_original_request_path r \<noteq> []" using r assms by (simp_all add: version_ok_def)
  have "OnRequest bo date (file_server os base) r =
    (case verdict os base m p major minor (map_of (lowered hs) ''host'') of
       Inl code \<Rightarrow> Inr ([Write_bytes (EncodeResponse bo date (MakeResponse code)), Set_write_done], [])
     | Inr q \<Rightarrow>
         andthen (ReadFile os base (chosen r q) (HTTPResponse_init 200)) (\<lambda>(res, evs).
         andthen (WriteResponseAndClose bo date res) (\<lambda>acts. Inr (acts, evs))))"
    using OnRequest_verdict [OF v(1) r(7) v(2), of bo date os base] unfolding request_verdict_def r(2-6) .
  then show ?thesis using r(1,8) by auto
qed

lemma version_fault:
  "1 < req_major_version r \<or> 1 < req_minor_version r \<Longrightarrow>
    OnRequest bo date (file_server os base) r = Inl Null_dereference"
  by (auto simp: OnRequest_def file_server_funcs Validator_Process_def)

lemma opened_path:
  assumes "OnRequest bo date (file_server os base) r = Inr (acts, evs)" "version_ok r" "evs \<noteq> []"
  shows "req_original_request_path r \<noteq> []"
proof
  assume "req_original_request_path r = []"
  then have "ResolveRequestPathCandidates r = Inl Assertion_failed"
    by (simp add: ResolveRequestPathCandidates_def)
  then show False
    using assms Validator_Process_status [OF assms(2)]
    by (cases "validator_status (req_request_type r) (req_original_request_path r)
       (req_major_version r) (req_minor_version r) (HTTPRequest_GetHeader r ''host'')")
      (auto simp: OnRequest_def file_server_funcs andthen_Inr_iff)
qed

section \<open>No way up\<close>

lemma c_str_append: "CHR 0x00 \<notin> set a \<Longrightarrow> c_str (a @ b) = a @ c_str b"
  by (induction a) (auto simp: c_str_def)

lemma parent_chars:
  assumes "occurs_at s ''/../'' j"
  shows "s ! (j + 1) = CHR ''.''" "s ! (j + 2) = CHR ''.''" "s ! (j + 3) = CHR ''/''"
  using assms unfolding occurs_at_iff by (auto dest: spec [of _ 1] spec [of _ 2] spec [of _ 3])

lemma two_dots:
  "occurs_at s ''..'' j \<longleftrightarrow> j + 2 \<le> length s \<and> s ! j = CHR ''.'' \<and> s ! Suc j = CHR ''.''"
  unfolding occurs_at_iff by (auto simp: less_Suc_eq)

lemma no_parent_prefix:
  assumes "lacks ''..'' (t @ u)"
  shows "lacks ''/../'' (t @ ''/'')"
proof -
  have "\<not> occurs_at (t @ ''/'') ''/../'' j" for j
  proof
    assume o: "occurs_at (t @ ''/'') ''/../'' j"
    then have "j + 4 \<le> length t + 1" by (simp add: occurs_at_iff)
    then have "occurs_at (t @ u) ''..'' (Suc j)"
      using parent_chars [OF o] by (simp add: two_dots nth_append)
    then show False using assms by (auto simp: lacks_def string_find_None)
  qed
  then show ?thesis by (simp add: lacks_def string_find_None)
qed

lemma no_parent_gz:
  assumes "lacks ''..'' t"
  shows "lacks ''/../'' ((t @ ''.gz'') @ ''/'')"
proof -
  have "\<not> occurs_at ((t @ ''.gz'') @ ''/'') ''/../'' j" for j
  proof
    assume o: "occurs_at ((t @ ''.gz'') @ ''/'') ''/../'' j"
    note c = parent_chars [OF o]
    have "j \<le> length t" using o by (simp add: occurs_at_iff)
    then consider "j + 2 < length t" | "j + 2 = length t" | "j + 1 = length t" | "j = length t" by linarith
    then show False
    proof cases
      case 1
      then have "occurs_at t ''..'' (Suc j)"
        using c by (simp add: two_dots nth_append)
      then show False using assms by (auto simp: lacks_def string_find_None)
    qed (use c in \<open>simp_all add: nth_append\<close>)
  qed
  then show ?thesis by (simp add: lacks_def string_find_None)
qed

lemma candidate_no_parent:
  assumes "q \<in> set (path_candidates p)" "lacks ''..'' p"
  shows "lacks ''/../'' (c_str q @ ''/'')"
proof -
  have cut: "p = c_str p @ dropWhile (\<lambda>c. c \<noteq> CHR 0x00) p" by (simp add: c_str_def)
  then have p: "lacks ''/../'' (c_str p @ ''/'')" using no_parent_prefix assms(2) by metis
  show ?thesis
  proof (cases "q = p @ ''.gz''")
    case True
    show ?thesis
    proof (cases "CHR 0x00 \<in> set p")
      case cut: True
      then have "c_str q = c_str p" unfolding True by (auto simp: c_str_def takeWhile_append1)
      then show ?thesis using p by simp
    next
      case False
      then have "c_str q = p @ ''.gz''" unfolding True by (simp add: c_str_append) (simp add: c_str_def)
      then show ?thesis using no_parent_gz [OF assms(2)] by simp
    qed
  next
    case False
    moreover have "lacks ''/../'' (c_str ''/index.html'' @ ''/'')"
      by (simp add: lacks_def string_find_def c_str_def occurs_at_def upt_rec)
    ultimately show ?thesis using p assms(1) by (auto simp: path_candidates_def split: if_splits)
  qed
qed

section \<open>Concrete runs\<close>

text \<open>A file system with one file, readable by all, of the given size and bytes.\<close>

definition plain_file :: "nat \<Rightarrow> file_stat" where
  "plain_file n = \<lparr>st_regular = True, st_mode = 292, st_uid = 0, st_gid = 0, st_size = n\<rparr>"

lemma plain_file_size [simp]: "st_size (plain_file n) = n"
  by (simp add: plain_file_def)

definition one_file :: "string \<Rightarrow> nat \<Rightarrow> string \<Rightarrow> posix" where
  "one_file path n bytes =
     \<lparr>sys_stat = \<lambda>p. if p = path then Inr (plain_file n) else Inl ENOENT,
      sys_open = \<lambda>p. if p = path then 3 else - 1,
      sys_pread = \<lambda>fd k. if fd = 3 then Some (take k bytes) else None,
      sys_uid = 0, sys_gid = 0\<rparr>"

lemma one_file_check:
  "fst (CheckFileCanRead (one_file path n bytes) base q) = (if c_str (base @ q) = path then kOk else kNotFound)"
  by (simp add: CheckFileCanRead_def one_file_def plain_file_def S_IRUSR_def Let_def)

lemma example_request:
  assumes "token_ok m" "token_ok p" "length m + length p \<le> 100" "minor < 10" "major < 10"
  shows "request_arrived reference_boost (buffer_of (render_request m p major minor [] [])) m p major minor []"
proof -
  have "length (decimal major) = 1" "length (decimal minor) = 1" using assms by (simp_all add: decimal.simps)
  then have "buffer_ok (buffer_of (render_request m p major minor [] []))"
    using assms(3)
    by (intro buffer_of_ok(1)) (simp add: vector_max_size_def render_request_def render_line_def HEADER_SEP_def)
  then show ?thesis
    using assms by (simp add: request_arrived_def reference_boost_documented buffer_of_ok lowered_def)
qed

lemma example_verdict:
  assumes "lacks ''..'' p" "last p \<noteq> CHR ''/''" "c_str (base @ p @ ''.gz'') \<noteq> path" "c_str (base @ p) = path"
  shows "verdict (one_file path n bytes) base ''GET'' p 1 0 host = Inr p"
  using assms by (simp add: verdict_def validator_status_def path_candidates_def one_file_check)

lemma lacks_dots: "p \<noteq> [] \<Longrightarrow> CHR ''.'' \<notin> set p \<Longrightarrow> lacks ''..'' p"
  by (rule lacks_first) simp

lemma serves_small_file:
  assumes "request_arrived bo b m p major minor hs" "p \<noteq> []" "major \<le> 1" "minor \<le> 1"
    and "verdict os base m p major minor (map_of (lowered hs) ''host'') = Inr q"
    and "sys_stat os (c_str (base @ q)) = Inr sb" "st_size sb < zero_copy_file_min_size"
    and "sys_open os (c_str (base @ q)) = fd" "0 \<le> fd"
    and "sys_pread os fd (st_size sb) = Some bytes" "length bytes = st_size sb"
  shows "\<exists>b'. server_read bo date (file_server os base) OnNewConnection b =
     Some (Inr ([Write_bytes (EncodeResponse bo date
                   ((HTTPResponse_init 200)\<lparr>res_body := bytes, res_body_length := length bytes\<rparr>))] @
                (if bytes = [] then [] else [Write_bytes bytes]) @ [Set_write_done],
                [Opened (c_str (base @ q)) fd, Closed fd], None, b'))"
proof -
  note R = ReadFile_small [OF verdict_candidate(2) [OF assms(5)] assms(6,8-11,7)]
  show ?thesis
    using server_answers [OF assms(1-4), of date os base] R
    by (auto simp: assms(5) chosen_def WriteResponseAndClose_def Let_def HTTPResponse_init_def)
qed

section \<open>Properties\<close>

text \<open>C23: a GET request whose path has a readable candidate below 1 MiB is answered with the whole
  file: the head of a 200 response, the bytes of the first readable candidate, and the close
  after the write; the file is opened and closed once.\<close>

theorem server_serves_file:
  assumes "request_arrived bo b m p major minor hs" "p \<noteq> []" "major \<le> 1" "minor \<le> 1"
    and "verdict os base m p major minor (map_of (lowered hs) ''host'') = Inr q"
    and "sys_stat os (c_str (base @ q)) = Inr sb" "st_size sb < zero_copy_file_min_size"
    and "sys_open os (c_str (base @ q)) = fd" "0 \<le> fd"
    and "sys_pread os fd (st_size sb) = Some bytes" "length bytes = st_size sb"
  shows "\<exists>b'. server_read bo date (file_server os base) OnNewConnection b =
     Some (Inr ([Write_bytes (EncodeResponse bo date
                   ((HTTPResponse_init 200)\<lparr>res_body := bytes, res_body_length := length bytes\<rparr>))] @
                (if bytes = [] then [] else [Write_bytes bytes]) @ [Set_write_done],
                [Opened (c_str (base @ q)) fd, Closed fd], None, b'))"
  by (rule serves_small_file [OF assms])


text \<open>A file of 1 MiB or more is answered by a head alone: the zero-copy branch does not set the
  body length, so no body is written, and the file is not closed.\<close>

theorem server_large_file_empty:
  assumes "request_arrived bo b m p major minor hs" "p \<noteq> []" "major \<le> 1" "minor \<le> 1"
    and "verdict os base m p major minor (map_of (lowered hs) ''host'') = Inr q"
    and "sys_stat os (c_str (base @ q)) = Inr sb" "zero_copy_file_min_size \<le> st_size sb"
    and "sys_open os (c_str (base @ q)) = fd" "0 \<le> fd"
  shows "\<exists>res b'. server_read bo date (file_server os base) OnNewConnection b =
     Some (Inr ([Write_bytes (EncodeResponse bo date res), Set_write_done],
                [Opened (c_str (base @ q)) fd], None, b')) \<and> res_body_length res = 0"
proof -
  note R = ReadFile_large [OF verdict_candidate(2) [OF assms(5)] assms(6,8,9,7)]
  show ?thesis
    using server_answers [OF assms(1-4), of date os base] R
    by (auto simp: assms(5) chosen_def WriteResponseAndClose_def Let_def HTTPResponse_init_def
        set_zero_copy_write_callback_def set_zero_copy_fd_def)
qed

text \<open>A well-formed request with a version above 1 stops the server: the validator logs the
  version of a response that does not exist.\<close>

theorem server_version_fault:
  assumes "request_arrived bo b m p major minor hs" "1 < major \<or> 1 < minor"
  shows "server_read bo date (file_server os base) OnNewConnection b = Some (Inl Null_dereference)"
  using server_reads [OF assms(1), of date "file_server os base"] assms(2)
  by (auto simp: version_fault)

text \<open>A GET request with an empty path (two blanks) fails the assertion of the rewriter.\<close>

theorem server_empty_path_fault:
  assumes "request_arrived bo b ''GET'' [] 1 0 hs"
  shows "server_read bo date (file_server os base) OnNewConnection b = Some (Inl Assertion_failed)"
proof -
  have "string_find [] ''..'' 0 = None" "string_find [] ''...'' 0 = None"
    by (simp_all add: string_find_None occurs_at_def)
  then show ?thesis
    using server_reads [OF assms, of date "file_server os base"]
    by (auto simp: OnRequest_def file_server_funcs Validator_Process_def ResolveRequestPathCandidates_def Let_def)
qed

text \<open>C27: whatever the request, no file is opened outside the base path by going up: the path
  opened is the base path followed by a string without a component \<open>..\<close>, also after the suffix
  \<open>.gz\<close> was added and after the string was cut at a NUL.\<close>

theorem no_parent_directory:
  assumes "OnRequest bo date (file_server os base) r = Inr (acts, evs)" "Opened path fd \<in> set evs"
    and "CHR 0x00 \<notin> set base" "req_path_candidates r = []"
  shows "\<exists>q. path = base @ q \<and> lacks ''/../'' (q @ ''/'')"
proof -
  have v: "version_ok r"
    using assms(1) version_fault [of r bo date os base] by (auto simp: version_ok_def not_le [symmetric])
  have p: "req_original_request_path r \<noteq> []"
    using opened_path [OF assms(1) v] assms(2) by (cases evs) auto
  note o = OnRequest_verdict [OF v assms(4) p, of bo date os base]
  obtain q where q: "request_verdict os base r = Inr q"
    using assms(1,2) o by (cases "request_verdict os base r") auto
  obtain res where "ReadFile os base (chosen r q) (HTTPResponse_init 200) = Inr (res, evs)"
    using assms(1) o q by (auto simp: andthen_Inr_iff)
  from ReadFile_opens [OF this assms(2)] have path: "path = c_str (base @ q)" by (simp add: chosen_def)
  have "path = base @ c_str q" using path assms(3) by (simp add: c_str_append)
  moreover have "lacks ''/../'' (c_str q @ ''/'')"
    using candidate_no_parent [OF verdict_candidate(1,3) [OF q [unfolded request_verdict_def]]] .
  ultimately show ?thesis by blast
qed

section \<open>Witnesses\<close>

text \<open>The file served here lies outside the base path: \<open>-k\<close> is appended to \<open>/w\<close> as it is.\<close>

theorem server_serves_file_witness:
  "\<exists>b'. server_read reference_boost ''now'' (file_server (one_file ''/w-k'' 2 ''hi'') ''/w'') OnNewConnection
       (buffer_of (render_request ''GET'' ''-k'' 1 0 [] [])) =
     Some (Inr ([Write_bytes (EncodeResponse reference_boost ''now''
                   ((HTTPResponse_init 200)\<lparr>res_body := ''hi'', res_body_length := length ''hi''\<rparr>))] @
                (if ''hi'' = [] then [] else [Write_bytes ''hi'']) @ [Set_write_done],
                [Opened (c_str (''/w'' @ ''-k'')) 3, Closed 3], None, b'))"
  by (rule server_serves_file [where sb = "plain_file 2", OF example_request _ _ _ example_verdict])
    (simp_all add: token_ok_def lacks_dots one_file_def c_str_def zero_copy_file_min_size_def)


theorem server_large_file_empty_witness:
  "\<exists>res b'. server_read reference_boost ''now'' (file_server (one_file ''/w/a'' 2000000 []) ''/w'') OnNewConnection
       (buffer_of (render_request ''GET'' ''/a'' 1 0 [] [])) =
     Some (Inr ([Write_bytes (EncodeResponse reference_boost ''now'' res), Set_write_done],
                [Opened (c_str (''/w'' @ ''/a'')) 3], None, b')) \<and> res_body_length res = 0"
  by (rule server_large_file_empty [where sb = "plain_file 2000000", OF example_request _ _ _ example_verdict])
    (simp_all add: token_ok_def lacks_dots one_file_def c_str_def zero_copy_file_min_size_def)

theorem server_version_fault_witness:
  "server_read reference_boost ''now'' (file_server (one_file ''/w/a'' 2 ''hi'') ''/w'') OnNewConnection
     (buffer_of (render_request ''GET'' ''/a'' 2 0 [] [])) = Some (Inl Null_dereference)"
  by (rule server_version_fault [OF example_request]) (simp_all add: token_ok_def)

theorem server_empty_path_fault_witness:
  "server_read reference_boost ''now'' (file_server (one_file ''/w/a'' 2 ''hi'') ''/w'') OnNewConnection
     (buffer_of (render_request ''GET'' [] 1 0 [] [])) = Some (Inl Assertion_failed)"
  by (rule server_empty_path_fault [OF example_request]) (simp_all add: token_ok_def)

theorem no_parent_directory_witness:
  "\<exists>q. ''/w/a'' = ''/w'' @ q \<and> lacks ''/../'' (q @ ''/'')"
proof (rule no_parent_directory [where os = "one_file ''/w/a'' 2 ''hi''" and bo = reference_boost and date = "''now''"
      and r = "HTTPRequest_init\<lparr>req_request_type := ''GET'', req_original_request_path := ''/a''\<rparr>" and fd = 3
      and evs = "[Opened ''/w/a'' 3, Closed 3]"])
  let ?r = "HTTPRequest_init\<lparr>req_request_type := ''GET'', req_original_request_path := ''/a''\<rparr>"
  let ?os = "one_file ''/w/a'' 2 ''hi''"
  let ?res = "(HTTPResponse_init 200)\<lparr>res_body := ''hi'', res_body_length := length ''hi''\<rparr>"
  have "request_verdict ?os ''/w'' ?r = Inr ''/a''"
    by (simp add: request_verdict_def HTTPRequest_init_def HTTPRequest_GetHeader_def verdict_def validator_status_def
        path_candidates_def one_file_check c_str_def lacks_dots)
  moreover have "ReadFile ?os ''/w'' (chosen ?r ''/a'') (HTTPResponse_init 200) =
      Inr (?res, [Opened (c_str (''/w'' @ ''/a'')) 3, Closed 3])"
    by (rule ReadFile_small [where sb = "plain_file 2"]) (simp_all add: one_file_check chosen_def, simp_all add: one_file_def c_str_def zero_copy_file_min_size_def)
  ultimately show "OnRequest reference_boost ''now'' (file_server ?os ''/w'') ?r =
      Inr ([Write_bytes (EncodeResponse reference_boost ''now'' ?res), Write_bytes ''hi'', Set_write_done],
           [Opened ''/w/a'' 3, Closed 3])"
    using OnRequest_verdict [of ?r reference_boost "''now''" ?os "''/w''"]
    by (simp add: version_ok_def HTTPRequest_init_def WriteResponseAndClose_def Let_def HTTPResponse_init_def c_str_def)
qed (simp_all add: HTTPRequest_init_def)

end
