(* ===== verification/Http_Connection.thy ===== *)
theory Http_Connection
  imports Tcp_Rounds Http_Server_Laws
begin

text \<open>
  The example server on its connections: its pipeline as the callbacks of the TCP server. What
  the pipeline does to a connection (\<open>conn_action\<close>) becomes operations of the connection; the
  context of a connection is the parsing state of the codec.
\<close>

section \<open>The callbacks\<close>

definition do_action ::
  "os_net \<Rightarrow> (parsing_state, 'z) user_calls \<Rightarrow> nat \<Rightarrow> conn_action \<Rightarrow>
   (parsing_state, 'z) world_scheme \<Rightarrow> (parsing_state, 'z) world_scheme run" where
  "do_action os u c act =
     (case act of
        Write_bytes s \<Rightarrow> TcpConnection_Write c s
      | Zero_copy_write fd off len \<Rightarrow> ZeroCopyWrite c fd (int off) len
      | Set_write_done \<Rightarrow> set_write_done_callback c
      | Active_close \<Rightarrow> ActiveClose os u c)"

text \<open>The read callback: \<open>HTTPCodec::OnMessage\<close> with the callbacks of \<open>HTTPServer\<close>.\<close>

definition http_read ::
  "boost \<Rightarrow> string \<Rightarrow> http_server \<Rightarrow> os_net \<Rightarrow> (parsing_state, 'z) user_calls \<Rightarrow> nat \<Rightarrow>
   (parsing_state, 'z) world_scheme \<Rightarrow> (parsing_state, 'z) world_scheme run" where
  "http_read bo date srv os u c = with_conn c (\<lambda>k w.
     then_run (server_read bo date srv (c_ctx k) (c_read_buf k)) (\<lambda>(acts, evs, ctx, b).
       run_all (do_action os u c) acts (set_conn c (k\<lparr>c_ctx := ctx, c_read_buf := b\<rparr>) w)))"

definition http_new_connection ::
  "nat \<Rightarrow> (parsing_state, 'z) world_scheme \<Rightarrow> (parsing_state, 'z) world_scheme run" where
  "http_new_connection c =
     (case OnNewConnection of Some st \<Rightarrow> set_context c st | None \<Rightarrow> clear_context c)"

text \<open>
  A close made by the pipeline goes to the server, which calls none of the callbacks below.
\<close>

definition http_close_calls :: "(parsing_state, 'z) server_calls" where
  "http_close_calls = silent_calls\<lparr>on_new := http_new_connection\<rparr>"

definition http_calls :: "boost \<Rightarrow> string \<Rightarrow> http_server \<Rightarrow> os_net \<Rightarrow> (parsing_state, 'z) server_calls" where
  "http_calls bo date srv os =
     http_close_calls
       \<lparr>on_read := http_read bo date srv os (server_user_calls os http_close_calls),
        on_write_done := (\<lambda>c. run_all (do_action os (server_user_calls os http_close_calls) c) (WriteResponseDone True))\<rparr>"

section \<open>The steps of a request\<close>

text \<open>What an operation of an open connection leaves as it is, beside the connection.\<close>

definition around where
  "around w k = (kept w, p_channels w, srv_connections w, ch_fd (c_channel k), ch_handling_events (c_channel k),
     ch_revents (c_channel k), ch_rcb (c_channel k), ch_wcb (c_channel k))"

text \<open>A connection of the server that is open and registered, with \<open>s\<close> waiting to be written.\<close>

definition open_conn ::
  "nat \<Rightarrow> int \<Rightarrow> string \<Rightarrow> net_event list \<Rightarrow> nat \<Rightarrow> (parsing_state, 'z) server_world_scheme \<Rightarrow> parsing_state connection \<Rightarrow> bool" where
  "open_conn c fd s log space w k \<longleftrightarrow>
     served c k w \<and> c_fd k = fd \<and> c_state k = kConnected \<and> c_zc_fd k = - 1 \<and> c_zc_writed k = c_zc_len k \<and>
     buffer_ok (c_write_buf k) \<and> unread (c_write_buf k) = s \<and> space \<le> buffer_space (c_write_buf k) \<and>
     functors w = [] \<and> net_log w = log \<and> p_channels w (ch_fd (c_channel k)) \<noteq> None"

lemma served_set:
  "served c k w \<Longrightarrow> c_fd k' = c_fd k \<Longrightarrow> c_ccb k' \<Longrightarrow> served c k' (set_conn c k' w)"
  by (simp add: served_def world_simps)

lemma served_events:
  "served c k w \<Longrightarrow> served c (k\<lparr>c_channel := (c_channel k)\<lparr>ch_events := ev\<rparr>\<rparr>) (set_events c ev k w)"
  by (simp add: served_def world_simps)

lemma around_events:
  assumes "p_channels w (ch_fd (c_channel k)) \<noteq> None"
  shows "around (set_events c ev k w) (k\<lparr>c_channel := (c_channel k)\<lparr>ch_events := ev\<rparr>\<rparr>) = around w k"
  using registered_stays(2) [OF assms, of c ev] by (simp add: around_def world_simps)

lemma writing_bit: "is_writing (ch\<lparr>ch_events := ev OR kWriteEvents\<rparr>)"
proof -
  have "(ev OR kWriteEvents) AND kWriteEvents = kWriteEvents" by (simp add: bit.conj_disj_distrib2)
  then show ?thesis by (simp add: is_writing_def kWriteEvents_def)
qed

lemma do_write:
  assumes "open_conn c fd s log space w k" "length x \<le> space"
  shows "\<exists>w' k'. do_action os u c (Write_bytes x) w = Some (Inr w') \<and>
     open_conn c fd (s @ x) log (space - length x) w' k' \<and> c_rcb k' = c_rcb k \<and> c_wdcb k' = c_wdcb k \<and>
     around w' k' = around w k \<and> is_writing (c_channel k')"
proof -
  note o = assms(1) [unfolded open_conn_def]
  have k: "InLoopThread w" "conns w c = Some k" using o by (simp_all add: served_def)
  obtain b where b: "Buffer_Append (c_write_buf k) x = Inr b" "buffer_ok b" "unread b = s @ x"
    "buffer_space (c_write_buf k) - length x \<le> buffer_space b"
    using Append_ok [of "c_write_buf k" x] o assms(2) by auto
  define k1 where "k1 = k\<lparr>c_write_buf := b\<rparr>"
  define ev where "ev = ch_events (c_channel k) OR kWriteEvents"
  define k2 where "k2 = k1\<lparr>c_channel := (c_channel k1)\<lparr>ch_events := ev\<rparr>\<rparr>"
  define w2 where "w2 = set_events c ev k1 (set_conn c k1 w)"
  have "do_action os u c (Write_bytes x) w = Some (Inr w2)"
    using k b(1) by (simp add: do_action_def TcpConnection_Write_def with_conn_Some world_simps w2_def k1_def ev_def)
  moreover have "served c k2 w2"
    unfolding k2_def w2_def by (rule served_events, rule served_set [of c k]) (use o in \<open>auto simp: served_def k1_def\<close>)
  moreover have reg: "p_channels (set_conn c k1 w) (ch_fd (c_channel k1)) \<noteq> None" using o by (simp add: k1_def world_simps)
  then have "around w2 k2 = around w k"
    using around_events [OF reg, of c ev] by (simp add: w2_def k2_def) (simp add: around_def world_simps k1_def)
  moreover have "p_channels w2 = p_channels w"
    using registered_stays(2) [OF reg, of c ev] by (simp add: w2_def world_simps)
  ultimately show ?thesis
    using o b writing_bit [where ch = "c_channel k1" and ev = "ch_events (c_channel k)"]
    by (intro exI [of _ w2] exI [of _ k2]) (auto simp: open_conn_def w2_def k2_def k1_def ev_def world_simps)
qed

lemma do_set_write_done:
  assumes "open_conn c fd s log space w k"
  shows "\<exists>w'. do_action os u c Set_write_done w = Some (Inr w') \<and>
     open_conn c fd s log space w' (k\<lparr>c_wdcb := True\<rparr>) \<and> around w' (k\<lparr>c_wdcb := True\<rparr>) = around w k"
proof -
  have "conns w c = Some k" using assms by (simp add: open_conn_def served_def)
  then have "do_action os u c Set_write_done w = Some (Inr (set_conn c (k\<lparr>c_wdcb := True\<rparr>) w))"
    by (simp add: do_action_def set_write_done_callback_def with_conn_Some)
  then show ?thesis
    using assms served_set [of c k w "k\<lparr>c_wdcb := True\<rparr>"]
    by (auto simp: open_conn_def around_def world_simps served_def)
qed

lemma do_response:
  assumes "open_conn c fd [] log space w k" "length head + length body \<le> space"
  shows "\<exists>w' k'. run_all (do_action os u c)
       ([Write_bytes head] @ (if body = [] then [] else [Write_bytes body]) @ [Set_write_done]) w = Some (Inr w') \<and>
     open_conn c fd (head @ body) log 0 w' k' \<and> c_wdcb k' \<and> around w' k' = around w k \<and> is_writing (c_channel k')"
proof -
  obtain w1 k1 where w1: "do_action os u c (Write_bytes head) w = Some (Inr w1)"
    "open_conn c fd head log (space - length head) w1 k1" "around w1 k1 = around w k" "is_writing (c_channel k1)"
    using do_write [OF assms(1), of head os u] assms(2) by auto
  obtain w2 k2 where w2: "run_all (do_action os u c) (if body = [] then [] else [Write_bytes body]) w1 = Some (Inr w2)"
    "open_conn c fd (head @ body) log (space - length head - length body) w2 k2" "around w2 k2 = around w k"
    "is_writing (c_channel k2)"
  proof (cases "body = []")
    case True
    then show ?thesis using that [of w1 k1] w1(2-4) by simp
  next
    case False
    obtain w2 k2 where "do_action os u c (Write_bytes body) w1 = Some (Inr w2)"
      "open_conn c fd (head @ body) log (space - length head - length body) w2 k2" "around w2 k2 = around w1 k1"
      "is_writing (c_channel k2)"
      using do_write [OF w1(2), of body os u] assms(2) by (auto simp: le_diff_conv2 dest: add_leD1)
    then show ?thesis using that [of w2 k2] False w1(3) by simp
  qed
  obtain w3 where w3: "do_action os u c Set_write_done w2 = Some (Inr w3)"
    "open_conn c fd (head @ body) log (space - length head - length body) w3 (k2\<lparr>c_wdcb := True\<rparr>)"
    "around w3 (k2\<lparr>c_wdcb := True\<rparr>) = around w k"
    using do_set_write_done [OF w2(2)] w2(3) by metis
  have "open_conn c fd (head @ body) log 0 w3 (k2\<lparr>c_wdcb := True\<rparr>)"
    using w3(2) by (simp add: open_conn_def)
  moreover have "run_all (do_action os u c)
       ([Write_bytes head] @ (if body = [] then [] else [Write_bytes body]) @ [Set_write_done]) w = Some (Inr w3)"
    using w1(1) w2(1) w3(1) by (simp add: run_all_append)
  ultimately show ?thesis
    using w2(4) w3(3) by (intro exI [of _ w3] exI [of _ "k2\<lparr>c_wdcb := True\<rparr>"]) simp
qed

text \<open>Everything is written, the write-done callback closes the connection.\<close>

lemma write_closes:
  assumes "open_conn c fd s log space w k" "c_wdcb k" "os_accepts os" "\<And>i. os_shutdown os i"
  shows "\<exists>w1 k1 chunks.
     WriteToPeer os (server_user_calls os (http_calls bo date srv os)) c w = Some (Inr w1) \<and>
     conns w1 = (conns w)(c \<mapsto> k1) \<and> InLoopThread w1 \<and> functors w1 = [F_destroy c] \<and> c_state k1 = kDisconnected \<and> c_fd k1 = fd \<and>
     net_log w1 = log @ map (Wrote fd) chunks @ [Shut_read fd] \<and> concat chunks = s \<and>
     kept w1 = kept w \<and> p_channels w1 = p_channels w \<and> srv_connections w1 = (srv_connections w)(fd := None) \<and>
     ch_fd (c_channel k1) = ch_fd (c_channel k) \<and> ch_revents (c_channel k1) = ch_revents (c_channel k)"
proof -
  note o = assms(1) [unfolded open_conn_def]
  let ?u = "server_user_calls os (http_calls bo date srv os)"
  let ?uc = "server_user_calls os http_close_calls"
  have k: "InLoopThread w" "conns w c = Some k" "buffer_ok (c_write_buf k)" "c_zc_writed k \<le> c_zc_len k"
    "c_zc_fd k = - 1"
    using o by (simp_all add: served_def)
  obtain w1 b m chunks where w1:
     "WriteToPeer os ?u c w = call_user (c_wdcb k) (call_write_done ?u c)
       (set_events c (ch_events (c_channel k) AND NOT kWriteEvents) (all_sent k b) w1)"
     "w1 = w\<lparr>conns := (conns w)(c \<mapsto> all_sent k b), os_calls := m, net_log := net_log w @ map (Wrote (c_fd k)) chunks\<rparr>"
     "concat chunks = unread (c_write_buf k)"
    using WriteToPeer_all [OF assms(3) k(1-4), of ?u] k(5) by auto
  define ev where "ev = ch_events (c_channel k) AND NOT kWriteEvents"
  define w2 where "w2 = set_events c ev (all_sent k b) w1"
  define k2 where "k2 = (all_sent k b)\<lparr>c_channel := (c_channel (all_sent k b))\<lparr>ch_events := ev\<rparr>\<rparr>"
  have "served c (all_sent k b) w1"
    using o by (auto simp: served_def w1(2) all_sent_def InLoopThread_def)
  then have served: "served c k2 w2" unfolding w2_def k2_def by (rule served_events)
  have k2: "c_state k2 = kConnected" "c_fd k2 = fd" "ch_fd (c_channel k2) = ch_fd (c_channel k)"
    "ch_revents (c_channel k2) = ch_revents (c_channel k)"
    using o by (simp_all add: k2_def all_sent_def)
  have reg: "p_channels w1 (ch_fd (c_channel (all_sent k b))) \<noteq> None" using o by (simp add: w1(2) all_sent_def)
  have w2: "functors w2 = []" "net_log w2 = log @ map (Wrote fd) chunks" "kept w2 = kept w"
    "p_channels w2 = p_channels w" "srv_connections w2 = srv_connections w" "conns w2 = (conns w)(c \<mapsto> k2)"
    using o registered_stays(2) [OF reg, of c ev] by (simp_all add: w2_def world_simps w1(2) k2_def)
  have reg2: "p_channels w2 (ch_fd (c_channel k2)) \<noteq> None" using o w2(4) k2(3) by simp
  from ActiveClose_server [OF served k2(1) assms(4), of http_close_calls] w2 k2 reg2 obtain w3 ev2 where w3:
    "ActiveClose os ?uc c w2 = Some (Inr w3)" "conns w3 c = Some (closed_conn ev2 k2)" "InLoopThread w3"
    "functors w3 = [F_destroy c]" "net_log w3 = log @ map (Wrote fd) chunks @ [Shut_read fd]"
    "srv_connections w3 = (srv_connections w)(fd := None)" "kept w3 = kept w" "p_channels w3 = p_channels w"
    "conns w3 = (conns w2)(c \<mapsto> closed_conn ev2 k2)" by auto
  have "WriteToPeer os ?u c w = Some (Inr w3)"
    using w1(1) w3(1) assms(2)
    by (simp add: ev_def [symmetric] w2_def [symmetric] call_user_def server_user_calls_def http_calls_def
        WriteResponseDone_def do_action_def)
  then show ?thesis
    using w3 w1(3) o k2 w2(6)
    by (intro exI [of _ w3] exI [of _ "closed_conn ev2 k2"] exI [of _ chunks]) (simp add: closed_conn_def)
qed

text \<open>A response the server writes, and the bytes of the request that bring it.\<close>

definition answers ::
  "boost \<Rightarrow> string \<Rightarrow> http_server \<Rightarrow> string \<Rightarrow> string \<Rightarrow> string \<Rightarrow> bool" where
  "answers bo date srv request head body \<longleftrightarrow>
     (\<forall>b. buffer_ok b \<longrightarrow> unread b = request \<longrightarrow>
        (\<exists>evs b'. server_read bo date srv OnNewConnection b =
           Some (Inr ([Write_bytes head] @ (if body = [] then [] else [Write_bytes body]) @ [Set_write_done],
                      evs, None, b'))))"

text \<open>The round in which the request comes: afterwards the response waits in the write buffer.\<close>

lemma read_round:
  fixes w :: "(parsing_state, 'z) server_world_scheme"
  assumes "listening a lfd t x w" "served c k w" "k = entered names c fd new_parsing_state"
    and "p_channels w fd = Some c" "c \<noteq> a" "c \<noteq> ch_ptr wakeup"
    and "answers bo date srv request head body" "request \<noteq> []" "length request \<le> local_buf_len"
    and "\<And>i n. os_readv os i n = Inr request" "length head + length body \<le> 2 ^ 61"
    and "t \<le> now" "x + (now - t) < 2 ^ 31"
  defines "v \<equiv> http_calls bo date srv os"
  shows "\<exists>w1 k1. loop_round (run_functor os v) (handle_active wakeup os v) (Some [(fd, EPOLLIN)], now) w = Some (Inr (- 1, w1)) \<and>
     listening a lfd now (x + (now - t)) w1 \<and> open_conn c fd (head @ body) (net_log w) 0 w1 k1 \<and> c_wdcb k1 \<and>
     is_writing (c_channel k1) \<and> ch_wcb (c_channel k1) = Some On_write_to_peer \<and> ch_fd (c_channel k1) = fd \<and>
     p_channels w1 = p_channels w \<and> srv_connections w1 = srv_connections w"
proof -
  let ?u = "server_user_calls os v" and ?uc = "server_user_calls os http_close_calls"
  have l: "InLoopThread w" "functors w = []" "p_channels w lfd = Some a" "idle_wheel t x (timer_mgr w)" "period_functor w = None"
    using assms(1) by (simp_all add: listening_def)
  define kb where "kb = begin_handling EPOLLIN k"
  define w0 where "w0 = set_conn c kb (after_poll 1 w)"
  have kb: "c_read_buf kb = Buffer_init kDefaultReservedSize" "c_write_buf kb = Buffer_init kDefaultReservedSize"
    "c_rcb kb" "c_ctx kb = Some new_parsing_state" "c_fd kb = fd" "c_state kb = kConnected" "c_zc_fd kb = - 1"
    "c_zc_writed kb = c_zc_len kb" "c_ccb kb" "ch_fd (c_channel kb) = fd" "ch_wcb (c_channel kb) = Some On_write_to_peer"
    by (simp_all add: kb_def assms(3) entered_def begin_handling_def accepted_def new_connection_def Channel_init_def)
  have served0: "served c kb w0"
    using assms(2) kb(5,9) by (auto simp: w0_def served_def world_simps assms(3) entered_def accepted_def new_connection_def)
  have in_loop: "InLoopThread w0" "conns w0 c = Some kb" using served0 by (simp_all add: served_def)
  have fits: "length request \<le> length (internal_buf (c_read_buf kb)) - write_index (c_read_buf kb) + local_buf_len"
    using assms(9) by simp
  obtain b where b: "ReadFromPeer os ?u c w0 = call_user (c_rcb kb) (call_read ?u c)
      (set_conn c (kb\<lparr>c_read_buf := b\<rparr>) (count_call w0))"
    "buffer_ok b" "unread b = unread (c_read_buf kb) @ request"
    using ReadFromPeer_data [OF in_loop _ _ assms(10,8) fits, of ?u] default_buffer(1,2) kb(1) by auto
  have "unread b = request" using b(3) kb(1) default_buffer(4) by simp
  then obtain evs b' where rd: "server_read bo date srv (Some new_parsing_state) b =
      Some (Inr ([Write_bytes head] @ (if body = [] then [] else [Write_bytes body]) @ [Set_write_done], evs, None, b'))"
    using assms(7) b(2) unfolding answers_def OnNewConnection_def by blast
  define k3 where "k3 = kb\<lparr>c_ctx := None, c_read_buf := b'\<rparr>"
  define w2 where "w2 = set_conn c k3 (set_conn c (kb\<lparr>c_read_buf := b\<rparr>) (count_call w0))"
  have room: "2 ^ 61 \<le> buffer_space (Buffer_init kDefaultReservedSize)"
    by (simp add: buffer_space_def vector_max_size_def Buffer_init_def kDefaultReservedSize_def)
  have k3: "c_fd k3 = fd" "c_ccb k3" "c_state k3 = kConnected" "c_zc_fd k3 = - 1" "c_zc_writed k3 = c_zc_len k3"
    "c_write_buf k3 = Buffer_init kDefaultReservedSize" "ch_fd (c_channel k3) = fd"
    using kb by (simp_all add: k3_def)
  have "served c k3 w2"
    using served0 k3(1,2) kb(5) by (simp add: w2_def served_def world_simps)
  moreover have "functors w2 = []" "net_log w2 = net_log w" "p_channels w2 = p_channels w"
    using l(2) by (simp_all add: w2_def w0_def world_simps)
  ultimately have start: "open_conn c fd [] (net_log w) (2 ^ 61) w2 k3"
    using k3 room default_buffer assms(4) by (simp add: open_conn_def)
  obtain w3 k4 where w3: "run_all (do_action os ?uc c)
       ([Write_bytes head] @ (if body = [] then [] else [Write_bytes body]) @ [Set_write_done]) w2 = Some (Inr w3)"
     "open_conn c fd (head @ body) (net_log w) 0 w3 k4" "c_wdcb k4" "around w3 k4 = around w2 k3" "is_writing (c_channel k4)"
    using do_response [OF start assms(11)] by blast
  have "ReadFromPeer os ?u c w0 = http_read bo date srv os ?uc c (set_conn c (kb\<lparr>c_read_buf := b\<rparr>) (count_call w0))"
    using b(1) kb(3) by (simp add: call_user_def server_user_calls_def http_calls_def v_def)
  also have "\<dots> = run_all (do_action os ?uc c)
       ([Write_bytes head] @ (if body = [] then [] else [Write_bytes body]) @ [Set_write_done]) w2"
    using rd kb(4) by (simp add: http_read_def with_conn_def world_simps w2_def k3_def)
  finally have read: "run_callback os ?u c On_read_from_peer w0 = Some (Inr w3)"
    using w3(1) by (simp add: run_callback_def)
  have conns: "conns (after_poll 1 w) c = Some k" "conns w3 c = Some k4"
    using assms(2) w3(2) by (simp_all add: served_def open_conn_def world_simps)
  have "ch_rcb (c_channel k) = Some On_read_from_peer" by (simp add: assms(3) entered_def accepted_def)
  from handled_read [OF conns(1) this read [unfolded w0_def kb_def] conns(2)]
  have "handle_channel os ?u (c, EPOLLIN) (after_poll 1 w) = Some (Inr (set_conn c (stop_handling k4) w3))" .
  then have handled: "handle_active wakeup os v (c, EPOLLIN) (after_poll 1 w) = Some (Inr (set_conn c (stop_handling k4) w3))"
    using assms(1,5,6) by (auto simp: handle_active_def listening_def world_simps split: option.splits)
  define w4 where "w4 = no_calls_left (set_conn c (stop_handling k4) w3)"
  have pending: "CallPendingFunctors exec (set_conn c (stop_handling k4) w3) = Some (Inr w4)" for exec
    unfolding w4_def by (rule CallPending_none) (use w3(2) in \<open>simp add: open_conn_def world_simps\<close>)
  have "kept w3 = kept w" and pc: "p_channels w3 = p_channels w" "srv_connections w3 = srv_connections w"
    and ch: "ch_fd (c_channel k4) = fd" "ch_wcb (c_channel k4) = Some On_write_to_peer"
    using w3(4) k3(7) kb(11) by (simp_all add: around_def w2_def w0_def world_simps) (simp add: k3_def)
  then have kept: "kept w4 = kept w" "period_functor (set_conn c (stop_handling k4) w3) = None"
    using l(5) by (simp_all add: w4_def world_simps) (simp add: kept_def set_conn_def)
  have in_loop4: "InLoopThread w4" "functors w4 = []" "p_channels w4 = p_channels w"
    using w3(2) pc(1) by (simp_all add: w4_def open_conn_def served_def world_simps)
  have "listening a lfd t x w4"
    by (rule listening_kept [OF assms(1) in_loop4(1,2) kept(1)]) (simp add: in_loop4(3) l(3))
  then have idle: "idle_wheel t x (timer_mgr w4)" by (simp add: listening_def)
  from one_round [where handle = "handle_active wakeup os v" and ev = EPOLLIN and exec = "run_functor os v",
      OF assms(4) handled kept(2) pending idle assms(12,13)] obtain tm where tm:
    "loop_round (run_functor os v) (handle_active wakeup os v) (Some [(fd, EPOLLIN)], now) w = Some (Inr (- 1, w4\<lparr>timer_mgr := tm\<rparr>))"
    "idle_wheel now (x + (now - t)) tm" by blast
  have "listening a lfd now (x + (now - t)) (w4\<lparr>timer_mgr := tm\<rparr>)"
    using \<open>listening a lfd t x w4\<close> tm(2) by (simp add: listening_def InLoopThread_def)
  moreover have "open_conn c fd (head @ body) (net_log w) 0 (w4\<lparr>timer_mgr := tm\<rparr>) (stop_handling k4)"
    using w3(2) by (auto simp: open_conn_def served_def w4_def no_calls_left_def set_conn_def stop_handling_def InLoopThread_def)
  ultimately show ?thesis
    using tm(1) w3(3,5) ch pc
    by (intro exI [of _ "w4\<lparr>timer_mgr := tm\<rparr>"] exI [of _ "stop_handling k4"])
      (simp add: stop_handling_def is_writing_def w4_def no_calls_left_def set_conn_def)
qed

text \<open>The round in which the socket takes the response, the connection is closed and forgotten.\<close>

lemma write_round:
  fixes w :: "(parsing_state, 'z) server_world_scheme"
  assumes "listening a lfd t x w" "open_conn c fd s log space w k" "c_wdcb k"
    and "ch_wcb (c_channel k) = Some On_write_to_peer" "ch_fd (c_channel k) = fd"
    and "p_channels w fd = Some c" "c \<noteq> a" "c \<noteq> ch_ptr wakeup"
    and "os_accepts os" "\<And>i. os_shutdown os i" "t \<le> now" "x + (now - t) < 2 ^ 31"
    and "v = http_calls bo date srv os"
  shows "\<exists>w1 chunks. loop_round (run_functor os v) (handle_active wakeup os v) (Some [(fd, EPOLLOUT)], now) w = Some (Inr (- 1, w1)) \<and>
     listening a lfd now (x + (now - t)) w1 \<and> concat chunks = s \<and>
     net_log w1 = log @ map (Wrote fd) chunks @ [Shut_read fd, Shut_write fd, Fd_closed fd] \<and>
     conns w1 = (conns w)(c := None) \<and> srv_connections w1 = (srv_connections w)(fd := None) \<and>
     p_channels w1 = (p_channels w)(fd := None)"
proof -
  let ?u = "server_user_calls os v"
  have l: "p_channels w lfd = Some a" "period_functor w = None" using assms(1) by (simp_all add: listening_def)
  have "fd \<noteq> lfd" using l(1) assms(6,7) by auto
  define kb where "kb = begin_handling EPOLLOUT k"
  define w0 where "w0 = set_conn c kb (after_poll 1 w)"
  have o0: "open_conn c fd s log space w0 kb" "c_wdcb kb"
    using assms(2,3) by (auto simp: open_conn_def w0_def kb_def begin_handling_def served_def world_simps)
  obtain w1 k1 chunks where w1: "WriteToPeer os ?u c w0 = Some (Inr w1)"
     "conns w1 = (conns w0)(c \<mapsto> k1)" "InLoopThread w1" "functors w1 = [F_destroy c]" "c_state k1 = kDisconnected"
     "c_fd k1 = fd" "net_log w1 = log @ map (Wrote fd) chunks @ [Shut_read fd]" "concat chunks = s"
     "kept w1 = kept w0" "p_channels w1 = p_channels w0" "srv_connections w1 = (srv_connections w0)(fd := None)"
     "ch_fd (c_channel k1) = ch_fd (c_channel kb)" "ch_revents (c_channel k1) = ch_revents (c_channel kb)"
    using write_closes [OF o0 assms(9,10), of bo date srv] unfolding assms(13) by blast
  have conns: "conns (after_poll 1 w) c = Some k" "conns w1 c = Some k1" "ch_revents (c_channel k1) = EPOLLOUT"
    using assms(2) w1(2,13) by (simp_all add: open_conn_def served_def world_simps kb_def begin_handling_def)
  have "run_callback os ?u c On_write_to_peer (set_conn c (begin_handling EPOLLOUT k) (after_poll 1 w)) = Some (Inr w1)"
    using w1(1) by (simp add: run_callback_def w0_def kb_def)
  from handled_write [OF conns(1) assms(4) this conns(2,3)]
  have handled: "handle_active wakeup os v (c, EPOLLOUT) (after_poll 1 w) = Some (Inr (set_conn c (stop_handling k1) w1))"
    using assms(1,7,8) by (auto simp: handle_active_def listening_def world_simps split: option.splits)
  define w2 where "w2 = set_conn c (stop_handling k1) w1"
  have k2: "conns w2 c = Some (stop_handling k1)" "c_state (stop_handling k1) = kDisconnected"
    "\<not> ch_handling_events (c_channel (stop_handling k1))" "ch_fd (c_channel (stop_handling k1)) = fd"
    "c_fd (stop_handling k1) = fd"
    using w1(5,6,12) assms(5) by (simp_all add: w2_def world_simps stop_handling_def kb_def begin_handling_def)
  have w2: "functors w2 = [F_destroy c]" "InLoopThread w2" "p_channels w2 (ch_fd (c_channel (stop_handling k1))) \<noteq> None"
    "kept w2 = kept w" "p_channels w2 = p_channels w" "srv_connections w2 = (srv_connections w)(fd := None)"
    "net_log w2 = log @ map (Wrote fd) chunks @ [Shut_read fd]" "(conns w2)(c := None) = (conns w)(c := None)"
    using w1 k2(4) assms(6) by (simp_all add: w2_def world_simps w0_def)
  from Destroy_pending [OF w2(1,2) k2(1,2) assms(10) w2(3) k2(3), of v] obtain w3 where w3:
    "CallPendingFunctors (run_functor os v) w2 = Some (Inr w3)" "conns w3 = (conns w)(c := None)"
    "net_log w3 = log @ map (Wrote fd) chunks @ [Shut_read fd, Shut_write fd, Fd_closed fd]"
    "srv_connections w3 = (srv_connections w)(fd := None)" "p_channels w3 = (p_channels w)(fd := None)"
    "functors w3 = []" "InLoopThread w3" "kept w3 = kept w"
    unfolding k2(4,5) w2(4-8) by auto
  have "listening a lfd t x w3"
    by (rule listening_kept [OF assms(1) w3(7,6,8)]) (simp add: w3(5) l(1) \<open>fd \<noteq> lfd\<close> [symmetric])
  then have idle: "idle_wheel t x (timer_mgr w3)" by (simp add: listening_def)
  have "period_functor w2 = None" using w2(4) l(2) by (simp add: kept_def)
  from one_round [where handle = "handle_active wakeup os v" and ev = EPOLLOUT and exec = "run_functor os v",
      OF assms(6) handled [folded w2_def] this w3(1) idle assms(11,12)] obtain tm where tm:
    "loop_round (run_functor os v) (handle_active wakeup os v) (Some [(fd, EPOLLOUT)], now) w = Some (Inr (- 1, w3\<lparr>timer_mgr := tm\<rparr>))"
    "idle_wheel now (x + (now - t)) tm" by blast
  have "listening a lfd now (x + (now - t)) (w3\<lparr>timer_mgr := tm\<rparr>)"
    using \<open>listening a lfd t x w3\<close> tm(2) by (simp add: listening_def InLoopThread_def)
  then show ?thesis
    using tm(1) w1(8) w3 by (intro exI [of _ "w3\<lparr>timer_mgr := tm\<rparr>"] exI [of _ chunks]) simp
qed

text \<open>From the connection of a client to its end: three rounds.\<close>

lemma three_rounds:
  fixes w :: "(parsing_state, 'z) server_world_scheme"
  assumes "listening a lfd t x w" "c = os_address os (os_calls w + 2)" "c \<noteq> a" "c \<noteq> ch_ptr wakeup" "a \<noteq> ch_ptr wakeup"
    and "\<And>i. os_accept os i = fd" "\<And>i. os_fcntl os i fd" "srv_connections w fd = None" "p_channels w fd = None"
    and "os_accepts os" "\<And>i. os_shutdown os i"
    and "answers bo date srv request head body" "request \<noteq> []" "length request \<le> local_buf_len"
    and "\<And>i n. os_readv os i n = Inr request" "length head + length body \<le> 2 ^ 61"
    and "t \<le> t1" "t1 \<le> t2" "t2 \<le> t3" "x + (t3 - t) < 2 ^ 31" "named os (os_calls w + 2) fd names"
  defines "v \<equiv> http_calls bo date srv os"
  defines "round \<equiv> \<lambda>ev now w. loop_round (run_functor os v) (handle_active wakeup os v) (Some [ev], now) w"
  shows "\<exists>w1 w2 w3 k1 k2 chunks.
     round (lfd, EPOLLIN) t1 w = Some (Inr (- 1, w1)) \<and> conns w1 c = Some k1 \<and> is_reading (c_channel k1) \<and>
     round (fd, EPOLLIN) t2 w1 = Some (Inr (- 1, w2)) \<and> conns w2 c = Some k2 \<and> is_writing (c_channel k2) \<and>
     round (fd, EPOLLOUT) t3 w2 = Some (Inr (- 1, w3)) \<and>
     net_log w3 = net_log w @ map (Wrote fd) chunks @ [Shut_read fd, Shut_write fd, Fd_closed fd] \<and>
     concat chunks = head @ body \<and> listening a lfd t3 (x + (t3 - t)) w3 \<and>
     conns w3 c = None \<and> srv_connections w3 = srv_connections w \<and> p_channels w3 = p_channels w"
proof -
  let ?k = "entered names c fd new_parsing_state"
  have new: "\<And>w. on_new v c w = set_context c new_parsing_state w"
    by (simp add: v_def http_calls_def http_close_calls_def http_new_connection_def OnNewConnection_def)
  have "x + (t1 - t) < 2 ^ 31" using assms(17-20) by linarith
  from accept_round [where v = v, OF assms(1,5,6,7,8,9,2) new assms(17) this assms(21)] obtain w1 where w1:
    "round (lfd, EPOLLIN) t1 w = Some (Inr (- 1, w1))" "listening a lfd t1 (x + (t1 - t)) w1" "served c ?k w1"
    "net_log w1 = net_log w" "srv_connections w1 = (srv_connections w)(fd \<mapsto> c)" "p_channels w1 = (p_channels w)(fd \<mapsto> c)"
    unfolding round_def by blast
  have "x + (t1 - t) + (t2 - t1) < 2 ^ 31" using assms(17-20) by linarith
  moreover have "p_channels w1 fd = Some c" using w1(6) by simp
  ultimately obtain w2 k2 where w2: "round (fd, EPOLLIN) t2 w1 = Some (Inr (- 1, w2))"
    "listening a lfd t2 (x + (t1 - t) + (t2 - t1)) w2" "open_conn c fd (head @ body) (net_log w1) 0 w2 k2" "c_wdcb k2"
    "is_writing (c_channel k2)" "ch_wcb (c_channel k2) = Some On_write_to_peer" "ch_fd (c_channel k2) = fd"
    "p_channels w2 = p_channels w1" "srv_connections w2 = srv_connections w1"
    using read_round [OF w1(2,3) refl _ assms(3,4,12-16,18)] unfolding round_def v_def by blast
  have "x + (t1 - t) + (t2 - t1) + (t3 - t2) < 2 ^ 31" using assms(17-20) by linarith
  moreover have "p_channels w2 fd = Some c" using w2(8) w1(6) by simp
  ultimately obtain w3 chunks where w3: "round (fd, EPOLLOUT) t3 w2 = Some (Inr (- 1, w3))"
    "listening a lfd t3 (x + (t1 - t) + (t2 - t1) + (t3 - t2)) w3" "concat chunks = head @ body"
    "net_log w3 = net_log w1 @ map (Wrote fd) chunks @ [Shut_read fd, Shut_write fd, Fd_closed fd]"
    "conns w3 = (conns w2)(c := None)" "srv_connections w3 = (srv_connections w2)(fd := None)"
    "p_channels w3 = (p_channels w2)(fd := None)"
    using write_round [OF w2(2,3,4,6,7) _ assms(3,4,10,11,19) _ meta_eq_to_obj_eq [OF v_def]] unfolding round_def by blast
  have sum: "x + (t1 - t) + (t2 - t1) + (t3 - t2) = x + (t3 - t)" using assms(17-19) by linarith
  have "listening a lfd t3 (x + (t3 - t)) w3" using w3(2) unfolding sum .
  moreover have "conns w1 c = Some ?k" "conns w2 c = Some k2"
    using w1(3) w2(3) by (simp_all add: served_def open_conn_def)
  moreover have "is_reading (c_channel ?k)" by (simp add: entered_def is_reading_def kReadEvents_def)
  moreover have "srv_connections w3 = srv_connections w" "p_channels w3 = p_channels w"
    using w3(6,7) w2(8,9) w1(5,6) assms(8,9) by (auto simp: fun_eq_iff)
  ultimately show ?thesis
    using w1(1) w2(1,5) w3(1,3-5) w1(4)
    by (intro exI [of _ w1] exI [of _ w2] exI [of _ w3] exI [of _ ?k] exI [of _ k2] exI [of _ chunks]) simp
qed

definition request_ok :: "string \<Rightarrow> nat \<Rightarrow> nat \<Rightarrow> (string \<times> string) list \<Rightarrow> bool" where
  "request_ok p major minor hs \<longleftrightarrow>
     token_ok p \<and> p \<noteq> [] \<and> major \<le> 1 \<and> minor \<le> 1 \<and> list_all header_ok hs \<and>
     map_of (lowered hs) ''content-length'' = None"

text \<open>The response to a file.\<close>

definition file_response :: "string \<Rightarrow> http_response" where
  "file_response bytes = (HTTPResponse_init 200)\<lparr>res_body := bytes, res_body_length := length bytes\<rparr>"

lemma file_answers:
  assumes "boost_documented bo" "request_ok p major minor hs"
    and "verdict psx base ''GET'' p major minor (map_of (lowered hs) ''host'') = Inr q"
    and "sys_stat psx (c_str (base @ q)) = Inr sb" "st_size sb < zero_copy_file_min_size"
    and "0 \<le> sys_open psx (c_str (base @ q))"
    and "sys_pread psx (sys_open psx (c_str (base @ q))) (st_size sb) = Some bytes" "length bytes = st_size sb"
  shows "answers bo date (file_server psx base) (render_request ''GET'' p major minor hs [])
     (EncodeResponse bo date (file_response bytes)) bytes"
  unfolding answers_def
proof (intro allI impI)
  fix b
  assume b: "buffer_ok b" "unread b = render_request ''GET'' p major minor hs []"
  have "token_ok ''GET''" by (simp add: token_ok_def)
  then have arrived: "request_arrived bo b ''GET'' p major minor hs"
    using assms(1,2) b by (simp add: request_arrived_def request_ok_def)
  have p: "p \<noteq> []" "major \<le> 1" "minor \<le> 1" using assms(2) by (simp_all add: request_ok_def)
  from serves_small_file [OF arrived p assms(3-5) refl assms(6-8), of date]
  show "\<exists>evs b'. server_read bo date (file_server psx base) OnNewConnection b =
      Some (Inr ([Write_bytes (EncodeResponse bo date (file_response bytes))] @
                 (if bytes = [] then [] else [Write_bytes bytes]) @ [Set_write_done], evs, None, b'))"
    by (auto simp: file_response_def)
qed

section \<open>A concrete server\<close>

text \<open>A directory \<open>/w\<close> with one small file, and a client that asks for it.\<close>

definition demo_request :: string where
  "demo_request = render_request ''GET'' ''/a'' 1 0 [] []"

definition demo_net :: os_net where
  "demo_net = easy_net (Inr demo_request) None"

definition demo_files :: posix where
  "demo_files = one_file ''/w/a'' 2 ''hi''"

definition demo_calls :: "(parsing_state, unit) server_calls" where
  "demo_calls = http_calls reference_boost ''now'' (file_server demo_files ''/w'') demo_net"

text \<open>The loop at address 1 has the wake-up channel; the server is started on it.\<close>

definition demo_wakeup :: "unit channel" where
  "demo_wakeup = (Channel_init 1 4)\<lparr>ch_rcb := Some (), ch_events := kReadEvents\<rparr>"

definition demo_http :: "parsing_state server_world" where
  "demo_http = started_server demo_net demo_calls"

definition demo_round ::
  "int \<times> 32 word \<Rightarrow> nat \<Rightarrow> parsing_state server_world \<Rightarrow> (int \<times> parsing_state server_world) run" where
  "demo_round ev now = loop_round (run_functor demo_net demo_calls) (handle_active demo_wakeup demo_net demo_calls) (Some [ev], now)"

lemma demo_http_listens:
  "listening 13 3 0 0 demo_http" "os_calls demo_http = 4" "srv_connections demo_http = Map.empty"
  "p_channels demo_http = [3 \<mapsto> 13]"
  unfolding demo_http_def
  by (rule started_listens; simp add: demo_net_def easy_net_def)+

lemma demo_head_short:
  "length (EncodeResponse reference_boost ''now'' (file_response ''hi'')) \<le> 1000"
  by code_simp

lemma demo_request_short: "length demo_request \<le> local_buf_len"
proof -
  have "length (decimal 1) = 1" "length (decimal 0) = 1" by (simp_all add: decimal.simps)
  then show ?thesis
    by (simp add: demo_request_def render_request_def render_line_def HEADER_SEP_def local_buf_len_def)
qed

end
