(* ===== verification/Server_Pool.thy ===== *)
theory Server_Pool
  imports Tcp_Rounds
begin

text \<open>
  The server with a pool of loops (src/fx_tcp_server.cc, src/fx_event_loop_thread_pool.cc): the base
  loop accepts, every loop of the pool runs in a thread of its own. What the base thread
  hands to a loop waits in \<open>posted\<close> until it holds the mutex of that loop; the loop takes
  its functors out and calls them one by one. The threads are interleaved in every way.
\<close>

unbundle bit_operations_syntax

section \<open>The threads\<close>

text \<open>The connections are shared. \<open>in_calls\<close> are the functors a loop has taken out and not called yet.\<close>

record 'x pool_world =
  base_world :: "'x server_world"
  pool_loop :: "nat \<Rightarrow> loop_functor event_loop"
  in_calls :: "nat \<Rightarrow> loop_functor list"

text \<open>The world as the thread of the loop \<open>l\<close> sees it.\<close>

definition at_loop :: "('f, 'y) event_loop_scheme \<Rightarrow> ('f, 'z) event_loop_scheme \<Rightarrow> ('f, 'z) event_loop_scheme" where
  "at_loop l w =
     w\<lparr>p_channels := p_channels l, p_events_size := p_events_size l, epoll_calls := epoll_calls l,
       calling_functors := calling_functors l, loop_thread := loop_thread l, this_thread := this_thread l,
       functors := functors l, period_functor := period_functor l, wakeups := wakeups l, quit_flag := quit_flag l,
       timer_mgr := timer_mgr l, started := started l, iteration := iteration l\<rparr>"

definition queue_from :: "nat \<Rightarrow> 'f \<Rightarrow> 'f event_loop \<Rightarrow> 'f event_loop" where
  "queue_from t f l = (QueueInLoop f (l\<lparr>this_thread := t\<rparr>))\<lparr>this_thread := this_thread l\<rparr>"

text \<open>The loop \<open>i\<close> has called a functor and has \<open>fs\<close> left; \<open>w\<close> is what its thread sees.\<close>

definition after_call :: "'x pool_world \<Rightarrow> nat \<Rightarrow> loop_functor list \<Rightarrow> 'x server_world \<Rightarrow> 'x pool_world" where
  "after_call s i fs w =
     s\<lparr>base_world := at_loop (base_world s) w, pool_loop := (pool_loop s)(i := event_loop.truncate w),
       in_calls := (in_calls s)(i := fs)\<rparr>"

inductive pool_step :: "os_net \<Rightarrow> ('x, unit) server_calls \<Rightarrow> 'x pool_world \<Rightarrow> 'x pool_world \<Rightarrow> bool" for os v where
  base_accepts: "server_accept os v (base_world s) = Some (Inr w) \<Longrightarrow> pool_step os v s (s\<lparr>base_world := w\<rparr>)"
| base_posts: "posted (base_world s) = (i, f) # fs \<Longrightarrow>
    pool_step os v s (s\<lparr>base_world := (base_world s)\<lparr>posted := fs\<rparr>,
      pool_loop := (pool_loop s)(i := queue_from (loop_thread (base_world s)) f (pool_loop s i))\<rparr>)"
| pool_takes: "\<not> calling_functors (pool_loop s i) \<Longrightarrow> begin_calls (pool_loop s i) = (fs, l) \<Longrightarrow>
    pool_step os v s (s\<lparr>pool_loop := (pool_loop s)(i := l), in_calls := (in_calls s)(i := fs)\<rparr>)"
| pool_calls: "in_calls s i = f # fs \<Longrightarrow>
    run_functor os v f (at_loop (pool_loop s i) (base_world s)) = Some (Inr w) \<Longrightarrow>
    pool_step os v s (after_call s i fs w)"
| pool_ends: "calling_functors (pool_loop s i) \<Longrightarrow> in_calls s i = [] \<Longrightarrow>
    pool_step os v s (s\<lparr>pool_loop := (pool_loop s)(i := end_calls (pool_loop s i))\<rparr>)"

text \<open>What a loop still has to do, in order.\<close>

definition waiting :: "'x pool_world \<Rightarrow> nat \<Rightarrow> loop_functor list" where
  "waiting s i = in_calls s i @ functors (pool_loop s i) @ map snd (filter (\<lambda>p. fst p = i) (posted (base_world s)))"

text \<open>The \<open>j\<close>-th connection accepted after the call \<open>n\<close> of the system.\<close>

definition nth_fd :: "os_net \<Rightarrow> nat \<Rightarrow> nat \<Rightarrow> int" where
  "nth_fd os n j = os_accept os (n + 2 * j)"

definition nth_conn :: "os_net \<Rightarrow> nat \<Rightarrow> nat \<Rightarrow> nat" where
  "nth_conn os n j = os_address os (n + 2 * j + 2)"

definition about :: "nat \<Rightarrow> loop_functor \<Rightarrow> bool" where
  "about c f \<longleftrightarrow> f = F_new_connection c \<or> f = F_enable_reading c"

text \<open>A network whose clients stay until they are set up; no descriptor or address is used twice.\<close>

definition willing :: "os_net \<Rightarrow> bool" where
  "willing os \<longleftrightarrow>
     inj (os_accept os) \<and> inj (os_address os) \<and> (\<forall>i j. os_fcntl os i (os_accept os j)) \<and>
     (\<forall>i fd. os_getsockname os i fd \<noteq> None \<and> os_getpeername os i fd \<noteq> None)"

lemma nth_distinct [simp]:
  assumes "willing os"
  shows "nth_fd os n j = nth_fd os n j' \<longleftrightarrow> j = j'" "nth_conn os n j = nth_conn os n j' \<longleftrightarrow> j = j'"
  using assms by (auto simp: willing_def nth_fd_def nth_conn_def inj_eq)

lemma about_one: "about c f \<Longrightarrow> about c' f \<longleftrightarrow> c' = c"
  by (auto simp: about_def)

lemma at_loop_parts [world_simps]:
  fixes w :: "'x server_world"
  shows "conns (at_loop l w) = conns w" "os_calls (at_loop l w) = os_calls w" "posted (at_loop l w) = posted w"
    "srv_connections (at_loop l w) = srv_connections w" "srv_conn_loop (at_loop l w) = srv_conn_loop w"
    "srv_pool (at_loop l w) = srv_pool w" "srv_nccb (at_loop l w) = srv_nccb w" "srv_rcb (at_loop l w) = srv_rcb w"
    "srv_acceptor (at_loop l w) = srv_acceptor w" "InLoopThread (at_loop l w) = InLoopThread l"
    "p_channels (at_loop l w) = p_channels l" "functors (at_loop l w) = functors l"
    "calling_functors (at_loop l w) = calling_functors l"
  by (simp_all add: at_loop_def InLoopThread_def)

lemma truncate_parts [world_simps]:
  "InLoopThread (event_loop.truncate w) = InLoopThread w" "p_channels (event_loop.truncate w) = p_channels w"
  "functors (event_loop.truncate w) = functors w" "calling_functors (event_loop.truncate w) = calling_functors w"
  by (simp_all add: event_loop.defs InLoopThread_def)

lemma queue_from_parts [world_simps]:
  "InLoopThread (queue_from t f l) = InLoopThread l" "p_channels (queue_from t f l) = p_channels l"
  "functors (queue_from t f l) = functors l @ [f]" "calling_functors (queue_from t f l) = calling_functors l"
  by (simp_all add: queue_from_def QueueInLoop_def WakeUp_def Let_def InLoopThread_def)

section \<open>How far a connection is\<close>

text \<open>\<open>k\<close> is the connection as \<open>OnNewConnection\<close> made it, \<open>ready k\<close> what the callback of the user makes
  of it. The callback comes first, then reading.\<close>

definition watched :: "'x connection \<Rightarrow> 'x connection" where
  "watched k = k\<lparr>c_channel := (c_channel k)\<lparr>ch_events := ch_events (c_channel k) OR kReadEvents\<rparr>\<rparr>"

definition setting_up ::
  "('x connection \<Rightarrow> 'x connection) \<Rightarrow> 'x connection \<Rightarrow> 'x pool_world \<Rightarrow> nat \<Rightarrow> nat \<Rightarrow> bool" where
  "setting_up ready k s i c \<longleftrightarrow>
     (let todo = filter (about c) (waiting s i); known = p_channels (pool_loop s i) (c_fd k);
          now = conns (base_world s) c in
      todo = [F_new_connection c, F_enable_reading c] \<and> now = Some k \<and> known = None \<or>
      todo = [F_enable_reading c] \<and> now = Some (ready k) \<and> known = None \<or>
      todo = [] \<and> now = Some (watched (ready k)) \<and> known = Some c)"

definition pool_ok :: "nat \<Rightarrow> nat \<Rightarrow> 'x server_world \<Rightarrow> bool" where
  "pool_ok n m w \<longleftrightarrow>
     InLoopThread w \<and> srv_nccb w \<and> ac_nccb (srv_acceptor w) \<and>
     loop_thread_count (srv_pool w) = n \<and> loops (srv_pool w) = map Pool_loop [0..<n] \<and> next_loop (srv_pool w) = m mod n"

definition pool_inv ::
  "os_net \<Rightarrow> ('x connection \<Rightarrow> 'x connection) \<Rightarrow> nat \<Rightarrow> nat \<Rightarrow> nat \<Rightarrow> 'x pool_world \<Rightarrow> bool" where
  "pool_inv os ready n start m s \<longleftrightarrow>
     pool_ok n m (base_world s) \<and> os_calls (base_world s) = start + 2 * m \<and>
     (\<forall>fd. srv_connections (base_world s) fd = None \<longleftrightarrow> fd \<notin> nth_fd os start ` {..<m}) \<and>
     (\<forall>i. InLoopThread (pool_loop s i) \<and> (in_calls s i = [] \<or> calling_functors (pool_loop s i))) \<and>
     (\<forall>j<m. srv_connections (base_world s) (nth_fd os start j) = Some (nth_conn os start j) \<and>
        srv_conn_loop (base_world s) (nth_conn os start j) = Pool_loop (j mod n) \<and>
        (\<exists>names. setting_up ready (accepted names (nth_conn os start j) (nth_fd os start j) (srv_rcb (base_world s))) s
           (j mod n) (nth_conn os start j))) \<and>
     (\<forall>i. \<forall>f\<in>set (waiting s i). \<exists>j<m. i = j mod n \<and> about (nth_conn os start j) f) \<and>
     (\<forall>i j. p_channels (pool_loop s i) (nth_fd os start j) \<noteq> None \<longrightarrow> j < m \<and> i = j mod n)"

lemma pool_invD:
  assumes "pool_inv os ready n start m s"
  shows "pool_ok n m (base_world s)" "os_calls (base_world s) = start + 2 * m"
    "srv_connections (base_world s) fd = None \<longleftrightarrow> fd \<notin> nth_fd os start ` {..<m}"
    "InLoopThread (pool_loop s i)" "in_calls s i = [] \<or> calling_functors (pool_loop s i)"
    "j < m \<Longrightarrow> srv_connections (base_world s) (nth_fd os start j) = Some (nth_conn os start j)"
    "j < m \<Longrightarrow> srv_conn_loop (base_world s) (nth_conn os start j) = Pool_loop (j mod n)"
    "j < m \<Longrightarrow> \<exists>names. setting_up ready (accepted names (nth_conn os start j) (nth_fd os start j) (srv_rcb (base_world s))) s
           (j mod n) (nth_conn os start j)"
    "f \<in> set (waiting s i) \<Longrightarrow> \<exists>j<m. i = j mod n \<and> about (nth_conn os start j) f"
    "p_channels (pool_loop s i) (nth_fd os start j) \<noteq> None \<Longrightarrow> j < m \<and> i = j mod n"
  using assms by (simp_all only: pool_inv_def)

text \<open>Steps that only move functors.\<close>

definition shared where
  "shared w = (conns w, os_calls w, srv_connections w, srv_conn_loop w, srv_pool w, srv_nccb w, srv_rcb w,
     ac_nccb (srv_acceptor w), InLoopThread w)"

lemma pool_inv_moves:
  assumes "pool_inv os ready n start m s" "shared (base_world s') = shared (base_world s)" "\<And>i. waiting s' i = waiting s i"
    and "\<And>i. p_channels (pool_loop s' i) = p_channels (pool_loop s i)" "\<And>i. InLoopThread (pool_loop s' i)"
    and "\<And>i. in_calls s' i = [] \<or> calling_functors (pool_loop s' i)"
  shows "pool_inv os ready n start m s'"
proof -
  have "setting_up ready k s' i c = setting_up ready k s i c" for k i c
    using assms(2-4) by (simp add: setting_up_def shared_def)
  then show ?thesis
    using assms unfolding pool_inv_def by (simp add: shared_def pool_ok_def)
qed

lemma waiting_posts:
  assumes "posted (base_world s) = (i, f) # fs"
  shows "waiting (s\<lparr>base_world := (base_world s)\<lparr>posted := fs\<rparr>,
      pool_loop := (pool_loop s)(i := queue_from t f (pool_loop s i))\<rparr>) j = waiting s j"
  using assms by (simp add: waiting_def world_simps)

lemma pool_posts_keeps:
  assumes "pool_inv os ready n start m s" "posted (base_world s) = (i, f) # fs"
  shows "pool_inv os ready n start m (s\<lparr>base_world := (base_world s)\<lparr>posted := fs\<rparr>,
      pool_loop := (pool_loop s)(i := queue_from t f (pool_loop s i))\<rparr>)"
  by (rule pool_inv_moves [OF assms(1)])
    (use assms in \<open>auto simp: waiting_posts shared_def pool_inv_def world_simps InLoopThread_def [of "_\<lparr>posted := _\<rparr>"]
       InLoopThread_def [of "base_world s"]\<close>)

lemma pool_takes_keeps:
  assumes "pool_inv os ready n start m s" "\<not> calling_functors (pool_loop s i)" "begin_calls (pool_loop s i) = (fs, l)"
  shows "pool_inv os ready n start m (s\<lparr>pool_loop := (pool_loop s)(i := l), in_calls := (in_calls s)(i := fs)\<rparr>)"
proof -
  have "in_calls s i = []" using assms(1,2) by (auto simp: pool_inv_def)
  then show ?thesis
    by (intro pool_inv_moves [OF assms(1)])
      (use assms in \<open>auto simp: begin_calls_def waiting_def pool_inv_def InLoopThread_def\<close>)
qed

lemma pool_ends_keeps:
  assumes "pool_inv os ready n start m s" "in_calls s i = []"
  shows "pool_inv os ready n start m (s\<lparr>pool_loop := (pool_loop s)(i := end_calls (pool_loop s i))\<rparr>)"
  by (rule pool_inv_moves [OF assms(1)])
    (use assms in \<open>auto simp: end_calls_def waiting_def pool_inv_def InLoopThread_def\<close>)

section \<open>Accepting\<close>

lemma next_in_turn:
  assumes "pool_ok n m w" "0 < n" "n < 2 ^ 32"
  shows "\<exists>pool. NextLoop (srv_pool w) = Inr (Pool_loop (m mod n), pool) \<and> loop_thread_count pool = n \<and>
     loops pool = map Pool_loop [0..<n] \<and> next_loop pool = Suc m mod n"
proof -
  have "m mod n < n" using assms(2) by simp
  moreover from this have "(m mod n + 1) mod 2 ^ 32 = Suc (m mod n)" using assms(3) by simp
  ultimately show ?thesis
    using assms(1,2) by (simp add: pool_ok_def NextLoop_def Let_def asserting_def mod_Suc)
qed

definition accepting_on_loop ::
  "net_address \<times> net_address \<Rightarrow> nat \<Rightarrow> loop_pool \<Rightarrow> nat \<Rightarrow> int \<Rightarrow> 'x server_world \<Rightarrow> 'x server_world" where
  "accepting_on_loop names i pool c fd w =
     (let e = in_table names (Pool_loop i) pool c fd (count_call (count_call w))
      in e\<lparr>posted := posted e @ [(i, F_new_connection c), (i, F_enable_reading c)]\<rparr>)"

lemma accepting_on_loop_parts [world_simps]:
  "conns (accepting_on_loop names i pool c fd w) = (conns w)(c \<mapsto> accepted names c fd (srv_rcb w))"
  "srv_connections (accepting_on_loop names i pool c fd w) = (srv_connections w)(fd \<mapsto> c)"
  "srv_conn_loop (accepting_on_loop names i pool c fd w) = (srv_conn_loop w)(c := Pool_loop i)"
  "srv_pool (accepting_on_loop names i pool c fd w) = pool"
  "srv_nccb (accepting_on_loop names i pool c fd w) = srv_nccb w"
  "srv_rcb (accepting_on_loop names i pool c fd w) = srv_rcb w"
  "srv_acceptor (accepting_on_loop names i pool c fd w) = srv_acceptor w"
  "InLoopThread (accepting_on_loop names i pool c fd w) = InLoopThread w"
  "os_calls (accepting_on_loop names i pool c fd w) = os_calls w + 2"
  "posted (accepting_on_loop names i pool c fd w) = posted w @ [(i, F_new_connection c), (i, F_enable_reading c)]"
  by (simp_all add: accepting_on_loop_def in_table_def set_conn_def count_call_def Let_def InLoopThread_def)

lemma accepts_on_loop:
  assumes "pool_ok n m w" "0 < n" "n < 2 ^ 32" "willing os" "fd = os_accept os (os_calls w)" "srv_connections w fd = None"
    and "c = os_address os (os_calls w + 2)"
  shows "\<exists>names pool. server_accept os v w = Some (Inr (accepting_on_loop names (m mod n) pool c fd w)) \<and>
     pool_ok n (Suc m) (accepting_on_loop names (m mod n) pool c fd w)"
proof -
  define w2 where "w2 = count_call (count_call w)"
  have w: "pool_ok n m w2" "os_calls w2 = os_calls w + 2" "srv_connections w2 fd = None" "srv_nccb w2" "ac_nccb (srv_acceptor w2)"
    using assms(1,6) by (simp_all add: w2_def pool_ok_def count_call_def InLoopThread_def)
  obtain pool where pool: "NextLoop (srv_pool w2) = Inr (Pool_loop (m mod n), pool)" "loop_thread_count pool = n"
    "loops pool = map Pool_loop [0..<n]" "next_loop pool = Suc m mod n"
    using next_in_turn [OF w(1) assms(2,3)] by blast
  obtain names where names: "named os (os_calls w2) fd names"
    by (rule named_known [of os "os_calls w2" fd]) (use assms(4) in \<open>simp_all add: willing_def\<close>)
  have "TcpServer_OnNewConnection os v c fd w2 = Some (Inr (accepting_on_loop names (m mod n) pool c fd w))"
    by (simp add: enters_loop [OF pool(1) w(3) names] w(4) run_in_loop_def accepting_on_loop_def Let_def w2_def [symmetric])
  moreover have "socketop_SetNonblocking os fd (count_call w) = Some (Inr w2)"
    using assms(4,5) by (simp add: socketop_SetNonblocking_def willing_def w2_def)
  ultimately have "server_accept os v w = Some (Inr (accepting_on_loop names (m mod n) pool c fd w))"
    using w(2,5) assms(7)
    by (simp add: server_accept_def Acceptor_NewConnetion_def Let_def call_user_def assms(5) [symmetric])
  moreover have "pool_ok n (Suc m) (accepting_on_loop names (m mod n) pool c fd w)"
    using assms(1) pool by (simp add: pool_ok_def world_simps)
  ultimately show ?thesis by blast
qed

lemma waiting_accepts:
  "waiting (s\<lparr>base_world := accepting_on_loop names i pool c fd (base_world s)\<rparr>) j =
     waiting s j @ (if j = i then [F_new_connection c, F_enable_reading c] else [])"
  by (simp add: waiting_def world_simps)

lemma pool_accepts:
  assumes inv: "pool_inv os ready n start m s" and n: "0 < n" "n < 2 ^ 32" and os: "willing os"
  shows "\<exists>w. server_accept os v (base_world s) = Some (Inr w) \<and> pool_inv os ready n start (Suc m) (s\<lparr>base_world := w\<rparr>)"
proof -
  define fd where "fd = nth_fd os start m"
  define c where "c = nth_conn os start m"
  note i = pool_invD [OF inv]
  have "srv_connections (base_world s) fd = None" using i(3) os by (auto simp: fd_def)
  moreover have "fd = os_accept os (os_calls (base_world s))" "c = os_address os (os_calls (base_world s) + 2)"
    using i(2) by (simp_all add: fd_def c_def nth_fd_def nth_conn_def)
  ultimately have "fd = os_accept os (os_calls (base_world s))" "c = os_address os (os_calls (base_world s) + 2)"
    "srv_connections (base_world s) fd = None" by blast+
  from accepts_on_loop [OF _ n os this(1,3,2), of m v] i(1) obtain names pool where w:
    "server_accept os v (base_world s) = Some (Inr (accepting_on_loop names (m mod n) pool c fd (base_world s)))"
    "pool_ok n (Suc m) (accepting_on_loop names (m mod n) pool c fd (base_world s))" by blast
  define s' where "s' = s\<lparr>base_world := accepting_on_loop names (m mod n) pool c fd (base_world s)\<rparr>"
  have wait: "waiting s' j = waiting s j @ (if j = m mod n then [F_new_connection c, F_enable_reading c] else [])" for j
    unfolding s'_def by (rule waiting_accepts)
  have other: "nth_conn os start j \<noteq> c" "nth_fd os start j \<noteq> fd" if "j < m" for j
    using that os by (simp_all add: c_def fd_def)
  have old: "setting_up ready k s' i (nth_conn os start j) = setting_up ready k s i (nth_conn os start j)" if "j < m" for k i j
    using other(1) [OF that] by (simp add: setting_up_def wait about_def) (simp add: s'_def world_simps)
  have none: "filter (about c) (waiting s i) = []" for i
  proof -
    have "\<not> about c f" if f: "f \<in> set (waiting s i)" for f
    proof -
      obtain j where "j < m" "about (nth_conn os start j) f" using i(9) [OF f] by blast
      then show ?thesis using other(1) about_one by blast
    qed
    then show ?thesis by (simp add: filter_empty_conv)
  qed
  have unknown: "p_channels (pool_loop s i) fd = None" for i
    using i(10) [of i m] by (cases "p_channels (pool_loop s i) fd") (auto simp: fd_def)
  have new: "setting_up ready (accepted names c fd (srv_rcb (base_world s))) s' (m mod n) c"
    using unknown by (simp add: setting_up_def wait none about_def) (simp add: s'_def world_simps accepted_def new_connection_def)
  have "pool_inv os ready n start (Suc m) s'"
    unfolding pool_inv_def
  proof (intro conjI allI ballI impI)
    show "pool_ok n (Suc m) (base_world s')" using w(2) by (simp add: s'_def)
    show "os_calls (base_world s') = start + 2 * Suc m" using i(2) by (simp add: s'_def world_simps)
    show "srv_connections (base_world s') f = None \<longleftrightarrow> f \<notin> nth_fd os start ` {..<Suc m}" for f
      using i(3) [of f] by (auto simp: s'_def world_simps fd_def lessThan_Suc)
    show "InLoopThread (pool_loop s' j)" "in_calls s' j = [] \<or> calling_functors (pool_loop s' j)" for j
      using i(4,5) [of j] by (simp_all add: s'_def)
    show "\<exists>j<Suc m. q = j mod n \<and> about (nth_conn os start j) f" if "f \<in> set (waiting s' q)" for q f
    proof (cases "f \<in> set (waiting s q)")
      case True
      from i(9) [OF this] show ?thesis using less_SucI by blast
    next
      case False
      then have "q = m mod n" "about c f" using that by (auto simp: wait about_def split: if_splits)
      then show ?thesis by (auto simp: c_def)
    qed
    show "q < Suc m" "p = q mod n" if "p_channels (pool_loop s' p) (nth_fd os start q) \<noteq> None" for p q
      using i(10) [of p q] that by (auto simp: s'_def)
    fix j assume "j < Suc m"
    then consider "j < m" | "j = m" by linarith
    then have "srv_connections (base_world s') (nth_fd os start j) = Some (nth_conn os start j) \<and>
        srv_conn_loop (base_world s') (nth_conn os start j) = Pool_loop (j mod n) \<and>
        (\<exists>names. setting_up ready (accepted names (nth_conn os start j) (nth_fd os start j) (srv_rcb (base_world s'))) s'
           (j mod n) (nth_conn os start j))"
    proof cases
      case 1
      then show ?thesis using i(6-8) other [OF 1] old [OF 1] by (simp add: s'_def world_simps)
    next
      case 2
      have "srv_connections (base_world s') fd = Some c" "srv_conn_loop (base_world s') c = Pool_loop (m mod n)"
        "srv_rcb (base_world s') = srv_rcb (base_world s)"
        by (simp_all add: s'_def world_simps)
      then show ?thesis unfolding 2 c_def [symmetric] fd_def [symmetric] using new by (intro conjI exI [of _ names]) simp_all
    qed
    then show "srv_connections (base_world s') (nth_fd os start j) = Some (nth_conn os start j)"
      "srv_conn_loop (base_world s') (nth_conn os start j) = Pool_loop (j mod n)"
      "\<exists>names. setting_up ready (accepted names (nth_conn os start j) (nth_fd os start j) (srv_rcb (base_world s'))) s'
           (j mod n) (nth_conn os start j)" by blast+
  qed
  then show ?thesis using w(1) unfolding s'_def by blast
qed

section \<open>Calling\<close>

definition rest_of_server where
  "rest_of_server w = (os_calls w, srv_connections w, srv_conn_loop w, srv_pool w, srv_nccb w, srv_rcb w,
     srv_acceptor w, posted w)"

lemma pool_inv_advances:
  assumes inv: "pool_inv os ready n start m s" and os: "willing os" and j: "j < m" "i = j mod n"
    and c: "c = nth_conn os start j" "fd = nth_fd os start j" and f: "in_calls s i = f # fs" "about c f"
    and w: "rest_of_server w = rest_of_server (base_world s)" "conns w = (conns (base_world s))(c \<mapsto> k)"
      "p_channels w = p_channels (pool_loop s i) \<or> p_channels w = (p_channels (pool_loop s i))(fd \<mapsto> c)"
      "InLoopThread w" "functors w = functors (pool_loop s i)" "calling_functors w = calling_functors (pool_loop s i)"
    and up: "\<And>names. setting_up ready (accepted names c fd (srv_rcb (base_world s))) s i c \<Longrightarrow>
      setting_up ready (accepted names c fd (srv_rcb (base_world s))) (after_call s i fs w) i c"
  shows "pool_inv os ready n start m (after_call s i fs w)"
proof -
  define s' where "s' = after_call s i fs w"
  note i = pool_invD [OF inv]
  have b: "srv_connections (base_world s') = srv_connections (base_world s)" "srv_conn_loop (base_world s') = srv_conn_loop (base_world s)"
    "srv_rcb (base_world s') = srv_rcb (base_world s)" "os_calls (base_world s') = os_calls (base_world s)"
    "conns (base_world s') = (conns (base_world s))(c \<mapsto> k)" "posted (base_world s') = posted (base_world s)"
    "pool_ok n m (base_world s')"
    using w(1,2) i(1) by (simp_all add: s'_def after_call_def world_simps rest_of_server_def pool_ok_def)
  have wait: "waiting s p = (if p = i then [f] else []) @ waiting s' p" for p
    using f(1) w(5) b(6) by (simp add: waiting_def s'_def after_call_def world_simps)
  have known: "p_channels (pool_loop s' p) x = p_channels (pool_loop s p) x" if "p \<noteq> i \<or> x \<noteq> fd" for p x
    using that w(3) by (auto simp: s'_def after_call_def world_simps)
  have old: "setting_up ready l s' (q mod n) d = setting_up ready l s (q mod n) d"
    if "q \<noteq> j" "d = nth_conn os start q" "c_fd l = nth_fd os start q" for l q d
  proof -
    have "d \<noteq> c" "c_fd l \<noteq> fd" using that os c by auto
    then show ?thesis using f(2) by (simp add: setting_up_def wait known b(5) about_one [OF f(2)])
  qed
  show ?thesis
    unfolding s'_def [symmetric] pool_inv_def
  proof (intro conjI allI ballI impI)
    show "pool_ok n m (base_world s')" "os_calls (base_world s') = start + 2 * m" using b(4,7) i(2) by simp_all
    show "srv_connections (base_world s') x = None \<longleftrightarrow> x \<notin> nth_fd os start ` {..<m}" for x using i(3) b(1) by simp
    show "InLoopThread (pool_loop s' p)" for p using i(4) w(4) by (simp add: s'_def after_call_def world_simps)
    show "in_calls s' p = [] \<or> calling_functors (pool_loop s' p)" for p
      using i(5) [of p] i(5) [of i] f(1) w(6) by (simp add: s'_def after_call_def world_simps)
    show "\<exists>q<m. p = q mod n \<and> about (nth_conn os start q) g" if "g \<in> set (waiting s' p)" for p g
      by (rule i(9)) (use that in \<open>simp add: wait\<close>)
    show "q < m" "p = q mod n" if "p_channels (pool_loop s' p) (nth_fd os start q) \<noteq> None" for p q
      using i(10) [of p q] that known [of p "nth_fd os start q"] j c(2) os by (cases "p = i \<and> q = j"; auto)+
    fix q assume "q < m"
    show "srv_connections (base_world s') (nth_fd os start q) = Some (nth_conn os start q)"
      "srv_conn_loop (base_world s') (nth_conn os start q) = Pool_loop (q mod n)"
      using i(6,7) \<open>q < m\<close> b(1,2) by simp_all
    obtain names where names: "setting_up ready (accepted names (nth_conn os start q) (nth_fd os start q) (srv_rcb (base_world s))) s
        (q mod n) (nth_conn os start q)" using i(8) [OF \<open>q < m\<close>] ..
    have "setting_up ready (accepted names (nth_conn os start q) (nth_fd os start q) (srv_rcb (base_world s))) s'
        (q mod n) (nth_conn os start q)"
    proof (cases "q = j")
      case True
      then show ?thesis using up names unfolding s'_def c j(2) by simp
    next
      case False
      have "c_fd (accepted names (nth_conn os start q) (nth_fd os start q) (srv_rcb (base_world s))) = nth_fd os start q"
        by (simp add: accepted_def new_connection_def)
      then show ?thesis using old [OF False refl] names by blast
    qed
    then show "\<exists>names. setting_up ready (accepted names (nth_conn os start q) (nth_fd os start q) (srv_rcb (base_world s'))) s'
        (q mod n) (nth_conn os start q)" unfolding b(3) ..
  qed
qed

section \<open>What the pool relies on\<close>

text \<open>The callback for new connections only changes its connection, and not the channel of it.\<close>

locale connection_setup =
  fixes v :: "('x, unit) server_calls" and ready :: "'x connection \<Rightarrow> 'x connection"
  assumes greets: "conns w c = Some k \<Longrightarrow> on_new v c w = Some (Inr (set_conn c (ready k) w))"
    and keeps_channel: "c_channel (ready k) = c_channel k" "c_fd (ready k) = c_fd k"
begin

lemma pool_calls_keeps:
  assumes inv: "pool_inv os ready n start m s" and os: "willing os" and f: "in_calls s i = f # fs"
  shows "\<exists>w. run_functor os v f (at_loop (pool_loop s i) (base_world s)) = Some (Inr w) \<and>
    pool_inv os ready n start m (after_call s i fs w)"
proof -
  define w0 where "w0 = at_loop (pool_loop s i) (base_world s)"
  have "f \<in> set (waiting s i)" using f by (simp add: waiting_def)
  then obtain j where j: "j < m" "i = j mod n" "about (nth_conn os start j) f" using pool_invD(9) [OF inv] by blast
  define c where "c = nth_conn os start j"
  define fd where "fd = nth_fd os start j"
  define made :: "net_address \<times> net_address \<Rightarrow> 'x connection" where
    "made names = accepted names c fd (srv_rcb (base_world s))" for names
  have fd: "ch_fd (c_channel (made names)) = fd" "ch_ptr (c_channel (made names)) = c" "c_fd (made names) = fd" for names
    by (simp_all add: made_def accepted_def new_connection_def Channel_init_def)
  obtain names where names: "setting_up ready (made names) s i c"
    using pool_invD(8) [OF inv j(1)] unfolding c_def fd_def made_def j(2) by blast
  have loop: "InLoopThread w0" "conns w0 = conns (base_world s)" "p_channels w0 = p_channels (pool_loop s i)"
    "functors w0 = functors (pool_loop s i)" "calling_functors w0 = calling_functors (pool_loop s i)"
    "rest_of_server w0 = rest_of_server (base_world s)"
    using pool_invD(4) [OF inv] by (simp_all add: w0_def world_simps rest_of_server_def)
  have head: "filter (about c) (waiting s i) = f # filter (about c) (waiting (after_call s i fs w) i)"
    if "functors w = functors (pool_loop s i)" "rest_of_server w = rest_of_server (base_world s)" for w
    using f j(3) that by (simp add: waiting_def after_call_def world_simps c_def rest_of_server_def)
  note advance = pool_inv_advances [OF inv os j(1,2) c_def fd_def f j(3) [folded c_def]]
  have "\<exists>r. filter (about c) (waiting s i) = f # r" using head [OF loop(4,6)] by blast
  then consider (new) "f = F_new_connection c" "conns (base_world s) c = Some (made names)" "p_channels (pool_loop s i) fd = None"
      "filter (about c) (waiting s i) = [F_new_connection c, F_enable_reading c]"
    | (read) "f = F_enable_reading c" "conns (base_world s) c = Some (ready (made names))" "p_channels (pool_loop s i) fd = None"
      "filter (about c) (waiting s i) = [F_enable_reading c]"
    using names unfolding setting_up_def Let_def fd(3) by auto
  then show ?thesis
  proof cases
    case new
    define w where "w = set_conn c (ready (made names)) w0"
    have w: "rest_of_server w = rest_of_server (base_world s)" "conns w = (conns (base_world s))(c \<mapsto> ready (made names))"
      "p_channels w = p_channels (pool_loop s i)" "InLoopThread w" "functors w = functors (pool_loop s i)"
      "calling_functors w = calling_functors (pool_loop s i)"
      using loop by (simp_all add: w_def set_conn_def rest_of_server_def InLoopThread_def)
    have "filter (about c) (waiting (after_call s i fs w) i) = [F_enable_reading c]" using head [OF w(5,1)] new(4) by simp
    moreover have "conns (base_world (after_call s i fs w)) c = Some (ready (made names))"
      "p_channels (pool_loop (after_call s i fs w) i) fd = None"
      using w(2,3) new(3) by (simp_all add: after_call_def world_simps)
    ultimately have "setting_up ready (made names') (after_call s i fs w) i c" if "setting_up ready (made names') s i c" for names'
      using that new(2,4) unfolding setting_up_def Let_def fd(3) by auto
    then have "pool_inv os ready n start m (after_call s i fs w)" using w unfolding made_def by (intro advance) auto
    moreover have "run_functor os v f w0 = Some (Inr w)"
      using greets [of w0 c "made names"] new(1,2) loop(2) by (simp add: run_functor_def run_user_functor_def w_def)
    ultimately show ?thesis unfolding w0_def by blast
  next
    case read
    define ch where "ch = (c_channel (made names))\<lparr>ch_events := ch_events (c_channel (made names)) OR kReadEvents\<rparr>"
    define w where "w = set_conn c (watched (ready (made names))) (Poller_UpdateChannel ch w0)"
    have w: "rest_of_server w = rest_of_server (base_world s)" "conns w = (conns (base_world s))(c \<mapsto> watched (ready (made names)))"
      "p_channels w = (p_channels (pool_loop s i))(fd \<mapsto> c)" "InLoopThread w" "functors w = functors (pool_loop s i)"
      "calling_functors w = calling_functors (pool_loop s i)"
      using loop read(3) fd
      by (simp_all add: w_def ch_def set_conn_def rest_of_server_def InLoopThread_def Poller_UpdateChannel_def)
    have "filter (about c) (waiting (after_call s i fs w) i) = []" using head [OF w(5,1)] read(4) by simp
    moreover have "conns (base_world (after_call s i fs w)) c = Some (watched (ready (made names)))"
      "p_channels (pool_loop (after_call s i fs w) i) fd = Some c"
      using w(2,3) by (simp_all add: after_call_def world_simps)
    ultimately have "setting_up ready (made names') (after_call s i fs w) i c" if "setting_up ready (made names') s i c" for names'
      using that read(2,4) unfolding setting_up_def Let_def fd(3) by auto
    then have "pool_inv os ready n start m (after_call s i fs w)" using w unfolding made_def by (intro advance) auto
    moreover have "run_functor os v f w0 = Some (Inr w)"
      using read(1,2) loop(2) on_channel_events(1) [OF loop(1), of c "ready (made names)"] keeps_channel [of "made names"]
      by (simp add: run_functor_def run_user_functor_def run_channel_functor_def w_def set_events_def watched_def ch_def)
    ultimately show ?thesis unfolding w0_def by blast
  qed
qed

lemma pool_step_keeps:
  assumes "pool_step os v s s'" "pool_inv os ready n start m s" "willing os" "0 < n" "n < 2 ^ 32"
  shows "\<exists>m. pool_inv os ready n start m s'"
  using assms(1)
proof cases
  case (base_accepts w)
  then show ?thesis using pool_accepts [OF assms(2,4,5,3), of v] by auto
next
  case (base_posts i f fs)
  then show ?thesis using pool_posts_keeps [OF assms(2)] by blast
next
  case (pool_takes i fs l)
  then show ?thesis using pool_takes_keeps [OF assms(2)] by blast
next
  case (pool_calls i f fs w)
  then show ?thesis using pool_calls_keeps [OF assms(2,3)] by fastforce
next
  case (pool_ends i)
  then show ?thesis using pool_ends_keeps [OF assms(2)] by blast
qed

lemma pool_reaches:
  assumes "(pool_step os v)\<^sup>*\<^sup>* s s'" "pool_inv os ready n start m s" "willing os" "0 < n" "n < 2 ^ 32"
  shows "\<exists>m. pool_inv os ready n start m s'"
  using assms(1)
proof (induction rule: rtranclp_induct)
  case base
  then show ?case using assms(2) by blast
next
  case (step s1 s2)
  then show ?case using pool_step_keeps assms(3-5) by blast
qed

end

section \<open>The start\<close>

text \<open>The loops of the pool as \<open>StartLoop\<close> returns them: in their own threads, with nothing to do, and
  with none of the descriptors that will be accepted.\<close>

definition idle_loops :: "os_net \<Rightarrow> (nat \<Rightarrow> loop_functor event_loop) \<Rightarrow> bool" where
  "idle_loops os ls \<longleftrightarrow>
     (\<forall>i. InLoopThread (ls i) \<and> functors (ls i) = [] \<and> (\<forall>j. p_channels (ls i) (os_accept os j) = None))"

definition started_pool :: "'x server_world \<Rightarrow> (nat \<Rightarrow> loop_functor event_loop) \<Rightarrow> 'x pool_world" where
  "started_pool w ls = \<lparr>base_world = w, pool_loop = ls, in_calls = (\<lambda>i. [])\<rparr>"

lemma pool_inv_starts:
  assumes "idle_loops os ls" "pool_ok n 0 w" "srv_connections w = Map.empty" "posted w = []"
  shows "pool_inv os ready n (os_calls w) 0 (started_pool w ls)"
  using assms by (simp add: pool_inv_def idle_loops_def started_pool_def waiting_def nth_fd_def)

lemma pool_server_starts:
  fixes w :: "'x server_world"
  assumes "InLoopThread w" "p_channels w lfd = None" "posted w = []" "0 < n"
    and "ToSockAddr addr = Inr sa" "\<And>i. os_socket os i = lfd" "\<And>i. os_bind os i lfd sa" "\<And>i. os_listen os i lfd"
    and "\<And>i. os_fcntl os i lfd"
  shows "\<exists>w1. TcpServer_Start os v (server_set_read_callback (server_set_new_callback
        (SetThreadNum n (TcpServer_init addr unset w)))) = Some (Inr w1) \<and>
     pool_ok n 0 w1 \<and> srv_connections w1 = Map.empty \<and> posted w1 = [] \<and> srv_rcb w1 \<and> os_calls w1 = os_calls w + 4"
proof -
  define w0 where "w0 = server_set_read_callback (server_set_new_callback (SetThreadNum n (TcpServer_init addr unset w)))"
  have w0: "InLoopThread w0" "p_channels w0 lfd = None" "ToSockAddr (srv_local_addr w0) = Inr sa" "os_calls w0 = os_calls w"
    "srv_pool w0 = SetLoopThreadCount n EventLoopThreadPool_init" "srv_nccb w0" "srv_rcb w0" "srv_connections w0 = Map.empty"
    "posted w0 = []"
    using assms(1-5)
    by (simp_all add: w0_def server_set_new_callback_def server_set_read_callback_def TcpServer_init_def InLoopThread_def SetThreadNum_def)
  from Start_listens [OF w0(1) assms(6) w0(2,3) assms(7-9), of v] obtain w1 where w1:
    "TcpServer_Start os v w0 = Some (Inr w1)" "InLoopThread w1" "srv_pool w1 = LoopPool_Start (srv_pool w0)" "posted w1 = posted w0"
    "srv_rcb w1 = srv_rcb w0" "srv_nccb w1 = srv_nccb w0" "ac_nccb (srv_acceptor w1)" "srv_connections w1 = srv_connections w0"
    "os_calls w1 = os_calls w0 + 4" by blast
  moreover have "pool_ok n 0 w1"
    using w1 w0 assms(4) by (simp add: pool_ok_def LoopPool_Start_def SetLoopThreadCount_def EventLoopThreadPool_init_def)
  ultimately show ?thesis using w0 unfolding w0_def [symmetric] by auto
qed

end
