(* ===== verification/Http_Main.thy ===== *)
theory Http_Main
  imports Http_Connection Server_Pool
begin

text \<open>
  The program of examples/httpserver: \<open>main\<close> and \<open>HTTPServer::Run\<close> (http_server.cc). It runs the
  server with a pool of eight loops; the properties say how connections are spread over the loops
  and that a connection is ready before its loop reads from it. \<open>boost::lexical_cast\<close> and the current
  directory are parameters. \<open>Daemonize\<close> is not called.
\<close>

section \<open>The program\<close>

definition http_thread_num :: nat where
  "http_thread_num = 8"

text \<open>\<open>Run\<close>; the server is made by the constructor of \<open>HTTPServer\<close>.\<close>

definition HTTPServer_Run ::
  "boost \<Rightarrow> string \<Rightarrow> posix \<Rightarrow> string \<Rightarrow> os_net \<Rightarrow> nat \<Rightarrow> (parsing_state, 'z) server_world_scheme \<Rightarrow>
   (parsing_state, 'z) server_world_scheme run" where
  "HTTPServer_Run bo date psx cwd os thread_num w =
     TcpServer_Start os (http_calls bo date (file_server psx cwd) os)
       (server_set_read_callback (server_set_new_callback (SetThreadNum thread_num w)))"

text \<open>\<open>main\<close> up to the loop; \<open>None\<close> is the return for a wrong number of arguments.\<close>

definition http_main ::
  "(string \<Rightarrow> int option) \<Rightarrow> boost \<Rightarrow> string \<Rightarrow> posix \<Rightarrow> string \<Rightarrow> os_net \<Rightarrow> int \<Rightarrow> string list \<Rightarrow>
   (parsing_state, 'z) server_world_scheme \<Rightarrow> (parsing_state, 'z) server_world_scheme run option" where
  "http_main cast_int bo date psx cwd os unset argv w =
     (case argv of
        [_, port] \<Rightarrow>
          Some (case cast_int port of
                  None \<Rightarrow> Some (Inl Bad_lexical_cast)
                | Some p \<Rightarrow>
                    HTTPServer_Run bo date psx cwd os http_thread_num
                      (TcpServer_init (NetAddress_of_text ''0.0.0.0'' p) unset w))
      | _ \<Rightarrow> None)"

section \<open>Connections in the pool\<close>

text \<open>The callback for new connections gives a connection the state of its parser.\<close>

definition http_ready :: "parsing_state connection \<Rightarrow> parsing_state connection" where
  "http_ready k = k\<lparr>c_ctx := OnNewConnection\<rparr>"

lemma http_greets:
  "conns w c = Some k \<Longrightarrow> on_new (http_calls bo date srv os) c w = Some (Inr (set_conn c (http_ready k) w))"
  by (simp add: http_calls_def http_close_calls_def http_new_connection_def set_context_def clear_context_def
      with_conn_def http_ready_def OnNewConnection_def)

interpretation http: connection_setup "http_calls bo date srv os" http_ready
  by unfold_locales (simp_all add: http_greets http_ready_def)

lemma reading_watched: "is_reading (c_channel (watched k))"
  by (simp add: is_reading_def watched_def kReadEvents_def EPOLLIN_def)

text \<open>Where the \<open>j\<close>-th connection is, and whether its loop reads from it.\<close>

definition connection_in_pool :: "os_net \<Rightarrow> nat \<Rightarrow> parsing_state pool_world \<Rightarrow> nat \<Rightarrow> bool" where
  "connection_in_pool os start s j \<longleftrightarrow>
     (let c = nth_conn os start j; fd = nth_fd os start j; i = j mod http_thread_num in
      srv_connections (base_world s) fd = Some c \<and> srv_conn_loop (base_world s) c = Pool_loop i \<and>
      (\<exists>k. conns (base_world s) c = Some k \<and> c_fd k = fd \<and> c_state k = kConnected \<and>
         (if is_reading (c_channel k) then c_ctx k = OnNewConnection \<and> p_channels (pool_loop s i) fd = Some c
          else p_channels (pool_loop s i) fd = None \<and> F_enable_reading c \<in> set (waiting s i))) \<and>
      (\<forall>i'. i' \<noteq> i \<longrightarrow> p_channels (pool_loop s i') fd = None))"

lemma in_pool:
  assumes inv: "pool_inv os http_ready http_thread_num start m s" and j: "j < m"
  shows "connection_in_pool os start s j"
proof -
  define c where "c = nth_conn os start j"
  define fd where "fd = nth_fd os start j"
  define i where "i = j mod http_thread_num"
  obtain names where names:
    "setting_up http_ready (accepted names c fd (srv_rcb (base_world s))) s i c"
    using pool_invD(8) [OF inv j] unfolding c_def fd_def i_def ..
  define k :: "parsing_state connection" where "k = accepted names c fd (srv_rcb (base_world s))"
  have k: "c_fd k = fd" "c_state k = kConnected" "\<not> is_reading (c_channel k)"
    by (simp_all add: k_def accepted_def new_connection_def is_reading_def Channel_init_def)
  have todo: "F_enable_reading c \<in> set (waiting s i)" if "filter (about c) (waiting s i) = fs" "F_enable_reading c \<in> set fs" for fs
    using that by (auto simp flip: that(1))
  from names consider
      "conns (base_world s) c = Some k" "p_channels (pool_loop s i) fd = None" "F_enable_reading c \<in> set (waiting s i)"
    | "conns (base_world s) c = Some (http_ready k)" "p_channels (pool_loop s i) fd = None"
        "F_enable_reading c \<in> set (waiting s i)"
    | "conns (base_world s) c = Some (watched (http_ready k))" "p_channels (pool_loop s i) fd = Some c"
    unfolding k_def [symmetric] setting_up_def Let_def k(1) by (elim disjE conjE) (auto dest: todo)
  then have "\<exists>l. conns (base_world s) c = Some l \<and> c_fd l = fd \<and> c_state l = kConnected \<and>
     (if is_reading (c_channel l) then c_ctx l = OnNewConnection \<and> p_channels (pool_loop s i) fd = Some c
      else p_channels (pool_loop s i) fd = None \<and> F_enable_reading c \<in> set (waiting s i))"
    using k reading_watched [of "http_ready k"] by cases (auto simp: http_ready_def watched_def)
  moreover have "p_channels (pool_loop s i') fd = None" if "i' \<noteq> i" for i'
    using pool_invD(10) [OF inv, of i' j] that by (cases "p_channels (pool_loop s i') fd") (auto simp: i_def fd_def)
  ultimately show ?thesis
    using pool_invD(6,7) [OF inv j] unfolding connection_in_pool_def Let_def c_def fd_def i_def by blast
qed


section \<open>Witness\<close>

definition spread_net :: os_net where
  "spread_net = (easy_net (Inr []) None)\<lparr>os_accept := \<lambda>i. int i + 100\<rparr>"

definition spread_loops :: "nat \<Rightarrow> loop_functor event_loop" where
  "spread_loops i = idle_loop\<lparr>loop_thread := Suc i, this_thread := Suc i\<rparr>"

definition spread_main :: "parsing_state server_world run option" where
  "spread_main =
     http_main (\<lambda>s. if s = ''80'' then Some 80 else None) reference_boost ''now'' demo_files ''/w'' spread_net 0 [''fx'', ''80'']
       empty_server"

lemma spread_loops_idle: "idle_loops spread_net spread_loops"
  by (simp add: idle_loops_def spread_loops_def InLoopThread_def idle_loop_def poller.defs Poller_init_def)

lemma spread_willing: "willing spread_net"
  by (simp add: willing_def spread_net_def easy_net_def inj_def)


end
