(* ===== verification/Monitor.thy ===== *)
theory Monitor
  imports Main
begin

text \<open>
  What the two classes with a mutex and a condition variable (\<open>BlockingQueue\<close> and
  \<open>EventLoopThread\<close>) rely on: the contract of a mutex over the steps of several threads. A thread
  is a number, \<open>inside t s\<close> says that thread \<open>t\<close> is between its lock and its unlock, \<open>holder\<close> who
  holds the mutex. Where a lock is taken only when the mutex is free and given back at the end,
  no two threads are inside together, whatever the schedule.
\<close>

locale monitor =
  fixes start :: 's
    and step :: "'s \<Rightarrow> 's \<Rightarrow> bool"
    and holder :: "'s \<Rightarrow> nat option"
    and inside :: "nat \<Rightarrow> 's \<Rightarrow> bool"
  assumes start_free: "inside t start \<longleftrightarrow> holder start = Some t"
    and step_keeps: "step s s' \<Longrightarrow> (\<And>t. inside t s \<longleftrightarrow> holder s = Some t) \<Longrightarrow> inside t s' \<longleftrightarrow> holder s' = Some t"
begin

lemma inside_holds: "step\<^sup>*\<^sup>* start s \<Longrightarrow> inside t s \<longleftrightarrow> holder s = Some t"
proof (induction arbitrary: t rule: rtranclp_induct)
  case base
  then show ?case by (rule start_free)
next
  case (step s s')
  show ?case by (rule step_keeps [OF step.hyps(2) step.IH])
qed

lemma mutual_exclusion: "step\<^sup>*\<^sup>* start s \<Longrightarrow> inside t s \<Longrightarrow> inside u s \<Longrightarrow> t = u"
  by (simp add: inside_holds)

text \<open>An invariant may use the mutual exclusion.\<close>

lemma invariant:
  assumes "step\<^sup>*\<^sup>* start s" "P start"
    and "\<And>s s'. step s s' \<Longrightarrow> (\<And>t. inside t s \<longleftrightarrow> holder s = Some t) \<Longrightarrow> P s \<Longrightarrow> P s'"
  shows "P s"
  using assms(1)
proof (induction rule: rtranclp_induct)
  case base
  then show ?case by (rule assms(2))
next
  case (step s s')
  show ?case by (rule assms(3) [OF step.hyps(2) inside_holds [OF step.hyps(1)] step.IH])
qed

end

section \<open>Counting threads\<close>

text \<open>The threads are a list, a thread's number its index.\<close>

definition how_many :: "('a \<Rightarrow> bool) \<Rightarrow> 'a list \<Rightarrow> nat" where
  "how_many P xs = length (filter P xs)"

lemma how_many_update:
  assumes "t < length xs"
  shows "how_many P (xs[t := y]) + (if P (xs ! t) then 1 else 0) = how_many P xs + (if P y then 1 else 0)"
  using assms
proof (induction xs arbitrary: t)
  case Nil
  then show ?case by simp
next
  case (Cons x xs)
  then show ?case by (cases t) (fastforce simp: how_many_def)+
qed

lemma how_many_pos: "0 < how_many P xs \<longleftrightarrow> (\<exists>t < length xs. P (xs ! t))"
  by (force simp: how_many_def filter_empty_conv in_set_conv_nth)

end
