(* ===== verification/Blocking_Queue.thy ===== *)
theory Blocking_Queue
  imports Monitor
begin

text \<open>
  \<open>BlockingQueue\<close> (include/fx_blocking_queue.hpp): a queue shared by any number of threads, with a
  mutex and a condition variable. The operations are cut into the steps between which another
  thread can run: taking the mutex, the test of the loop in \<open>Pop\<close>, the wait (which gives the mutex
  back and sleeps in one step), the work on the queue, the release, and the call of
  \<open>notify_one\<close>, which \<open>Push\<close> makes after its release. A waiting thread can also wake for no
  reason, as the documentation of condition variables allows. \<open>pushed\<close> and \<open>popped\<close> record what
  went in and out; they are not in the code.
\<close>

section \<open>The threads and their steps\<close>

text \<open>Where a thread is, named by what it does next.\<close>

datatype 'a bq_thread =
    Outside
  | Pop_lock
  | Pop_test
  | Pop_wait
  | Pop_woken
  | Pop_take
  | Pop_unlock 'a
  | Push_lock 'a
  | Push_push 'a
  | Push_unlock
  | Push_notify

record 'a bqueue =
  internal_queue :: "'a list"
  queue_op_mutex :: "nat option"
  front_of_empty :: bool
  threads :: "'a bq_thread list"
  pushed :: "'a list"
  popped :: "(nat \<times> 'a) list"

definition BlockingQueue_init :: "nat \<Rightarrow> 'a bqueue" where
  "BlockingQueue_init n =
     \<lparr>internal_queue = [], queue_op_mutex = None, front_of_empty = False, threads = replicate n Outside,
      pushed = [], popped = []\<rparr>"

definition goes :: "nat \<Rightarrow> 'a bq_thread \<Rightarrow> 'a bqueue \<Rightarrow> 'a bqueue" where
  "goes t h s = s\<lparr>threads := (threads s)[t := h]\<rparr>"

definition at_step :: "'a bqueue \<Rightarrow> nat \<Rightarrow> 'a bq_thread \<Rightarrow> bool" where
  "at_step s t h \<longleftrightarrow> t < length (threads s) \<and> threads s ! t = h"

text \<open>\<open>Pop\<close>; \<open>front\<close> and \<open>pop\<close> of an empty queue are not defined.\<close>

inductive pop_step :: "nat \<Rightarrow> 'a bqueue \<Rightarrow> 'a bqueue \<Rightarrow> bool" where
  pop_call: "at_step s t Outside \<Longrightarrow> pop_step t s (goes t Pop_lock s)"
| pop_lock: "at_step s t Pop_lock \<or> at_step s t Pop_woken \<Longrightarrow> queue_op_mutex s = None \<Longrightarrow>
    pop_step t s (goes t Pop_test s\<lparr>queue_op_mutex := Some t\<rparr>)"
| pop_wait: "at_step s t Pop_test \<Longrightarrow> internal_queue s = [] \<Longrightarrow>
    pop_step t s (goes t Pop_wait s\<lparr>queue_op_mutex := None\<rparr>)"
| pop_go: "at_step s t Pop_test \<Longrightarrow> internal_queue s \<noteq> [] \<Longrightarrow> pop_step t s (goes t Pop_take s)"
| pop_take: "at_step s t Pop_take \<Longrightarrow> internal_queue s = x # q \<Longrightarrow>
    pop_step t s (goes t (Pop_unlock x) s\<lparr>internal_queue := q, popped := popped s @ [(t, x)]\<rparr>)"
| pop_fault: "at_step s t Pop_take \<Longrightarrow> internal_queue s = [] \<Longrightarrow> pop_step t s (s\<lparr>front_of_empty := True\<rparr>)"
| pop_unlock: "at_step s t (Pop_unlock x) \<Longrightarrow> pop_step t s (goes t Outside s\<lparr>queue_op_mutex := None\<rparr>)"

text \<open>\<open>Push\<close>.\<close>

inductive push_step :: "nat \<Rightarrow> 'a bqueue \<Rightarrow> 'a bqueue \<Rightarrow> bool" where
  push_call: "at_step s t Outside \<Longrightarrow> push_step t s (goes t (Push_lock x) s)"
| push_lock: "at_step s t (Push_lock x) \<Longrightarrow> queue_op_mutex s = None \<Longrightarrow>
    push_step t s (goes t (Push_push x) s\<lparr>queue_op_mutex := Some t\<rparr>)"
| push_push: "at_step s t (Push_push x) \<Longrightarrow>
    push_step t s (goes t Push_unlock s\<lparr>internal_queue := internal_queue s @ [x], pushed := pushed s @ [x]\<rparr>)"
| push_unlock: "at_step s t Push_unlock \<Longrightarrow> push_step t s (goes t Push_notify s\<lparr>queue_op_mutex := None\<rparr>)"
| push_notify: "at_step s t Push_notify \<Longrightarrow> at_step s u Pop_wait \<Longrightarrow> push_step t s (goes t Outside (goes u Pop_woken s))"
| push_nobody: "at_step s t Push_notify \<Longrightarrow> \<forall>h \<in> set (threads s). h \<noteq> Pop_wait \<Longrightarrow> push_step t s (goes t Outside s)"

definition under_way :: "'a bq_thread \<Rightarrow> bool" where
  "under_way h \<longleftrightarrow> h \<noteq> Outside \<and> h \<noteq> Pop_wait"

inductive bq_step :: "'a bqueue \<Rightarrow> 'a bqueue \<Rightarrow> bool" where
  Pop: "pop_step t s s' \<Longrightarrow> bq_step s s'"
| Push: "push_step t s s' \<Longrightarrow> bq_step s s'"
| spurious: "at_step s t Pop_wait \<Longrightarrow> bq_step s (goes t Pop_woken s)"

inductive_cases bq_stepE: "bq_step s s'"

section \<open>The mutex\<close>

fun holds_mutex :: "'a bq_thread \<Rightarrow> bool" where
  "holds_mutex Pop_test = True"
| "holds_mutex Pop_take = True"
| "holds_mutex (Pop_unlock x) = True"
| "holds_mutex (Push_push x) = True"
| "holds_mutex Push_unlock = True"
| "holds_mutex h = False"

definition in_section :: "nat \<Rightarrow> 'a bqueue \<Rightarrow> bool" where
  "in_section t s \<longleftrightarrow> t < length (threads s) \<and> holds_mutex (threads s ! t)"

lemma goes_parts [simp]:
  "threads (goes t h s) = (threads s)[t := h]" "queue_op_mutex (goes t h s) = queue_op_mutex s"
  "internal_queue (goes t h s) = internal_queue s" "pushed (goes t h s) = pushed s"
  "popped (goes t h s) = popped s" "front_of_empty (goes t h s) = front_of_empty s"
  by (simp_all add: goes_def)

lemma in_section_goes:
  "at_step s t h0 \<Longrightarrow> in_section u (goes t h s) = (if u = t then holds_mutex h else in_section u s)"
  "in_section u (s\<lparr>queue_op_mutex := m\<rparr>) = in_section u s"
  "in_section u (s\<lparr>internal_queue := q, popped := a\<rparr>) = in_section u s"
  "in_section u (s\<lparr>internal_queue := q, pushed := b\<rparr>) = in_section u s"
  "in_section u (s\<lparr>front_of_empty := f\<rparr>) = in_section u s"
  by (auto simp: in_section_def at_step_def nth_list_update)

lemma in_section_at: "at_step s t h \<Longrightarrow> in_section t s = holds_mutex h"
  by (auto simp: in_section_def at_step_def)

lemma pop_keeps_mutex:
  assumes "pop_step t s s'" and I: "\<And>t. in_section t s \<longleftrightarrow> queue_op_mutex s = Some t"
  shows "in_section u s' \<longleftrightarrow> queue_op_mutex s' = Some u"
  using assms(1)
proof cases
  case pop_lock
  then have "in_section u s' = (if u = t then True else in_section u s)" by (auto simp: in_section_goes)
  then show ?thesis using I [of u] pop_lock by auto
qed (use I [of u] I [of t] in \<open>auto simp: in_section_goes dest: in_section_at\<close>)

lemma push_keeps_mutex:
  assumes "push_step t s s'" and I: "\<And>t. in_section t s \<longleftrightarrow> queue_op_mutex s = Some t"
  shows "in_section u s' \<longleftrightarrow> queue_op_mutex s' = Some u"
  using assms(1)
proof cases
  case (push_notify v)
  then have "at_step (goes v Pop_woken s) t Push_notify" by (auto simp: at_step_def nth_list_update)
  then have "in_section u s' = (if u = t then False else if u = v then False else in_section u s)"
    using push_notify by (simp add: in_section_goes)
  then show ?thesis using I [of u] I [of t] I [of v] push_notify by (auto dest: in_section_at)
qed (use I [of u] I [of t] in \<open>auto simp: in_section_goes dest: in_section_at\<close>)

lemma bq_keeps_mutex:
  assumes "bq_step s s'" and I: "\<And>t. in_section t s \<longleftrightarrow> queue_op_mutex s = Some t"
  shows "in_section u s' \<longleftrightarrow> queue_op_mutex s' = Some u"
  using assms(1)
proof cases
  case (Pop t)
  then show ?thesis using pop_keeps_mutex I by blast
next
  case (Push t)
  then show ?thesis using push_keeps_mutex I by blast
next
  case (spurious t)
  then show ?thesis using I [of u] I [of t] by (auto simp: in_section_goes dest: in_section_at)
qed

interpretation bq: monitor "BlockingQueue_init n" bq_step queue_op_mutex in_section
proof
  show "in_section t (BlockingQueue_init n) \<longleftrightarrow> queue_op_mutex (BlockingQueue_init n) = Some t" for t
    by (auto simp: in_section_def BlockingQueue_init_def)
qed (rule bq_keeps_mutex)

section \<open>First in, first out\<close>

text \<open>What holds in every state: nothing is lost or doubled, and a thread that has passed the test
  finds the queue as it was.\<close>

definition fifo :: "'a bqueue \<Rightarrow> bool" where
  "fifo s \<longleftrightarrow>
     pushed s = map snd (popped s) @ internal_queue s \<and> \<not> front_of_empty s \<and>
     (\<forall>t. at_step s t Pop_take \<longrightarrow> internal_queue s \<noteq> [])"

lemma at_step_goes:
  "at_step s t h0 \<Longrightarrow> at_step (goes t h s) u h1 \<longleftrightarrow> (if u = t then h1 = h else at_step s u h1)"
  "at_step (s\<lparr>queue_op_mutex := m\<rparr>) u h1 = at_step s u h1"
  "at_step (s\<lparr>internal_queue := q, popped := a\<rparr>) u h1 = at_step s u h1"
  "at_step (s\<lparr>internal_queue := q, pushed := b\<rparr>) u h1 = at_step s u h1"
  "at_step (s\<lparr>front_of_empty := f\<rparr>) u h1 = at_step s u h1"
  by (auto simp: at_step_def nth_list_update)

lemma pop_keeps_fifo:
  assumes "pop_step t s s'" and I: "\<And>t. in_section t s \<longleftrightarrow> queue_op_mutex s = Some t" and "fifo s"
  shows "fifo s'"
  using assms(1)
proof cases
  case (pop_take x q)
  have "\<not> at_step s u Pop_take" if "u \<noteq> t" for u
    using that I [of u] I [of t] in_section_at [OF pop_take(2)] by (auto dest: in_section_at)
  then show ?thesis using pop_take assms(3) by (auto simp: fifo_def at_step_goes)
qed (use assms(3) in \<open>auto simp: fifo_def at_step_goes split: if_splits\<close>)

lemma push_keeps_fifo:
  assumes "push_step t s s'" "fifo s"
  shows "fifo s'"
  using assms(1)
proof cases
  case (push_notify v)
  then have "at_step (goes v Pop_woken s) t Push_notify" by (auto simp: at_step_def nth_list_update)
  then show ?thesis using push_notify assms(2) by (auto simp: fifo_def at_step_goes split: if_splits)
qed (use assms(2) in \<open>auto simp: fifo_def at_step_goes split: if_splits\<close>)

lemma fifo_reachable:
  assumes "bq_step\<^sup>*\<^sup>* (BlockingQueue_init n) s"
  shows "fifo s"
  using assms
proof (rule bq.invariant)
  show "fifo (BlockingQueue_init n)" by (auto simp: fifo_def BlockingQueue_init_def at_step_def)
  show "fifo s'" if "bq_step s s'" "\<And>t. in_section t s \<longleftrightarrow> queue_op_mutex s = Some t" "fifo s" for s s' :: "'a bqueue"
    using that(1)
  proof cases
    case (Pop t)
    then show ?thesis using pop_keeps_fifo that by blast
  next
    case (Push t)
    then show ?thesis using push_keeps_fifo that(3) by blast
  next
    case (spurious t)
    then show ?thesis using that(3) by (auto simp: fifo_def at_step_goes split: if_splits)
  qed
qed

section \<open>No wake-up is lost\<close>

text \<open>The elements of the queue, while a thread waits, are spoken for: by a thread that will come
  to the test, or by a notification that is still to be sent.\<close>

definition consuming :: "'a bq_thread \<Rightarrow> bool" where
  "consuming h \<longleftrightarrow> h = Pop_lock \<or> h = Pop_woken \<or> h = Pop_test \<or> h = Pop_take"

definition notifying :: "'a bq_thread \<Rightarrow> bool" where
  "notifying h \<longleftrightarrow> h = Push_unlock \<or> h = Push_notify"

definition covered :: "'a bqueue \<Rightarrow> bool" where
  "covered s \<longleftrightarrow>
     (Pop_wait \<in> set (threads s) \<longrightarrow>
        length (internal_queue s) \<le> how_many consuming (threads s) + how_many notifying (threads s))"

lemma waits_goes: "h \<noteq> Pop_wait \<Longrightarrow> Pop_wait \<in> set ((threads s)[t := h]) \<Longrightarrow> Pop_wait \<in> set (threads s)"
  using set_update_subset_insert [of "threads s" t h] by auto

text \<open>What a step of one thread does to the two counts.\<close>

lemma counts_goes:
  assumes "at_step s t h0"
  shows "how_many consuming ((threads s)[t := h]) + (if consuming h0 then 1 else 0) =
      how_many consuming (threads s) + (if consuming h then 1 else 0)"
    "how_many notifying ((threads s)[t := h]) + (if notifying h0 then 1 else 0) =
      how_many notifying (threads s) + (if notifying h then 1 else 0)"
  using assms how_many_update [of t "threads s" consuming h] how_many_update [of t "threads s" notifying h]
  by (auto simp: at_step_def)

lemma pop_keeps_covered:
  assumes "pop_step t s s'" "covered s"
  shows "covered s'"
  using assms(1)
proof cases
  case pop_lock
  then obtain h0 where "at_step s t h0" "h0 = Pop_lock \<or> h0 = Pop_woken" by blast
  then show ?thesis
    using counts_goes [of s t h0 Pop_test] pop_lock(1) assms(2) waits_goes [of Pop_test s t]
    by (auto simp: covered_def consuming_def notifying_def)
next
  case pop_call
  then show ?thesis using counts_goes [OF pop_call(2), of Pop_lock] assms(2) waits_goes [of Pop_lock s t]
    by (auto simp: covered_def consuming_def notifying_def)
next
  case pop_go
  then show ?thesis using counts_goes [OF pop_go(2), of Pop_take] assms(2) waits_goes [of Pop_take s t]
    by (auto simp: covered_def consuming_def notifying_def)
next
  case (pop_take x q)
  then show ?thesis using counts_goes [OF pop_take(2), of "Pop_unlock x"] assms(2) waits_goes [of "Pop_unlock x" s t]
    by (auto simp: covered_def consuming_def notifying_def)
next
  case (pop_unlock x)
  then show ?thesis using counts_goes [OF pop_unlock(2), of Outside] assms(2) waits_goes [of Outside s t]
    by (auto simp: covered_def consuming_def notifying_def)
qed (use assms(2) in \<open>auto simp: covered_def\<close>)

lemma push_keeps_covered:
  assumes "push_step t s s'" "covered s"
  shows "covered s'"
  using assms(1)
proof cases
  case (push_call x)
  then show ?thesis using counts_goes [OF push_call(2), of "Push_lock x"] assms(2) waits_goes [of "Push_lock x" s t]
    by (auto simp: covered_def consuming_def notifying_def)
next
  case (push_lock x)
  then show ?thesis using counts_goes [OF push_lock(2), of "Push_push x"] assms(2) waits_goes [of "Push_push x" s t]
    by (auto simp: covered_def consuming_def notifying_def)
next
  case (push_push x)
  then show ?thesis using counts_goes [OF push_push(2), of Push_unlock] assms(2) waits_goes [of Push_unlock s t]
    by (auto simp: covered_def consuming_def notifying_def)
next
  case push_unlock
  then show ?thesis using counts_goes [OF push_unlock(2), of Push_notify] assms(2) waits_goes [of Push_notify s t]
    by (auto simp: covered_def consuming_def notifying_def)
next
  case (push_notify u)
  have "at_step (goes u Pop_woken s) t Push_notify" using push_notify by (auto simp: at_step_def nth_list_update)
  from counts_goes [OF this, of Outside] counts_goes [OF push_notify(3), of Pop_woken]
  have "how_many consuming (threads s') + how_many notifying (threads s') =
      how_many consuming (threads s) + how_many notifying (threads s)"
    using push_notify(1) by (simp add: consuming_def notifying_def)
  moreover have "Pop_wait \<in> set (threads s)" using push_notify(3) by (metis at_step_def nth_mem)
  ultimately show ?thesis using assms(2) push_notify(1) by (simp add: covered_def)
next
  case push_nobody
  then show ?thesis using waits_goes [of Outside s t] by (auto simp: covered_def)
qed

lemma covered_reachable:
  assumes "bq_step\<^sup>*\<^sup>* (BlockingQueue_init n) s"
  shows "covered s"
  using assms
proof (rule bq.invariant)
  show "covered (BlockingQueue_init n)" by (simp add: covered_def BlockingQueue_init_def)
  show "covered s'" if "bq_step s s'" "covered s" for s s' :: "'a bqueue"
    using that(1)
  proof cases
    case (spurious t)
    then show ?thesis using counts_goes [OF spurious(2), of Pop_woken] that(2) waits_goes [of Pop_woken s t]
      by (auto simp: covered_def consuming_def notifying_def)
  qed (use that(2) pop_keeps_covered push_keeps_covered in blast)+
qed

text \<open>A thread that is under way can go on, or another can.\<close>

definition proceeds :: "'a bqueue \<Rightarrow> bool" where
  "proceeds s \<longleftrightarrow>
     (\<exists>t < length (threads s). under_way (threads s ! t) \<and> (\<exists>s'. pop_step t s s' \<or> push_step t s s'))"

lemma free_proceeds:
  assumes "queue_op_mutex s = None" "t < length (threads s)" "under_way (threads s ! t)" "\<not> holds_mutex (threads s ! t)"
  shows "\<exists>s'. pop_step t s s' \<or> push_step t s s'"
proof -
  have at: "at_step s t (threads s ! t)" using assms(2) by (simp add: at_step_def)
  show ?thesis
  proof (cases "threads s ! t")
    case Push_notify
    show ?thesis
    proof (cases "\<exists>u. at_step s u Pop_wait")
      case True
      then show ?thesis using at Push_notify by (metis push_notify)
    next
      case False
      then have "\<forall>h \<in> set (threads s). h \<noteq> Pop_wait" by (auto simp: at_step_def in_set_conv_nth)
      then show ?thesis using at Push_notify by (metis push_nobody)
    qed
  qed (use assms at in \<open>auto simp: under_way_def intro: pop_lock push_lock\<close>)
qed

lemma holder_proceeds:
  assumes "at_step s t h" "holds_mutex h"
  shows "\<exists>s'. pop_step t s s' \<or> push_step t s s'"
  using assms
  by (cases h; cases "internal_queue s") (fastforce intro: pop_step.intros push_step.intros)+

lemma under_way_proceeds:
  assumes "bq_step\<^sup>*\<^sup>* (BlockingQueue_init n) s" "t < length (threads s)" "under_way (threads s ! t)"
  shows "proceeds s"
proof (cases "queue_op_mutex s")
  case None
  then have "\<not> holds_mutex (threads s ! t)" using bq.inside_holds [OF assms(1), of t] assms(2) by (simp add: in_section_def)
  then show ?thesis using free_proceeds [OF None assms(2,3)] assms(2,3) unfolding proceeds_def by blast
next
  case (Some u)
  then have u: "u < length (threads s)" "holds_mutex (threads s ! u)"
    using bq.inside_holds [OF assms(1), of u] by (simp_all add: in_section_def)
  then have "\<exists>s'. pop_step u s s' \<or> push_step u s s'" by (intro holder_proceeds [of _ _ "threads s ! u"]) (simp_all add: at_step_def)
  moreover have "under_way (threads s ! u)" using u(2) by (cases "threads s ! u") (auto simp: under_way_def)
  ultimately show ?thesis using u(1) unfolding proceeds_def by blast
qed

section \<open>Properties\<close>

text \<open>C17: whatever the threads do and however they are scheduled, the elements come out of the queue in
  the order in which they went in, each once; no thread takes the front of an empty queue, and no
  two threads are inside the mutex.\<close>

theorem blocking_queue_fifo:
  assumes "bq_step\<^sup>*\<^sup>* (BlockingQueue_init n) s"
  shows "pushed s = map snd (popped s) @ internal_queue s \<and> \<not> front_of_empty s \<and>
    (\<forall>t u. in_section t s \<longrightarrow> in_section u s \<longrightarrow> t = u)"
  using fifo_reachable [OF assms] bq.mutual_exclusion [OF assms] by (auto simp: fifo_def)

text \<open>C18: a thread does not sleep in \<open>Pop\<close> for ever while there is something for it: as long as
  the queue has an element and a thread waits, some thread is under way in \<open>Pop\<close> or \<open>Push\<close> and can
  take a step, though \<open>Push\<close> notifies after it has given back the mutex.\<close>

theorem blocking_queue_wakes:
  assumes "bq_step\<^sup>*\<^sup>* (BlockingQueue_init n) s" "at_step s t Pop_wait" "internal_queue s \<noteq> []"
  shows "proceeds s"
proof -
  have "Pop_wait \<in> set (threads s)" using assms(2) by (metis at_step_def nth_mem)
  then have "0 < how_many consuming (threads s) + how_many notifying (threads s)"
    using covered_reachable [OF assms(1)] assms(3) by (auto simp: covered_def intro: Nat.gr0I)
  then obtain u where "u < length (threads s)" "consuming (threads s ! u) \<or> notifying (threads s ! u)"
    by (auto simp: how_many_pos)
  then show ?thesis
    by (intro under_way_proceeds [OF assms(1), of u]) (auto simp: under_way_def consuming_def notifying_def)
qed

text \<open>Thread 0 waits, thread 1 has pushed and given back the mutex.\<close>

definition one_waits :: "nat bqueue" where
  "one_waits = \<lparr>internal_queue = [7], queue_op_mutex = None, front_of_empty = False, threads = [Pop_wait, Push_notify],
     pushed = [7], popped = []\<rparr>"

lemma one_waits_reachable: "bq_step\<^sup>*\<^sup>* (BlockingQueue_init 2) one_waits"
proof -
  let ?s = "\<lambda>q m a b p. \<lparr>internal_queue = q, queue_op_mutex = m, front_of_empty = False, threads = [a, b],
     pushed = p, popped = []\<rparr> :: nat bqueue"
  have "BlockingQueue_init 2 = ?s [] None Outside Outside []" by (simp add: BlockingQueue_init_def numeral_2_eq_2)
  moreover have "bq_step (?s [] None Outside Outside []) (?s [] None Pop_lock Outside [])"
    using pop_call [of "?s [] None Outside Outside []" 0] by (auto simp: at_step_def goes_def intro: bq_step.Pop)
  moreover have "bq_step (?s [] None Pop_lock Outside []) (?s [] (Some 0) Pop_test Outside [])"
    using pop_lock [of "?s [] None Pop_lock Outside []" 0] by (auto simp: at_step_def goes_def intro: bq_step.Pop)
  moreover have "bq_step (?s [] (Some 0) Pop_test Outside []) (?s [] None Pop_wait Outside [])"
    using pop_wait [of "?s [] (Some 0) Pop_test Outside []" 0] by (auto simp: at_step_def goes_def intro: bq_step.Pop)
  moreover have "bq_step (?s [] None Pop_wait Outside []) (?s [] None Pop_wait (Push_lock 7) [])"
    using push_call [of "?s [] None Pop_wait Outside []" 1 7] by (auto simp: at_step_def goes_def intro: bq_step.Push)
  moreover have "bq_step (?s [] None Pop_wait (Push_lock 7) []) (?s [] (Some 1) Pop_wait (Push_push 7) [])"
    using push_lock [of "?s [] None Pop_wait (Push_lock 7) []" 1 7] by (auto simp: at_step_def goes_def intro: bq_step.Push)
  moreover have "bq_step (?s [] (Some 1) Pop_wait (Push_push 7) []) (?s [7] (Some 1) Pop_wait Push_unlock [7])"
    using push_push [of "?s [] (Some 1) Pop_wait (Push_push 7) []" 1 7] by (auto simp: at_step_def goes_def intro: bq_step.Push)
  moreover have "bq_step (?s [7] (Some 1) Pop_wait Push_unlock [7]) one_waits"
    using push_unlock [of "?s [7] (Some 1) Pop_wait Push_unlock [7]" 1]
    by (auto simp: at_step_def goes_def one_waits_def intro: bq_step.Push)
  ultimately show ?thesis by (metis (no_types, lifting) rtranclp.simps)
qed

theorem blocking_queue_fifo_witness:
  "pushed one_waits = map snd (popped one_waits) @ internal_queue one_waits \<and> \<not> front_of_empty one_waits \<and>
    \<not> (in_section 0 one_waits \<and> in_section 1 one_waits)"
  using blocking_queue_fifo [OF one_waits_reachable] by auto

theorem blocking_queue_wakes_witness: "proceeds one_waits"
  by (rule blocking_queue_wakes [OF one_waits_reachable, of 0]) (simp_all add: one_waits_def at_step_def)

end
