(* ===== verification/Event_Loop_Thread.thy ===== *)
theory Event_Loop_Thread
  imports Monitor
begin

text \<open>
  \<open>EventLoopThread\<close> (include/fx_event_loop_thread.h, src/fx_event_loop_thread.cc): \<open>StartLoop\<close>
  makes a thread whose \<open>EventLoop\<close> is a local variable of that thread, and waits until the
  thread has put its address into \<open>loop_\<close>. Thread 0 is the one that calls \<open>StartLoop\<close>, thread 1 runs
  \<open>CreateLoopAndRun\<close>; \<open>thread_\<close> is null as long as that is \<open>Run_none\<close>. The steps are those between
  which the other thread can run. \<open>addr\<close> is the address of the loop.
\<close>

section \<open>The two threads\<close>

datatype start_at =
    Start_call
  | Start_lock
  | Start_test
  | Start_wait
  | Start_woken
  | Start_return
  | Start_done "nat option"

datatype run_at =
    Run_none
  | Run_call
  | Run_lock
  | Run_set
  | Run_unlock
  | Run_notify
  | Run_loop nat

record loop_thread =
  lt_loop :: "nat option"
  lt_mutex :: "nat option"
  lt_start :: start_at
  lt_run :: run_at
  lt_assertion_failed :: bool
  lt_null_loop :: bool

definition EventLoopThread_init :: loop_thread where
  "EventLoopThread_init =
     \<lparr>lt_loop = None, lt_mutex = None, lt_start = Start_call, lt_run = Run_none,
      lt_assertion_failed = False, lt_null_loop = False\<rparr>"

text \<open>\<open>StartLoop\<close>.\<close>

inductive StartLoop_step :: "loop_thread \<Rightarrow> loop_thread \<Rightarrow> bool" where
  start_assert: "lt_start s = Start_call \<Longrightarrow> lt_run s \<noteq> Run_none \<Longrightarrow> StartLoop_step s (s\<lparr>lt_assertion_failed := True\<rparr>)"
| start_call: "lt_start s = Start_call \<Longrightarrow> lt_run s = Run_none \<Longrightarrow>
    StartLoop_step s (s\<lparr>lt_run := Run_call, lt_start := Start_lock\<rparr>)"
| start_lock: "lt_start s = Start_lock \<or> lt_start s = Start_woken \<Longrightarrow> lt_mutex s = None \<Longrightarrow>
    StartLoop_step s (s\<lparr>lt_mutex := Some 0, lt_start := Start_test\<rparr>)"
| start_wait: "lt_start s = Start_test \<Longrightarrow> lt_loop s = None \<Longrightarrow>
    StartLoop_step s (s\<lparr>lt_mutex := None, lt_start := Start_wait\<rparr>)"
| start_go: "lt_start s = Start_test \<Longrightarrow> lt_loop s \<noteq> None \<Longrightarrow>
    StartLoop_step s (s\<lparr>lt_mutex := None, lt_start := Start_return\<rparr>)"
| start_return: "lt_start s = Start_return \<Longrightarrow> StartLoop_step s (s\<lparr>lt_start := Start_done (lt_loop s)\<rparr>)"

text \<open>\<open>CreateLoopAndRun\<close>, up to the call of \<open>Run\<close>.\<close>

inductive CreateLoop_step :: "nat \<Rightarrow> loop_thread \<Rightarrow> loop_thread \<Rightarrow> bool" where
  run_assert: "lt_run s = Run_call \<Longrightarrow> lt_loop s \<noteq> None \<Longrightarrow> CreateLoop_step addr s (s\<lparr>lt_assertion_failed := True\<rparr>)"
| run_call: "lt_run s = Run_call \<Longrightarrow> lt_loop s = None \<Longrightarrow> CreateLoop_step addr s (s\<lparr>lt_run := Run_lock\<rparr>)"
| run_lock: "lt_run s = Run_lock \<Longrightarrow> lt_mutex s = None \<Longrightarrow>
    CreateLoop_step addr s (s\<lparr>lt_mutex := Some 1, lt_run := Run_set\<rparr>)"
| run_set: "lt_run s = Run_set \<Longrightarrow> CreateLoop_step addr s (s\<lparr>lt_loop := Some addr, lt_run := Run_unlock\<rparr>)"
| run_unlock: "lt_run s = Run_unlock \<Longrightarrow> CreateLoop_step addr s (s\<lparr>lt_mutex := None, lt_run := Run_notify\<rparr>)"
| run_notify: "lt_run s = Run_notify \<Longrightarrow> lt_loop s = Some l \<Longrightarrow>
    CreateLoop_step addr s
      (s\<lparr>lt_start := (if lt_start s = Start_wait then Start_woken else lt_start s), lt_run := Run_loop l\<rparr>)"
| run_null: "lt_run s = Run_notify \<Longrightarrow> lt_loop s = None \<Longrightarrow> CreateLoop_step addr s (s\<lparr>lt_null_loop := True\<rparr>)"

definition lt_step :: "nat \<Rightarrow> loop_thread \<Rightarrow> loop_thread \<Rightarrow> bool" where
  "lt_step addr s s' \<longleftrightarrow> StartLoop_step s s' \<or> CreateLoop_step addr s s'"

text \<open>With the waking up for no reason that a condition variable allows.\<close>

definition lt_any_step :: "nat \<Rightarrow> loop_thread \<Rightarrow> loop_thread \<Rightarrow> bool" where
  "lt_any_step addr s s' \<longleftrightarrow> lt_step addr s s' \<or> lt_start s = Start_wait \<and> s' = s\<lparr>lt_start := Start_woken\<rparr>"

section \<open>The mutex\<close>

definition lt_inside :: "nat \<Rightarrow> loop_thread \<Rightarrow> bool" where
  "lt_inside t s \<longleftrightarrow> t = 0 \<and> lt_start s = Start_test \<or> t = 1 \<and> (lt_run s = Run_set \<or> lt_run s = Run_unlock)"

lemma lt_keeps_mutex:
  assumes "lt_any_step addr s s'" "\<And>t. lt_inside t s \<longleftrightarrow> lt_mutex s = Some t"
  shows "lt_inside t s' \<longleftrightarrow> lt_mutex s' = Some t"
proof -
  note i = assms(2) [of t] assms(2) [of 0] assms(2) [of 1]
  consider "StartLoop_step s s'" | "CreateLoop_step addr s s'" | "lt_start s = Start_wait" "s' = s\<lparr>lt_start := Start_woken\<rparr>"
    using assms(1) by (auto simp: lt_any_step_def lt_step_def)
  then show ?thesis
  proof cases
    case 1
    then show ?thesis by cases (use i in \<open>auto simp: lt_inside_def\<close>)
  next
    case 2
    then show ?thesis by cases (use i in \<open>auto simp: lt_inside_def\<close>)
  next
    case 3
    then show ?thesis using i by (auto simp: lt_inside_def)
  qed
qed

interpretation lt: monitor EventLoopThread_init "lt_any_step addr" lt_mutex lt_inside
proof
  show "lt_inside t EventLoopThread_init \<longleftrightarrow> lt_mutex EventLoopThread_init = Some t" for t
    by (simp add: lt_inside_def EventLoopThread_init_def)
qed (rule lt_keeps_mutex)

section \<open>The states that are reached\<close>

text \<open>How far the new thread is, the value of \<open>loop_\<close>, and what the caller can have seen of them.\<close>

definition lt_ok :: "nat \<Rightarrow> loop_thread \<Rightarrow> bool" where
  "lt_ok addr s \<longleftrightarrow>
     \<not> lt_assertion_failed s \<and> \<not> lt_null_loop s \<and>
     (lt_run s = Run_none \<longleftrightarrow> lt_start s = Start_call) \<and>
     lt_loop s = (if lt_run s \<in> {Run_none, Run_call, Run_lock, Run_set} then None else Some addr) \<and>
     (\<forall>l. lt_run s = Run_loop l \<longrightarrow> l = addr \<and> lt_start s \<noteq> Start_wait) \<and>
     (lt_start s = Start_return \<longrightarrow> lt_loop s = Some addr) \<and>
     (\<forall>r. lt_start s = Start_done r \<longrightarrow> r = Some addr \<and> lt_loop s = Some addr)"

lemma StartLoop_keeps:
  assumes "StartLoop_step s s'" "lt_ok addr s"
  shows "lt_ok addr s'"
  using assms(1)
proof cases
  case start_wait
  have "\<forall>l. lt_run s \<noteq> Run_loop l" using assms(2) start_wait(3) by (auto simp: lt_ok_def)
  then show ?thesis using start_wait assms(2) by (simp add: lt_ok_def split: if_splits)
qed (use assms(2) in \<open>simp_all add: lt_ok_def split: if_splits\<close>, auto)

lemma CreateLoop_keeps:
  assumes "CreateLoop_step addr s s'" "lt_ok addr s"
  shows "lt_ok addr s'"
  using assms(1) by cases (use assms(2) in \<open>auto simp: lt_ok_def split: if_splits\<close>)

lemma lt_ok_reachable:
  assumes "(lt_any_step addr)\<^sup>*\<^sup>* EventLoopThread_init s"
  shows "lt_ok addr s"
  using assms
proof (rule lt.invariant)
  show "lt_ok addr EventLoopThread_init" by (simp add: lt_ok_def EventLoopThread_init_def)
  show "lt_ok addr s'" if "lt_any_step addr s s'" "lt_ok addr s" for s s'
    using that StartLoop_keeps CreateLoop_keeps by (auto simp: lt_any_step_def lt_step_def) (simp add: lt_ok_def)
qed

section \<open>The start ends\<close>

fun start_rank :: "start_at \<Rightarrow> nat" where
  "start_rank Start_call = 5"
| "start_rank Start_lock = 4"
| "start_rank Start_woken = 4"
| "start_rank Start_test = 3"
| "start_rank Start_wait = 2"
| "start_rank Start_return = 1"
| "start_rank (Start_done r) = 0"

fun run_rank :: "run_at \<Rightarrow> nat" where
  "run_rank Run_none = 6"
| "run_rank Run_call = 5"
| "run_rank Run_lock = 4"
| "run_rank Run_set = 3"
| "run_rank Run_unlock = 2"
| "run_rank Run_notify = 1"
| "run_rank (Run_loop l) = 0"

definition lt_rank :: "loop_thread \<Rightarrow> nat" where
  "lt_rank s = 3 * run_rank (lt_run s) + start_rank (lt_start s)"

lemma lt_step_rank:
  assumes "lt_step addr s s'" "lt_ok addr s"
  shows "lt_rank s' < lt_rank s"
proof -
  consider "StartLoop_step s s'" | "CreateLoop_step addr s s'" using assms(1) by (auto simp: lt_step_def)
  then show ?thesis
  proof cases
    case 1
    then show ?thesis by cases (use assms(2) in \<open>auto simp: lt_rank_def lt_ok_def\<close>)
  next
    case 2
    then show ?thesis by cases (use assms(2) in \<open>auto simp: lt_rank_def lt_ok_def split: if_splits\<close>)
  qed
qed

lemma lt_step_ok: "lt_step addr s s' \<Longrightarrow> lt_ok addr s \<Longrightarrow> lt_ok addr s'"
  using StartLoop_keeps CreateLoop_keeps by (auto simp: lt_step_def)

lemma lt_run_short: "(lt_step addr ^^ n) s s' \<Longrightarrow> lt_ok addr s \<Longrightarrow> n + lt_rank s' \<le> lt_rank s"
proof (induction n arbitrary: s')
  case (Suc n)
  then obtain s1 where s1: "(lt_step addr ^^ n) s s1" "lt_step addr s1 s'" by auto
  have "lt_ok addr s1" using s1(1) Suc.prems(2)
  proof (induction n arbitrary: s1)
    case (Suc n)
    then show ?case using lt_step_ok by auto
  qed simp
  then show ?case using Suc.IH [OF s1(1) Suc.prems(2)] lt_step_rank [OF s1(2)] by simp
qed simp

lemma lt_run_ends: "\<exists>s. (lt_any_step addr)\<^sup>*\<^sup>* EventLoopThread_init s \<and> (\<nexists>s'. lt_step addr s s')"
proof -
  have "\<exists>s. (lt_any_step addr)\<^sup>*\<^sup>* EventLoopThread_init s \<and> (\<nexists>s'. lt_step addr s s')"
    if "(lt_any_step addr)\<^sup>*\<^sup>* EventLoopThread_init s" for s
    using that
  proof (induction s rule: measure_induct_rule [of lt_rank])
    case (less s)
    show ?case
    proof (cases "\<exists>s'. lt_step addr s s'")
      case True
      then obtain s' where s': "lt_step addr s s'" ..
      moreover from this have "(lt_any_step addr)\<^sup>*\<^sup>* EventLoopThread_init s'"
        by (intro rtranclp.rtrancl_into_rtrancl [OF less.prems]) (simp add: lt_any_step_def)
      ultimately show ?thesis using less.IH lt_step_rank lt_ok_reachable less.prems by blast
    qed (use less.prems in blast)
  qed
  then show ?thesis by blast
qed

lemma lt_progress:
  assumes "lt_ok addr s" and I: "\<And>t. lt_inside t s \<longleftrightarrow> lt_mutex s = Some t"
    and "\<not> (lt_start s = Start_done (Some addr) \<and> lt_run s = Run_loop addr)"
  shows "\<exists>s'. lt_step addr s s'"
proof (cases "lt_mutex s")
  case None
  then have free: "lt_start s \<noteq> Start_test" "lt_run s \<noteq> Run_set" "lt_run s \<noteq> Run_unlock"
    using I [of 0] I [of 1] by (auto simp: lt_inside_def)
  show ?thesis
  proof (cases "lt_run s")
    case Run_call
    then have "lt_loop s = None" using assms(1) by (simp add: lt_ok_def)
    then show ?thesis using run_call Run_call unfolding lt_step_def by blast
  next
    case Run_lock
    then show ?thesis using run_lock None unfolding lt_step_def by blast
  next
    case Run_notify
    then have "lt_loop s = Some addr" using assms(1) by (simp add: lt_ok_def)
    then show ?thesis using run_notify Run_notify unfolding lt_step_def by blast
  next
    case Run_none
    then have "lt_start s = Start_call" using assms(1) by (simp add: lt_ok_def)
    then show ?thesis using start_call Run_none unfolding lt_step_def by blast
  next
    case (Run_loop l)
    then have "l = addr" "lt_start s \<noteq> Start_wait" "lt_start s \<noteq> Start_call" "\<And>r. lt_start s = Start_done r \<Longrightarrow> r = Some addr"
      using assms(1) by (auto simp: lt_ok_def)
    then have "lt_start s \<in> {Start_lock, Start_woken, Start_return}"
      using free(1) assms(3) Run_loop by (cases "lt_start s") auto
    then show ?thesis using start_lock start_return None unfolding lt_step_def by blast
  qed (use free in simp_all)
next
  case (Some t)
  then have "lt_inside t s" using I by simp
  then consider "lt_start s = Start_test" | "lt_run s = Run_set" | "lt_run s = Run_unlock" by (auto simp: lt_inside_def)
  then show ?thesis
    by cases (use start_wait start_go run_set run_unlock in \<open>unfold lt_step_def, blast+\<close>)
qed

text \<open>C16: \<open>StartLoop\<close> returns, and what it returns is the loop that the new thread runs, never null. No
  assertion of the two threads fails; however they are scheduled (and however often the waiting
  thread wakes for no reason before), from any state that is reached at most 23 steps are left,
  and when no step is left both threads are where they should be.\<close>

theorem StartLoop_returns:
  assumes "(lt_any_step addr)\<^sup>*\<^sup>* EventLoopThread_init s"
  shows "\<not> lt_assertion_failed s \<and> \<not> lt_null_loop s \<and> (\<forall>r. lt_start s = Start_done r \<longrightarrow> r = Some addr) \<and>
    (\<forall>n s'. (lt_step addr ^^ n) s s' \<longrightarrow> n \<le> 23) \<and>
    ((\<nexists>s'. lt_step addr s s') \<longrightarrow> lt_start s = Start_done (Some addr) \<and> lt_run s = Run_loop addr)"
proof -
  have ok: "lt_ok addr s" by (rule lt_ok_reachable [OF assms])
  have "run_rank h \<le> 6" "start_rank g \<le> 5" for h g by (cases h; simp) (cases g; simp)
  then have "lt_rank s \<le> 3 * 6 + 5" unfolding lt_rank_def by (intro add_mono mult_le_mono) simp_all
  then have "n \<le> 23" if "(lt_step addr ^^ n) s s'" for n s' using lt_run_short [OF that ok] by simp
  moreover have "lt_start s = Start_done (Some addr) \<and> lt_run s = Run_loop addr" if "\<nexists>s'. lt_step addr s s'"
    using lt_progress [OF ok lt.inside_holds [OF assms]] that by blast
  moreover have "\<not> lt_assertion_failed s" "\<not> lt_null_loop s" "\<forall>r. lt_start s = Start_done r \<longrightarrow> r = Some addr"
    using ok by (simp_all add: lt_ok_def)
  ultimately show ?thesis by blast
qed

theorem StartLoop_returns_witness:
  "(\<nexists>s'. (lt_step 9 ^^ 24) EventLoopThread_init s') \<and>
    (\<exists>s. (lt_any_step 9)\<^sup>*\<^sup>* EventLoopThread_init s \<and> lt_start s = Start_done (Some 9) \<and> lt_run s = Run_loop 9)"
proof
  have "(lt_any_step 9)\<^sup>*\<^sup>* EventLoopThread_init EventLoopThread_init" by simp
  from StartLoop_returns [OF this] show "\<nexists>s'. (lt_step 9 ^^ 24) EventLoopThread_init s'" by fastforce
  obtain s where s: "(lt_any_step 9)\<^sup>*\<^sup>* EventLoopThread_init s" "\<nexists>s'. lt_step 9 s s'" using lt_run_ends by blast
  then show "\<exists>s. (lt_any_step 9)\<^sup>*\<^sup>* EventLoopThread_init s \<and> lt_start s = Start_done (Some 9) \<and> lt_run s = Run_loop 9"
    using StartLoop_returns [OF s(1)] by blast
qed

end
