(* ===== verification/Time_Base.thy ===== *)
theory Time_Base
  imports Fx_Prelude
begin

text \<open>
  The clock (include/fx_base.h, src/fx_base.cc). \<open>Now\<close> divides the microseconds of
  \<open>gettimeofday\<close> by 1000 as a \<open>double\<close>. A \<open>double\<close> has 53 bits of precision and is rounded to
  the nearest value, ties to even: the quotient is an integer divided by a power of two. The
  values of \<open>gettimeofday\<close> are arguments.
\<close>

section \<open>Numbers with 53 bits\<close>

text \<open>The integer nearest to \<open>a / b\<close>.\<close>

definition nearest :: "nat \<Rightarrow> nat \<Rightarrow> nat" where
  "nearest a b =
     (if 2 * (a mod b) < b \<or> 2 * (a mod b) = b \<and> even (a div b) then a div b else a div b + 1)"

text \<open>\<open>static_cast<double>\<close> of a \<open>uint64_t\<close>.\<close>

definition to_double :: "nat \<Rightarrow> nat" where
  "to_double x =
     (case List.find (\<lambda>e. x < 2 ^ (53 + e)) [0 ..< 12] of
        Some e \<Rightarrow> nearest x (2 ^ e) * 2 ^ e
      | None \<Rightarrow> x)"

text \<open>The quotient of a \<open>double\<close> below \<open>2 ^ 53 * d\<close> by \<open>d\<close>: a mantissa of 53 bits, and how far the
  point is moved to the left.\<close>

definition divide_double :: "nat \<Rightarrow> nat \<Rightarrow> nat \<times> nat" where
  "divide_double x d =
     (case List.find (\<lambda>k. 2 ^ 52 * d \<le> x * 2 ^ k) [0 ..< 64] of
        Some k \<Rightarrow> (nearest (x * 2 ^ k) d, k)
      | None \<Rightarrow> (0, 0))"

section \<open>The clock\<close>

definition Now :: "nat \<Rightarrow> nat \<Rightarrow> nat" where
  "Now tv_sec tv_usec =
     (case divide_double (to_double (size_add (size_mul tv_sec 1000000) tv_usec)) 1000 of (m, k) \<Rightarrow> m div 2 ^ k)"

definition ProgressTimer_Now :: "nat \<Rightarrow> nat \<Rightarrow> nat" where
  "ProgressTimer_Now tv_sec tv_usec = size_add (size_mul tv_sec 1000000) tv_usec"

text \<open>The timer keeps the time of its start; its destructor prints the difference, an unsigned number.\<close>

definition ProgressTimer_init :: "nat \<times> nat \<Rightarrow> nat" where
  "ProgressTimer_init tv = (case tv of (sec, usec) \<Rightarrow> ProgressTimer_Now sec usec)"

definition ProgressTimer_delete :: "nat \<Rightarrow> nat \<times> nat \<Rightarrow> string" where
  "ProgressTimer_delete s tv =
     (case tv of (sec, usec) \<Rightarrow>
        decimal (nat ((int (ProgressTimer_Now sec usec) - int s) mod 2 ^ 64)) @ '' us'' @ [CHR 0x0A])"

section \<open>The milliseconds are exact\<close>

lemma nearest_bounds:
  assumes "0 < b"
  shows "a div b \<le> nearest a b" "2 * b * nearest a b \<le> 2 * a + b"
proof -
  show "a div b \<le> nearest a b" by (simp add: nearest_def)
  have "2 * b * (a div b) + 2 * (a mod b) = 2 * (b * (a div b) + a mod b)" by (simp only: distrib_left mult.assoc)
  also have "\<dots> = 2 * a" by simp
  finally have q: "2 * b * (a div b) + 2 * (a mod b) = 2 * a" .
  show "2 * b * nearest a b \<le> 2 * a + b"
  proof (cases "nearest a b = a div b")
    case True
    then show ?thesis using q by simp
  next
    case False
    then have "nearest a b = a div b + 1" "b \<le> 2 * (a mod b)" by (auto simp: nearest_def split: if_splits)
    then show ?thesis using q by (simp add: algebra_simps)
  qed
qed

lemma nearest_1 [simp]: "nearest a (Suc 0) = a"
  by (simp add: nearest_def)

lemma to_double_exact: "x < 2 ^ 53 \<Longrightarrow> to_double x = x"
  by (simp add: to_double_def upt_conv_Cons)

lemma rounded_div:
  assumes "0 < d" "d < 2 * 2 ^ k"
  shows "nearest (x * 2 ^ k) d div 2 ^ k = x div d"
proof (rule div_nat_eqI)
  let ?q = "x div d" and ?m = "nearest (x * 2 ^ k) d"
  have "?q * 2 ^ k \<le> x * 2 ^ k div d"
    using assms(1) by (simp add: less_eq_div_iff_mult_less_eq mult.assoc mult.commute mult.left_commute)
  then show "2 ^ k * ?q \<le> ?m" using nearest_bounds(1) [OF assms(1), of "x * 2 ^ k"] by (simp add: mult.commute)
  have "x + 1 \<le> d * (?q + 1)"
    using assms(1) by (metis Suc_eq_plus1 Suc_leI dividend_less_times_div mult_Suc_right add.commute)
  then have "(x + 1) * 2 ^ k \<le> d * (?q + 1) * 2 ^ k" by (rule mult_le_mono1)
  then have "2 * (x * 2 ^ k) + 2 * 2 ^ k \<le> 2 * d * ((?q + 1) * 2 ^ k)" by (simp add: algebra_simps)
  then have "2 * d * ?m < 2 * d * ((?q + 1) * 2 ^ k)"
    using nearest_bounds(2) [OF assms(1), of "x * 2 ^ k"] assms(2) by linarith
  then show "?m < 2 ^ k * Suc ?q" by (simp add: mult.commute)
qed

lemma divide_double_exact:
  assumes "x < 2 ^ 53"
  shows "(case divide_double x 1000 of (m, k) \<Rightarrow> m div 2 ^ k) = x div 1000"
proof (cases "x = 0")
  case True
  then show ?thesis by (simp add: divide_double_def find_None_iff nearest_def split: option.splits)
next
  case False
  have "2 ^ 52 * 1000 \<le> (2 ^ 63 :: nat)" by simp
  also have "\<dots> \<le> x * 2 ^ 63" using False by simp
  finally have "2 ^ 52 * 1000 \<le> x * 2 ^ 63" .
  then obtain k where k: "List.find (\<lambda>k. 2 ^ 52 * 1000 \<le> x * 2 ^ k) [0 ..< 64] = Some k" "2 ^ 52 * 1000 \<le> x * 2 ^ k"
  proof (cases "List.find (\<lambda>k. 2 ^ 52 * 1000 \<le> x * 2 ^ k) [0 ..< 64]")
    case None
    then have "\<forall>k \<in> {0 ..< 64}. \<not> 2 ^ 52 * 1000 \<le> x * 2 ^ k" unfolding find_None_iff by auto
    then have "\<not> 2 ^ 52 * 1000 \<le> x * 2 ^ 63" by (rule bspec) simp
    then show ?thesis using \<open>2 ^ 52 * 1000 \<le> x * 2 ^ 63\<close> by contradiction
  qed (auto simp: find_Some_iff)
  have "x * 2 ^ k < 2 ^ 53 * 2 ^ k" using assms by simp
  then have "2 ^ 52 * 1000 < 2 ^ 53 * (2 ^ k :: nat)" using k(2) by (rule le_less_trans [rotated])
  then have "(1000 :: nat) < 2 * 2 ^ k" by simp
  then show ?thesis using k(1) rounded_div [of 1000 k x] by (simp add: divide_double_def)
qed

text \<open>C38: \<open>Now\<close> is exact in spite of its division in floating point: as long as the microseconds since
  1970 fit into 53 bits (up to the year 2255) it is the number of whole milliseconds, so time never
  runs backwards through rounding.\<close>

theorem Now_exact:
  assumes "tv_sec * 1000000 + tv_usec < 2 ^ 53"
  shows "Now tv_sec tv_usec = (tv_sec * 1000000 + tv_usec) div 1000"
proof -
  have "size_add (size_mul tv_sec 1000000) tv_usec = tv_sec * 1000000 + tv_usec"
    using assms by simp
  then show ?thesis using to_double_exact [OF assms] divide_double_exact [OF assms] by (simp add: Now_def)
qed

theorem Now_exact_witness:
  "Now 1396000000 999999 = (1396000000 * 1000000 + 999999) div 1000"
  by (rule Now_exact) simp

text \<open>A clock that is set back makes the timer print a huge number.\<close>

lemma ProgressTimer_back:
  "s \<le> 2 ^ 64 - 1 \<Longrightarrow> ProgressTimer_Now sec usec < s \<Longrightarrow>
     ProgressTimer_delete s (sec, usec) = decimal (2 ^ 64 + ProgressTimer_Now sec usec - s) @ '' us'' @ [CHR 0x0A]"
proof -
  assume s: "s \<le> 2 ^ 64 - 1" "ProgressTimer_Now sec usec < s"
  let ?n = "ProgressTimer_Now sec usec"
  have "(int ?n - int s) mod 2 ^ 64 = (int ?n - int s + 2 ^ 64) mod 2 ^ 64" by simp
  also have "\<dots> = int ?n - int s + 2 ^ 64" using s by (intro mod_pos_pos_trivial) simp_all
  finally have "nat ((int ?n - int s) mod 2 ^ 64) = 2 ^ 64 + ?n - s" by simp
  then show ?thesis by (simp add: ProgressTimer_delete_def)
qed

end
