(* ===== verification/Object_Pool.thy ===== *)
theory Object_Pool
  imports Fx_Prelude
begin

text \<open>
  \<open>ObjectPool\<close> (include/fx_object_pool.hpp): objects of one type in the chunks of a
  \<open>boost::pool\<close>. Boost's pool is a parameter, the record \<open>chunk_pool\<close>; \<open>pool_documented\<close> states what
  its documentation says: \<open>malloc\<close> gives a chunk that is not handed out, or null, and \<open>free\<close> takes a
  chunk back. An address is a natural number, null is 0; \<open>objects\<close> are the live objects.
\<close>

record 's chunk_pool =
  pool_malloc :: "'s \<Rightarrow> nat \<times> 's"
  pool_free :: "nat \<Rightarrow> 's \<Rightarrow> 's"

definition pool_documented :: "('s \<Rightarrow> nat set) \<Rightarrow> 's chunk_pool \<Rightarrow> bool" where
  "pool_documented handed_out bp \<longleftrightarrow>
     (\<forall>s. case pool_malloc bp s of (p, s1) \<Rightarrow>
        if p = 0 then handed_out s1 = handed_out s
        else p \<notin> handed_out s \<and> handed_out s1 = insert p (handed_out s)) \<and>
     (\<forall>s. \<forall>p \<in> handed_out s. handed_out (pool_free bp p s) = handed_out s - {p})"

record ('s, 'a) object_pool =
  op_pool :: 's
  op_objects :: "nat \<rightharpoonup> 'a"

definition ObjectPool_init :: "'s \<Rightarrow> ('s, 'a) object_pool" where
  "ObjectPool_init s = \<lparr>op_pool = s, op_objects = Map.empty\<rparr>"

text \<open>The result of \<open>malloc\<close> is not looked at; \<open>fresh\<close> is the value the constructor of \<open>T\<close> gives.\<close>

definition Construct :: "'s chunk_pool \<Rightarrow> 'a \<Rightarrow> ('s, 'a) object_pool \<Rightarrow> (nat \<times> ('s, 'a) object_pool) result" where
  "Construct bp fresh w =
     (case pool_malloc bp (op_pool w) of (p, s1) \<Rightarrow>
        if p = 0 then Inl Null_dereference
        else Inr (p, w\<lparr>op_pool := s1, op_objects := (op_objects w)(p \<mapsto> fresh)\<rparr>))"

definition Destroy_object :: "'s chunk_pool \<Rightarrow> nat \<Rightarrow> ('s, 'a) object_pool \<Rightarrow> ('s, 'a) object_pool result" where
  "Destroy_object bp p w =
     (if p = 0 then Inl Null_dereference
      else if op_objects w p = None then Inl Out_of_bounds
      else Inr (w\<lparr>op_pool := pool_free bp p (op_pool w), op_objects := (op_objects w)(p := None)\<rparr>))"

section \<open>Sequences of operations\<close>

datatype 'a pool_op = New 'a | Delete nat | Assign nat 'a

fun do_op :: "'s chunk_pool \<Rightarrow> 'a pool_op \<Rightarrow> ('s, 'a) object_pool \<Rightarrow> ('s, 'a) object_pool result" where
  "do_op bp (New x) w = andthen (Construct bp x w) (\<lambda>(p, w1). Inr w1)"
| "do_op bp (Delete p) w = Destroy_object bp p w"
| "do_op bp (Assign p x) w =
     (if op_objects w p = None then Inl Out_of_bounds else Inr (w\<lparr>op_objects := (op_objects w)(p \<mapsto> x)\<rparr>))"

fun pool_run :: "'s chunk_pool \<Rightarrow> 'a pool_op list \<Rightarrow> ('s, 'a) object_pool \<Rightarrow> ('s, 'a) object_pool result" where
  "pool_run bp [] w = Inr w"
| "pool_run bp (x # xs) w = andthen (do_op bp x w) (pool_run bp xs)"

definition pool_ok :: "('s \<Rightarrow> nat set) \<Rightarrow> ('s, 'a) object_pool \<Rightarrow> bool" where
  "pool_ok handed_out w \<longleftrightarrow> dom (op_objects w) = handed_out (op_pool w) \<and> 0 \<notin> handed_out (op_pool w)"

lemma Construct_ok:
  assumes "pool_documented ho bp" "pool_ok ho w" "Construct bp x w = Inr (p, w1)"
  shows "pool_ok ho w1" "op_objects w p = None" "op_objects w1 = (op_objects w)(p \<mapsto> x)"
proof -
  obtain q s1 where q: "pool_malloc bp (op_pool w) = (q, s1)" by fastforce
  then have p: "p = q" "q \<noteq> 0" "w1 = w\<lparr>op_pool := s1, op_objects := (op_objects w)(p \<mapsto> x)\<rparr>"
    using assms(3) by (auto simp: Construct_def split: if_splits)
  have "\<forall>s. case pool_malloc bp s of (p, s1) \<Rightarrow>
        if p = 0 then ho s1 = ho s else p \<notin> ho s \<and> ho s1 = insert p (ho s)"
    using assms(1) by (simp add: pool_documented_def)
  then have "q \<notin> ho (op_pool w) \<and> ho s1 = insert q (ho (op_pool w))" using q p(2) by (auto dest: spec [of _ "op_pool w"])
  then show "pool_ok ho w1" "op_objects w p = None" "op_objects w1 = (op_objects w)(p \<mapsto> x)"
    using assms(2) p by (auto simp: pool_ok_def)
qed

lemma do_op_ok:
  assumes "pool_documented ho bp" "pool_ok ho w" "do_op bp x w = Inr w1"
  shows "pool_ok ho w1"
proof (cases x)
  case (New y)
  then obtain p where "Construct bp y w = Inr (p, w1)" using assms(3) by (auto simp: andthen_Inr_iff)
  then show ?thesis by (rule Construct_ok(1) [OF assms(1,2)])
next
  case (Delete p)
  then have w1: "w1 = w\<lparr>op_pool := pool_free bp p (op_pool w), op_objects := (op_objects w)(p := None)\<rparr>" "p \<in> dom (op_objects w)"
    using assms(3) by (auto simp: Destroy_object_def split: if_splits)
  then have "p \<in> ho (op_pool w)" using assms(2) by (simp add: pool_ok_def)
  then have "ho (pool_free bp p (op_pool w)) = ho (op_pool w) - {p}" using assms(1) by (simp add: pool_documented_def)
  moreover have "0 \<notin> ho (op_pool w)" using assms(2) by (simp add: pool_ok_def)
  ultimately show ?thesis using assms(2) w1(1) by (simp add: pool_ok_def)
next
  case (Assign p y)
  then have w1: "w1 = w\<lparr>op_objects := (op_objects w)(p \<mapsto> y)\<rparr>" "p \<in> dom (op_objects w)"
    using assms(3) by (auto split: if_splits)
  then have "dom ((op_objects w)(p \<mapsto> y)) = dom (op_objects w)" by auto
  then show ?thesis using assms(2) w1(1) by (simp add: pool_ok_def)
qed

lemma pool_run_ok:
  "pool_documented ho bp \<Longrightarrow> pool_ok ho w \<Longrightarrow> pool_run bp xs w = Inr w1 \<Longrightarrow> pool_ok ho w1"
  by (induction xs arbitrary: w) (auto simp: andthen_Inr_iff dest: do_op_ok)


text \<open>A pool that counts up and never gives a chunk twice.\<close>

definition counting_pool :: "(nat \<times> nat list) chunk_pool" where
  "counting_pool =
     \<lparr>pool_malloc = \<lambda>(n, l). (n + 1, (n + 1, (n + 1) # filter (\<lambda>q. q \<le> n) l)),
      pool_free = \<lambda>p (n, l). (n, filter (\<lambda>q. q \<noteq> p) l)\<rparr>"

definition counted :: "nat \<times> nat list \<Rightarrow> nat set" where
  "counted s = (case s of (n, l) \<Rightarrow> {p. p \<in> set l \<and> p \<le> n})"

lemma counting_pool_documented: "pool_documented counted counting_pool"
  by (auto simp: pool_documented_def counting_pool_def counted_def)

definition demo_pool :: "(nat \<times> nat list, nat) object_pool" where
  "demo_pool = \<lparr>op_pool = (2, [2]), op_objects = [2 \<mapsto> 6]\<rparr>"

definition demo_pool3 :: "(nat \<times> nat list, nat) object_pool" where
  "demo_pool3 = \<lparr>op_pool = (3, [3, 2]), op_objects = [2 \<mapsto> 6, 3 \<mapsto> 7]\<rparr>"


end
