(* ===== verification/Tcp_Client.thy ===== *)
theory Tcp_Client
  imports Tcp_Rounds
begin

text \<open>
  The client side: \<open>Connector\<close> (include/fx_connector.h, src/fx_connector.cc) and \<open>TcpClient\<close>
  (include/fx_tcp_client.h, src/fx_tcp_client.cc), over the same connections as the server. The
  functor \<open>F_connect\<close> is the bound \<open>Connector::ConnectTo\<close>.
\<close>

unbundle bit_operations_syntax

section \<open>The connector\<close>

text \<open>Which of its two callbacks are set.\<close>

record connector =
  con_ccb :: bool
  con_cecb :: bool

definition Connector_init :: connector where
  "Connector_init = \<lparr>con_ccb = False, con_cecb = False\<rparr>"

definition set_connect_callback :: "connector \<Rightarrow> connector" where
  "set_connect_callback con = con\<lparr>con_ccb := True\<rparr>"

definition set_connect_error_calback :: "connector \<Rightarrow> connector" where
  "set_connect_error_calback con = con\<lparr>con_cecb := True\<rparr>"

text \<open>A call of a \<open>boost::function\<close> that is not tested first.\<close>

definition call_function :: "bool \<Rightarrow> ('s \<Rightarrow> 's run) \<Rightarrow> 's \<Rightarrow> 's run" where
  "call_function is_set f w = (if is_set then f w else Some (Inl Bad_function_call))"

definition Connector_ConnectTo ::
  "os_net \<Rightarrow> connector \<Rightarrow> (int \<Rightarrow> bool \<Rightarrow> ('x, 'z) world_scheme \<Rightarrow> ('x, 'z) world_scheme run) \<Rightarrow>
   (string \<Rightarrow> int \<Rightarrow> ('x, 'z) world_scheme \<Rightarrow> ('x, 'z) world_scheme run) \<Rightarrow> net_address \<Rightarrow>
   ('x, 'z) world_scheme \<Rightarrow> ('x, 'z) world_scheme run" where
  "Connector_ConnectTo os con ccb cecb addr w =
     (let fd = os_socket os (os_calls w) in
      if fd < 0 then Some (Inl Check_failed)
      else
        then_run (socketop_SetNonblocking os fd (count_call w)) (\<lambda>w1.
        then_run (Some (ToSockAddr addr)) (\<lambda>peer_addr.
          let w2 = count_call w1 in
          case os_connect os (os_calls w1) fd peer_addr of
            Connect_ok \<Rightarrow> call_function (con_ccb con) (ccb fd True) w2
          | Connect_in_progress \<Rightarrow> call_function (con_ccb con) (ccb fd False) w2
          | Connect_failed \<Rightarrow>
              call_user (con_cecb con) (cecb (na_addr addr) (na_port addr)) (log_net (Fd_closed fd) w2))))"

section \<open>The client\<close>

record 'x client_world = "'x world" +
  cl_connections :: "int \<rightharpoonup> nat"
  cl_connector :: connector
  cl_ccb :: bool
  cl_rcb :: bool

record ('x, 'z) client_calls =
  on_connected :: "nat \<Rightarrow> ('x, 'z) client_world_scheme \<Rightarrow> ('x, 'z) client_world_scheme run"
  on_message :: "nat \<Rightarrow> ('x, 'z) client_world_scheme \<Rightarrow> ('x, 'z) client_world_scheme run"

definition TcpClient_init :: "('x, 'z) client_world_scheme \<Rightarrow> ('x, 'z) client_world_scheme" where
  "TcpClient_init w =
     w\<lparr>cl_connections := Map.empty, cl_connector := set_connect_callback Connector_init, cl_ccb := False, cl_rcb := False\<rparr>"

definition client_set_connected_callback :: "('x, 'z) client_world_scheme \<Rightarrow> ('x, 'z) client_world_scheme" where
  "client_set_connected_callback w = w\<lparr>cl_ccb := True\<rparr>"

definition client_set_read_callback :: "('x, 'z) client_world_scheme \<Rightarrow> ('x, 'z) client_world_scheme" where
  "client_set_read_callback w = w\<lparr>cl_rcb := True\<rparr>"

definition TcpClient_ConnectTo :: "string \<Rightarrow> int \<Rightarrow> ('x, 'z) client_world_scheme \<Rightarrow> ('x, 'z) client_world_scheme" where
  "TcpClient_ConnectTo addr port = QueueInLoop (F_connect addr port)"

text \<open>\<open>c\<close> is the address \<open>make_shared\<close> gives the connection.\<close>

definition TcpClient_OnConnect ::
  "os_net \<Rightarrow> ('x, 'z) client_calls \<Rightarrow> int \<Rightarrow> bool \<Rightarrow> ('x, 'z) client_world_scheme \<Rightarrow> ('x, 'z) client_world_scheme run" where
  "TcpClient_OnConnect os v fd connected w =
     (if cl_connections w fd \<noteq> None then Some (Inl Assertion_failed)
      else
        let c = os_address os (os_calls w) in
        then_run (TcpConnection_init os c fd (if connected then kConnected else kConnecting) w)
          (with_conn c (\<lambda>k w1.
             let w2 = (set_conn c (k\<lparr>c_rcb := cl_rcb w1, c_ccb := True\<rparr>) w1)
                        \<lparr>cl_connections := (cl_connections w1)(fd \<mapsto> c)\<rparr> in
             if connected \<and> cl_ccb w2 then on_connected v c w2
             else with_conn c (\<lambda>k w2. Some (Inr (set_conn c (k\<lparr>c_connected_cb := True\<rparr>) w2))) w2)))"

definition TcpClient_OnConnected ::
  "('x, 'z) client_calls \<Rightarrow> nat \<Rightarrow> ('x, 'z) client_world_scheme \<Rightarrow> ('x, 'z) client_world_scheme run" where
  "TcpClient_OnConnected v c = with_conn c (\<lambda>k w.
     if cl_connections w (ch_fd (c_channel k)) = None then Some (Inl Assertion_failed)
     else call_user (cl_ccb w) (on_connected v c) w)"

definition TcpClient_OnCloseConnection :: "int \<Rightarrow> ('x, 'z) client_world_scheme \<Rightarrow> ('x, 'z) client_world_scheme run" where
  "TcpClient_OnCloseConnection fd w =
     (case cl_connections w fd of
        None \<Rightarrow> Some (Inl Assertion_failed)
      | Some c \<Rightarrow> Some (Inr (QueueInLoop (F_destroy c) (w\<lparr>cl_connections := (cl_connections w)(fd := None)\<rparr>))))"

definition client_user_calls :: "os_net \<Rightarrow> ('x, 'z) client_calls \<Rightarrow> ('x, 'z client_world_ext) user_calls" where
  "client_user_calls os v =
     \<lparr>call_read = on_message v, call_close = TcpClient_OnCloseConnection,
      call_connected = TcpClient_OnConnected v, call_write_done = \<lambda>c w. Some (Inr w)\<rparr>"

text \<open>The functors the client's loop can hold.\<close>

definition client_run_functor ::
  "os_net \<Rightarrow> ('x, 'z) client_calls \<Rightarrow> loop_functor \<Rightarrow> ('x, 'z) client_world_scheme \<Rightarrow> ('x, 'z) client_world_scheme run" where
  "client_run_functor os v f =
     (case f of
        F_connect ip port \<Rightarrow> (\<lambda>w. Connector_ConnectTo os (cl_connector w) (TcpClient_OnConnect os v)
           (\<lambda>_ _ w. Some (Inr w)) (NetAddress_of_text ip port) w)
      | F_destroy c \<Rightarrow> (\<lambda>w. then_run (TcpConnection_Destroy os c w) (TcpConnection_delete c))
      | _ \<Rightarrow> run_channel_functor f)"

section \<open>The parts of the client's state\<close>

lemma client_parts [world_simps]:
  fixes w :: "('x, 'z) client_world_scheme"
  shows "cl_connections (set_conn c k w) = cl_connections w" "cl_ccb (set_conn c k w) = cl_ccb w"
    "cl_rcb (set_conn c k w) = cl_rcb w" "cl_connector (set_conn c k w) = cl_connector w"
    "cl_connections (count_call w) = cl_connections w" "cl_ccb (count_call w) = cl_ccb w"
    "cl_rcb (count_call w) = cl_rcb w" "cl_connector (count_call w) = cl_connector w"
    "cl_connections (log_net e w) = cl_connections w" "cl_ccb (log_net e w) = cl_ccb w"
    "cl_rcb (log_net e w) = cl_rcb w" "cl_connector (log_net e w) = cl_connector w"
    "cl_connections (set_events c ev k w) = cl_connections w" "cl_ccb (set_events c ev k w) = cl_ccb w"
    "cl_rcb (set_events c ev k w) = cl_rcb w" "cl_connector (set_events c ev k w) = cl_connector w"
    "cl_connections (QueueInLoop f w) = cl_connections w" "cl_ccb (QueueInLoop f w) = cl_ccb w"
    "cl_rcb (QueueInLoop f w) = cl_rcb w" "cl_connector (QueueInLoop f w) = cl_connector w"
    "cl_connections (end_calls w) = cl_connections w" "cl_ccb (end_calls w) = cl_ccb w"
  by (simp_all add: set_conn_def log_net_def count_call_def set_events_def Poller_UpdateChannel_def QueueInLoop_def
      WakeUp_def Let_def end_calls_def split: option.splits)

lemma client_queue_parts [world_simps]:
  fixes w :: "('x, 'z) client_world_scheme"
  shows "conns (QueueInLoop f w) = conns w" "net_log (QueueInLoop f w) = net_log w"
    "os_calls (QueueInLoop f w) = os_calls w" "InLoopThread (QueueInLoop f w) = InLoopThread w"
    "functors (QueueInLoop f w) = functors w @ [f]" "p_channels (QueueInLoop f w) = p_channels w"
    "conns (end_calls w) = conns w" "net_log (end_calls w) = net_log w" "InLoopThread (end_calls w) = InLoopThread w"
    "functors (end_calls w) = functors w" "p_channels (end_calls w) = p_channels w" "os_calls (end_calls w) = os_calls w"
  by (simp_all add: QueueInLoop_def WakeUp_def Let_def InLoopThread_def end_calls_def)

end
