(* ===== verification/Tcp_Client_Laws.thy ===== *)
theory Tcp_Client_Laws
  imports Tcp_Client
begin

text \<open>
  What becomes of a connection a client asks for: one that is established later (the usual case) is
  reported to the user and then read; one that is refused ends the process; one that is
  established at once is reported and never read.
\<close>

unbundle bit_operations_syntax

section \<open>A connection under way\<close>

definition connecting :: "nat \<Rightarrow> int \<Rightarrow> bool \<Rightarrow> 'x connection" where
  "connecting c fd rcb =
     (new_connection c fd kConnecting)
       \<lparr>c_channel := (Channel_init c fd)\<lparr>ch_events := kWriteEvents, ch_wcb := Some On_connected_to_peer,
                        ch_ecb := Some On_handle_error\<rparr>,
        c_rcb := rcb, c_ccb := True, c_connected_cb := True\<rparr>"

text \<open>The world in which the client waits for connection \<open>c\<close>.\<close>

definition waits_for :: "nat \<Rightarrow> int \<Rightarrow> ('x, 'z) client_world_scheme \<Rightarrow> bool" where
  "waits_for c fd w \<longleftrightarrow>
     InLoopThread w \<and> functors w = [] \<and> conns w c = Some (connecting c fd (cl_rcb w)) \<and>
     cl_connections w fd = Some c \<and> p_channels w fd = Some c"

lemma OnConnect_waits:
  fixes w :: "('x, 'z) client_world_scheme"
  assumes "InLoopThread w" "cl_connections w fd = None" "p_channels w fd = None" "functors w = []"
    and "c = os_address os (os_calls w)"
  shows "\<exists>w1. TcpClient_OnConnect os v fd False w = Some (Inr w1) \<and> waits_for c fd w1 \<and> net_log w1 = net_log w \<and>
     os_calls w1 = os_calls w \<and> cl_ccb w1 = cl_ccb w"
proof -
  define k1 where "k1 = (new_connection c fd kConnecting :: 'x connection)
      \<lparr>c_channel := (Channel_init c fd)\<lparr>ch_wcb := Some On_connected_to_peer\<rparr>\<rparr>"
  define w0 where "w0 = set_conn c k1 w"
  define w1 where "w1 = set_events c kWriteEvents k1 w0"
  define k2 where "k2 = (new_connection c fd kConnecting :: 'x connection)
      \<lparr>c_channel := (Channel_init c fd)\<lparr>ch_wcb := Some On_connected_to_peer, ch_events := kWriteEvents,
         ch_ecb := Some On_handle_error\<rparr>\<rparr>"
  define w2 where "w2 = set_conn c k2 w1"
  have w0: "InLoopThread w0" "conns w0 c = Some k1" using assms(1) by (simp_all add: w0_def world_simps)
  have "ch_events (c_channel k1) OR kWriteEvents = kWriteEvents"
    by (simp add: k1_def Channel_init_def kNoneEvents_def)
  then have enable: "on_channel Channel_EnableWriting c w0 = Some (Inr w1)"
    using on_channel_events(3) [OF w0] by (simp add: w1_def)
  have conn1: "conns w1 c = Some (k1\<lparr>c_channel := (c_channel k1)\<lparr>ch_events := kWriteEvents\<rparr>\<rparr>)"
    by (simp add: w1_def world_simps)
  have k1: "ClearZeroCopyWrite (new_connection c fd kConnecting :: 'x connection) = new_connection c fd kConnecting"
    by (simp add: ClearZeroCopyWrite_def new_connection_def)
  have "TcpConnection_init os c fd kConnecting w = then_run (on_channel Channel_EnableWriting c w0)
      (with_conn c (\<lambda>k w1. Some (Inr (set_conn c (k\<lparr>c_channel := (c_channel k)\<lparr>ch_ecb := Some On_handle_error\<rparr>\<rparr>) w1))))"
    using w0(1) by (simp add: TcpConnection_init_def Let_def k1 RunInLoop_def run_channel_functor_def w0_def k1_def)
      (simp add: new_connection_def)
  also have "\<dots> = Some (Inr w2)"
    unfolding enable using conn1 by (simp add: with_conn_def w2_def k2_def k1_def)
  finally have "TcpConnection_init os c fd kConnecting w = Some (Inr w2)" .
  moreover have "conns w2 c = Some k2" by (simp add: w2_def world_simps)
  moreover have k: "k2\<lparr>c_rcb := cl_rcb w2, c_ccb := True, c_connected_cb := True\<rparr> = connecting c fd (cl_rcb w)"
    by (simp add: k2_def connecting_def new_connection_def w2_def w1_def w0_def world_simps)
  ultimately have "TcpClient_OnConnect os v fd False w =
      Some (Inr (set_conn c (connecting c fd (cl_rcb w))
        ((set_conn c (k2\<lparr>c_rcb := cl_rcb w2, c_ccb := True\<rparr>) w2)\<lparr>cl_connections := (cl_connections w2)(fd \<mapsto> c)\<rparr>)))"
    using assms(2,5) by (simp add: TcpClient_OnConnect_def Let_def with_conn_def world_simps)
  moreover have "p_channels w1 fd = Some c"
    using assms(3) by (simp add: w1_def w0_def k1_def set_events_def set_conn_def Poller_UpdateChannel_def Channel_init_def)
  ultimately show ?thesis
    using assms(1,4)
    by (simp add: waits_for_def set_conn_def w2_def InLoopThread_def)
      (simp add: w1_def w0_def set_events_def set_conn_def Poller_UpdateChannel_def split: option.splits)
qed

text \<open>The functor that asks for the connection.\<close>

lemma connect_waits:
  fixes w :: "('x, 'z) client_world_scheme"
  assumes "InLoopThread w" "functors w = [F_connect ip port]" "con_ccb (cl_connector w)"
    and "os_socket os (os_calls w) = fd" "0 \<le> fd" "os_fcntl os (os_calls w + 1) fd"
    and "ToSockAddr (NetAddress_of_text ip port) = Inr peer"
    and "os_connect os (os_calls w + 2) fd peer = Connect_in_progress"
    and "cl_connections w fd = None" "p_channels w fd = None" "c = os_address os (os_calls w + 3)"
  shows "\<exists>w1. CallPendingFunctors (client_run_functor os v) w = Some (Inr w1) \<and> waits_for c fd w1 \<and>
     net_log w1 = net_log w \<and> os_calls w1 = os_calls w + 3 \<and> cl_ccb w1 = cl_ccb w"
proof -
  define w0 where "w0 = w\<lparr>calling_functors := True, functors := []\<rparr>"
  let ?w = "count_call (count_call (count_call w0))"
  have w0: "os_calls w0 = os_calls w" "cl_connector w0 = cl_connector w" "p_channels w0 = p_channels w" "functors w0 = []"
    "InLoopThread w0" "cl_connections w0 = cl_connections w" "net_log w0 = net_log w" "cl_ccb w0 = cl_ccb w"
    using assms(1) by (simp_all add: w0_def InLoopThread_def)
  have "InLoopThread ?w" "cl_connections ?w fd = None" "p_channels ?w fd = None" "functors ?w = []"
    "c = os_address os (os_calls ?w)"
    using assms(9-11) w0 by (simp_all add: world_simps) (simp_all add: count_call_def w0 eval_nat_numeral)
  from OnConnect_waits [OF this, of v] obtain w1 where w1: "TcpClient_OnConnect os v fd False ?w = Some (Inr w1)"
    "waits_for c fd w1" "net_log w1 = net_log w" "os_calls w1 = os_calls w + 3" "cl_ccb w1 = cl_ccb w"
    by (auto simp: world_simps w0)
  have "client_run_functor os v (F_connect ip port) w0 = Some (Inr w1)"
    using w1(1) assms(3-8) w0
    by (simp add: client_run_functor_def Connector_ConnectTo_def Let_def socketop_SetNonblocking_def world_simps
        call_function_def)
  then have "CallPendingFunctors (client_run_functor os v) w = Some (Inr (end_calls w1))"
    using assms(2) by (simp add: CallPendingFunctors_def begin_calls_def w0_def)
  moreover have "waits_for c fd (end_calls w1)" using w1(2) by (simp add: waits_for_def end_calls_def InLoopThread_def)
  ultimately show ?thesis using w1(3-5) by (simp add: end_calls_def)
qed

section \<open>The connection is established\<close>

definition established :: "net_address \<times> net_address \<Rightarrow> nat \<Rightarrow> int \<Rightarrow> bool \<Rightarrow> 'x connection" where
  "established names c fd rcb =
     (connecting c fd rcb)
       \<lparr>c_state := kConnected, c_local_addr := Some (fst names), c_peer_addr := Some (snd names),
        c_channel := (Channel_init c fd)\<lparr>ch_events := kReadEvents, ch_revents := EPOLLOUT, ch_rcb := Some On_read_from_peer,
          ch_wcb := Some On_write_to_peer, ch_ecb := Some On_handle_error, ch_handling_events := True\<rparr>\<rparr>"

lemma connected_events [simp]:
  "(kWriteEvents OR kReadEvents) AND NOT kWriteEvents = kReadEvents"
  by (simp add: kReadEvents_def kWriteEvents_def EPOLLIN_def EPOLLOUT_def)

lemma ConnectedToPeer_established:
  fixes w :: "('x, 'z) client_world_scheme"
  assumes "InLoopThread w" "conns w c = Some (begin_handling EPOLLOUT (connecting c fd rcb))"
    and "os_so_error os (os_calls w) = 0" "named os (os_calls w) fd names" "p_channels w fd = Some c"
  shows "\<exists>w1. ConnectedToPeer os u c w = call_connected u c w1 \<and>
     w1 = w\<lparr>conns := (conns w)(c \<mapsto> established names c fd rcb), os_calls := os_calls w + 1, epoll_calls := epoll_calls w1\<rparr>"
proof -
  let ?k = "begin_handling EPOLLOUT (connecting c fd rcb) :: 'x connection"
  define k1 where "k1 = ?k\<lparr>c_state := kConnected, c_local_addr := Some (fst names), c_peer_addr := Some (snd names)\<rparr>"
  define w1 where "w1 = set_conn c k1 (count_call w)"
  define k2 where "k2 = k1\<lparr>c_channel := (c_channel k1)\<lparr>ch_events := kWriteEvents OR kReadEvents\<rparr>\<rparr>"
  define w2 where "w2 = set_events c (kWriteEvents OR kReadEvents) k1 w1"
  define k3 where "k3 = k2\<lparr>c_channel := (c_channel k2)\<lparr>ch_rcb := Some On_read_from_peer\<rparr>\<rparr>"
  define w3 where "w3 = set_conn c k3 w2"
  define w4 where "w4 = set_events c kReadEvents k3 w3"
  define w5 where "w5 = set_conn c (established names c fd rcb) w4"
  have addr: "GetAddress os (os_calls w) (?k\<lparr>c_state := kConnected\<rparr>) = Inr k1"
    using assms(4) by (simp add: GetAddress_def k1_def named_def begin_handling_def connecting_def new_connection_def)
  have ev: "ch_events (c_channel k1) = kWriteEvents" "ch_events (c_channel k3) = kWriteEvents OR kReadEvents"
    by (simp_all add: k1_def k2_def k3_def begin_handling_def connecting_def)
  have in_loop: "InLoopThread w1" "InLoopThread w2" "InLoopThread w3" "InLoopThread w4"
    using assms(1) by (simp_all add: w1_def w2_def w3_def w4_def world_simps)
  have stored: "conns w1 c = Some k1" "conns w2 c = Some k2" "conns w3 c = Some k3"
    "conns w4 c = Some (k3\<lparr>c_channel := (c_channel k3)\<lparr>ch_events := kReadEvents\<rparr>\<rparr>)"
    by (simp_all add: w1_def w2_def w3_def w4_def k2_def world_simps)
  have k5: "k3\<lparr>c_channel := (c_channel k3)\<lparr>ch_events := kReadEvents, ch_wcb := Some On_write_to_peer\<rparr>\<rparr> = established names c fd rcb"
    by (simp add: k3_def k2_def k1_def begin_handling_def connecting_def established_def new_connection_def Channel_init_def)
  have "c_connected_cb k3" by (simp add: k3_def k2_def k1_def begin_handling_def connecting_def)
  have "c_state ?k = kConnecting" by (simp add: begin_handling_def connecting_def new_connection_def)
  then have "ConnectedToPeer os u c w = call_connected u c w5"
    using assms(2,3) addr stored on_channel_events(1) [OF in_loop(1) stored(1)]
      on_channel_events(4) [OF in_loop(3) stored(3)] \<open>c_connected_cb k3\<close>
    by (simp add: ConnectedToPeer_def with_conn_def w1_def [symmetric] ev w2_def [symmetric] k3_def [symmetric]
        w3_def [symmetric] w4_def [symmetric] k5 w5_def [symmetric] call_user_def)
  moreover have "w5 = w\<lparr>conns := (conns w)(c \<mapsto> established names c fd rcb), os_calls := os_calls w + 1,
      epoll_calls := epoll_calls w5\<rparr>"
  proof -
    have fd: "ch_fd (c_channel k1) = fd" "ch_fd (c_channel k3) = fd"
      by (simp_all add: k1_def k2_def k3_def begin_handling_def connecting_def Channel_init_def)
    have "w2 = w1\<lparr>conns := (conns w1)(c \<mapsto> k2), epoll_calls := epoll_calls w2\<rparr>"
      using assms(5) fd by (simp add: w2_def set_events_def set_conn_def Poller_UpdateChannel_def w1_def count_call_def k2_def)
    moreover have "w4 = w3\<lparr>conns := (conns w3)(c \<mapsto> k3\<lparr>c_channel := (c_channel k3)\<lparr>ch_events := kReadEvents\<rparr>\<rparr>), epoll_calls := epoll_calls w4\<rparr>"
      using assms(5) fd
      by (simp add: w4_def set_events_def set_conn_def Poller_UpdateChannel_def w3_def w2_def w1_def count_call_def
          split: option.splits)
    ultimately show ?thesis
      by (cases w2; cases w4) (simp add: w5_def w3_def w1_def set_conn_def count_call_def)
  qed
  ultimately show ?thesis by blast
qed

lemma OnConnected_calls:
  fixes w :: "('x, 'z) client_world_scheme"
  assumes "conns w c = Some (established names c fd rcb)" "cl_connections w fd = Some c" "cl_ccb w"
  shows "TcpClient_OnConnected v c w = on_connected v c w"
  using assms by (simp add: TcpClient_OnConnected_def with_conn_def established_def Channel_init_def call_user_def)

lemma new_buffer: "unread (Buffer_init kDefaultReservedSize) = []" "buffer_ok (Buffer_init kDefaultReservedSize)"
  "n \<le> 1000 \<Longrightarrow> n \<le> buffer_space (Buffer_init kDefaultReservedSize)"
  by (simp_all add: Buffer_init_def buffer_ok_def unread_def vector_max_size_def buffer_space_def kDefaultReservedSize_def)

lemma connection_established:
  fixes w1 :: "('x, 'z) client_world_scheme"
  assumes "waits_for c fd w1" "cl_ccb w1" "os_so_error os (os_calls w1) = 0"
    and "os_getsockname os (os_calls w1) fd \<noteq> None" "os_getpeername os (os_calls w1) fd \<noteq> None"
    and "\<And>w'. on_connected v c w' = TcpConnection_Write c greeting w'" "length greeting \<le> 1000"
  shows "\<exists>k1 w2 k2.
     conns w1 c = Some k1 \<and> c_state k1 = kConnecting \<and> is_writing (c_channel k1) \<and> \<not> is_reading (c_channel k1) \<and>
     handle_channel os (client_user_calls os v) (c, EPOLLOUT) w1 = Some (Inr w2) \<and>
     conns w2 c = Some k2 \<and> c_state k2 = kConnected \<and> is_reading (c_channel k2) \<and> is_writing (c_channel k2) \<and>
     ch_rcb (c_channel k2) = Some On_read_from_peer \<and> ch_wcb (c_channel k2) = Some On_write_to_peer \<and>
     unread (c_write_buf k2) = greeting \<and> cl_connections w2 fd = Some c"
proof -
  define rcb where "rcb = cl_rcb w1"
  let ?k1 = "connecting c fd rcb :: 'x connection"
  note wf = assms(1) [unfolded waits_for_def rcb_def [symmetric]]
  obtain names where names: "named os (os_calls w1) fd names" using assms(4,5) by (rule named_known)
  define wh where "wh = set_conn c (begin_handling EPOLLOUT ?k1) w1"
  let ?k2 = "established names c fd rcb :: 'x connection"
  have wh: "InLoopThread wh" "conns wh c = Some (begin_handling EPOLLOUT ?k1)" "os_calls wh = os_calls w1"
    "p_channels wh fd = Some c" "cl_connections wh = cl_connections w1" "cl_ccb wh = cl_ccb w1"
    using wf by (simp_all add: wh_def world_simps)
  have "os_so_error os (os_calls wh) = 0" "named os (os_calls wh) fd names" using assms(3) names wh(3) by simp_all
  from ConnectedToPeer_established [OF wh(1,2) this wh(4), of "client_user_calls os v"] obtain w2 where w2:
    "ConnectedToPeer os (client_user_calls os v) c wh = TcpClient_OnConnected v c w2"
    "w2 = wh\<lparr>conns := (conns wh)(c \<mapsto> ?k2), os_calls := os_calls wh + 1, epoll_calls := epoll_calls w2\<rparr>"
    by (auto simp: client_user_calls_def)
  have w2_parts: "conns w2 c = Some ?k2" "InLoopThread w2" "cl_connections w2 fd = Some c" "cl_ccb w2"
  proof -
    show "conns w2 c = Some ?k2" "cl_connections w2 fd = Some c" "cl_ccb w2"
      by (subst w2(2), use wf wh(5,6) assms(2) in simp)+
    show "InLoopThread w2" by (subst w2(2)) (use wh(1) in \<open>simp add: InLoopThread_def\<close>)
  qed
  have buf: "c_write_buf ?k2 = Buffer_init kDefaultReservedSize"
    by (simp add: established_def connecting_def new_connection_def)
  obtain b where b: "TcpConnection_Write c greeting w2 =
      Some (Inr (set_events c (ch_events (c_channel ?k2) OR kWriteEvents) (?k2\<lparr>c_write_buf := b\<rparr>) (set_conn c (?k2\<lparr>c_write_buf := b\<rparr>) w2)))"
     "unread b = greeting"
    using Write_appends [OF w2_parts(2,1), of greeting] new_buffer assms(7) unfolding buf by auto
  define w3 where "w3 = set_events c (ch_events (c_channel ?k2) OR kWriteEvents) (?k2\<lparr>c_write_buf := b\<rparr>) (set_conn c (?k2\<lparr>c_write_buf := b\<rparr>) w2)"
  define k3 where "k3 = ?k2\<lparr>c_write_buf := b, c_channel := (c_channel ?k2)\<lparr>ch_events := kReadEvents OR kWriteEvents\<rparr>\<rparr>"
  have k3: "conns w3 c = Some k3"
    by (simp add: w3_def world_simps k3_def established_def)
  have run: "run_callback os (client_user_calls os v) c On_connected_to_peer (set_conn c (begin_handling EPOLLOUT ?k1) w1) = Some (Inr w3)"
    using w2(1) OnConnected_calls [OF w2_parts(1,3,4)] assms(6) b(1) by (simp add: run_callback_def wh_def w3_def)
  have "handle_channel os (client_user_calls os v) (c, EPOLLOUT) w1 = Some (Inr (set_conn c (stop_handling k3) w3))"
    by (rule handled_write [OF _ _ run k3]) (use wf in \<open>simp_all add: connecting_def k3_def established_def\<close>)
  moreover have "cl_connections (set_conn c (stop_handling k3) w3) fd = Some c"
    using w2_parts(3) by (simp add: w3_def world_simps)
  moreover have "is_reading (c_channel (stop_handling k3))" "is_writing (c_channel (stop_handling k3))"
    "\<not> is_reading (c_channel ?k1)" "is_writing (c_channel ?k1)"
    by (simp_all add: stop_handling_def k3_def is_reading_def is_writing_def connecting_def kReadEvents_def kWriteEvents_def
        EPOLLIN_def EPOLLOUT_def)
  ultimately show ?thesis
    using wf b(2)
    by (intro exI [of _ ?k1] exI [of _ "set_conn c (stop_handling k3) w3"] exI [of _ "stop_handling k3"])
      (simp add: world_simps stop_handling_def k3_def established_def connecting_def new_connection_def)
qed

text \<open>C13: a connection a client asks for is established when its socket can be written: the user's
  callback is called once, on a connection that is connected, in the client's table, and read from
  then on; what the callback writes (here \<open>greeting\<close>) waits for the socket, which is watched for both.\<close>

theorem client_connects:
  fixes w :: "('x, 'z) client_world_scheme"
  assumes "InLoopThread w" "functors w = []" "con_ccb (cl_connector w)" "cl_ccb w"
    and "os_socket os (os_calls w) = fd" "0 \<le> fd" "os_fcntl os (os_calls w + 1) fd"
    and "ToSockAddr (NetAddress_of_text ip port) = Inr peer"
    and "os_connect os (os_calls w + 2) fd peer = Connect_in_progress"
    and "cl_connections w fd = None" "p_channels w fd = None" "c = os_address os (os_calls w + 3)"
    and "os_so_error os (os_calls w + 3) = 0"
    and "os_getsockname os (os_calls w + 3) fd \<noteq> None" "os_getpeername os (os_calls w + 3) fd \<noteq> None"
    and "\<And>w'. on_connected v c w' = TcpConnection_Write c greeting w'" "length greeting \<le> 1000"
  shows "\<exists>w1 k1 w2 k2.
     CallPendingFunctors (client_run_functor os v) (TcpClient_ConnectTo ip port w) = Some (Inr w1) \<and>
     conns w1 c = Some k1 \<and> c_state k1 = kConnecting \<and> is_writing (c_channel k1) \<and> \<not> is_reading (c_channel k1) \<and>
     handle_channel os (client_user_calls os v) (c, EPOLLOUT) w1 = Some (Inr w2) \<and>
     conns w2 c = Some k2 \<and> c_state k2 = kConnected \<and> is_reading (c_channel k2) \<and> is_writing (c_channel k2) \<and>
     ch_rcb (c_channel k2) = Some On_read_from_peer \<and> ch_wcb (c_channel k2) = Some On_write_to_peer \<and>
     unread (c_write_buf k2) = greeting \<and> cl_connections w2 fd = Some c"
proof -
  define w0 where "w0 = TcpClient_ConnectTo ip port w"
  have w0: "InLoopThread w0" "functors w0 = [F_connect ip port]" "con_ccb (cl_connector w0)" "os_calls w0 = os_calls w"
    "cl_connections w0 = cl_connections w" "p_channels w0 = p_channels w" "cl_ccb w0"
    using assms(1-4) by (simp_all add: w0_def TcpClient_ConnectTo_def world_simps)
  have "\<exists>w1. CallPendingFunctors (client_run_functor os v) w0 = Some (Inr w1) \<and> waits_for c fd w1 \<and>
     net_log w1 = net_log w0 \<and> os_calls w1 = os_calls w0 + 3 \<and> cl_ccb w1 = cl_ccb w0"
    using w0 assms(5-12) by (intro connect_waits [where peer = peer and ip = ip and port = port]) simp_all
  then obtain w1 where w1: "CallPendingFunctors (client_run_functor os v) w0 = Some (Inr w1)"
    "waits_for c fd w1" "os_calls w1 = os_calls w + 3" "cl_ccb w1" using w0 by auto
  from connection_established [OF w1(2,4), of os v greeting] show ?thesis
    using w1(1) assms(13-17) unfolding w1(3) w0_def by blast
qed

section \<open>The connection is refused\<close>

lemma refused_ActiveClose:
  fixes w :: "('x, 'z) client_world_scheme"
  assumes "InLoopThread w" "functors w = []" "conns w c = Some k" "c_state k = kConnecting" "c_ccb k" "c_fd k = fd"
    and "cl_connections w fd = Some c"
  shows "\<exists>w1 k1. ActiveClose os (client_user_calls os v) c w = Some (Inr w1) \<and> InLoopThread w1 \<and>
     functors w1 = [F_destroy c] \<and> conns w1 c = Some k1 \<and> c_state k1 = kDisconnected \<and> os_calls w1 = os_calls w \<and>
     ch_revents (c_channel k1) = ch_revents (c_channel k) \<and> cl_connections w1 fd = None"
proof -
  define ev where "ev = ch_events (c_channel k) AND NOT kWriteEvents"
  define k1 where "k1 = k\<lparr>c_channel := (c_channel k)\<lparr>ch_events := ev\<rparr>, c_state := kDisconnected\<rparr>"
  define w1 where "w1 = set_conn c k1 (set_events c ev k w)"
  have w1: "cl_connections w1 fd = Some c" "InLoopThread w1" "functors w1 = []" "conns w1 c = Some k1" "os_calls w1 = os_calls w"
    using assms by (simp_all add: w1_def world_simps)
  have "ActiveClose os (client_user_calls os v) c w = TcpClient_OnCloseConnection fd w1"
    using assms on_channel_events(4) [OF assms(1,3)]
    by (simp add: ActiveClose_def with_conn_def ev_def [symmetric] set_events_parts call_user_def client_user_calls_def
        k1_def [symmetric] w1_def [symmetric])
  also have "\<dots> = Some (Inr (QueueInLoop (F_destroy c) (w1\<lparr>cl_connections := (cl_connections w1)(fd := None)\<rparr>)))"
    using w1(1) by (simp add: TcpClient_OnCloseConnection_def)
  finally have close: "ActiveClose os (client_user_calls os v) c w =
      Some (Inr (QueueInLoop (F_destroy c) (w1\<lparr>cl_connections := (cl_connections w1)(fd := None)\<rparr>)))" .
  have "InLoopThread (w1\<lparr>cl_connections := (cl_connections w1)(fd := None)\<rparr>)" using w1(2) by (simp add: InLoopThread_def)
  then show ?thesis
    using close w1(3-5) by (simp add: world_simps) (simp add: k1_def)
qed


section \<open>The connection is established at once\<close>

text \<open>When \<open>connect\<close> succeeds at once, the connection is made connected, with its callbacks, and the
  user is told; but its channel watches nothing and is not registered, so unless the user's callback
  changes that no byte of the peer is ever read.\<close>

theorem client_immediate_never_reads:
  fixes w :: "('x, 'z) client_world_scheme"
  assumes "cl_connections w fd = None" "c = os_address os (os_calls w)" "named os (os_calls w) fd names"
  shows "\<exists>w1 k. TcpClient_OnConnect os v fd True w = (if cl_ccb w then on_connected v c w1 else Some (Inr w1)) \<and>
     conns w1 c = Some k \<and> c_state k = kConnected \<and> \<not> is_reading (c_channel k) \<and> \<not> is_writing (c_channel k) \<and>
     p_channels w1 = p_channels w \<and> cl_connections w1 = (cl_connections w)(fd \<mapsto> c)"
proof -
  define k0 where "k0 = (new_connection c fd kConnected :: 'x connection)
       \<lparr>c_channel := (Channel_init c fd)\<lparr>ch_rcb := Some On_read_from_peer, ch_wcb := Some On_write_to_peer,
                        ch_ecb := Some On_handle_error\<rparr>,
        c_local_addr := Some (fst names), c_peer_addr := Some (snd names)\<rparr>"
  have init: "TcpConnection_init os c fd kConnected w = Some (Inr (set_conn c k0 w))"
    using assms(3)
    by (simp add: TcpConnection_init_def Let_def ClearZeroCopyWrite_def new_connection_def GetAddress_def named_def
        with_conn_def set_conn_def k0_def)
  define k1 where "k1 = k0\<lparr>c_rcb := cl_rcb w, c_ccb := True\<rparr>"
  define w1 where "w1 = (set_conn c k1 w)\<lparr>cl_connections := (cl_connections w)(fd \<mapsto> c)\<rparr>"
  define w2 where "w2 = set_conn c (k1\<lparr>c_connected_cb := True\<rparr>) w1"
  have "TcpClient_OnConnect os v fd True w = (if cl_ccb w then on_connected v c w1 else Some (Inr w2))"
    using assms(1,2) init
    by (simp add: TcpClient_OnConnect_def Let_def with_conn_def world_simps)
      (simp add: w1_def w2_def k1_def set_conn_def)
  moreover have "conns w1 c = Some k1" "conns w2 c = Some (k1\<lparr>c_connected_cb := True\<rparr>)" "p_channels w1 = p_channels w"
    "p_channels w2 = p_channels w" "cl_connections w1 = (cl_connections w)(fd \<mapsto> c)"
    "cl_connections w2 = (cl_connections w)(fd \<mapsto> c)"
    by (simp_all add: w1_def w2_def set_conn_def)
  moreover have "\<not> is_reading (c_channel k1)" "\<not> is_writing (c_channel k1)" "c_state k1 = kConnected"
    by (simp_all add: k1_def k0_def is_reading_def is_writing_def Channel_init_def kNoneEvents_def new_connection_def)
  ultimately show ?thesis by (cases "cl_ccb w") auto
qed

section \<open>Witnesses\<close>

definition empty_client :: "unit client_world" where
  "empty_client =
     client_set_connected_callback (client_set_read_callback (TcpClient_init
       (world.extend (event_loop.extend idle_loop \<lparr>conns = Map.empty, os_calls = 0, net_log = []\<rparr>)
         \<lparr>cl_connections = Map.empty, cl_connector = Connector_init, cl_ccb = False, cl_rcb = False\<rparr>)))"

definition slow_net :: os_net where
  "slow_net = (easy_net (Inr []) None)\<lparr>os_connect := \<lambda>i fd sa. Connect_in_progress\<rparr>"

definition greeting_calls :: "(unit, unit) client_calls" where
  "greeting_calls = \<lparr>on_connected = \<lambda>c w. TcpConnection_Write c ''1'' w, on_message = \<lambda>c w. Some (Inr w)\<rparr>"

lemma empty_client_parts [simp]:
  "InLoopThread empty_client" "functors empty_client = []" "net_log empty_client = []" "os_calls empty_client = 0"
  "conns empty_client = Map.empty" "cl_connections empty_client = Map.empty" "p_channels empty_client = Map.empty"
  "con_ccb (cl_connector empty_client)" "cl_ccb empty_client" "cl_rcb empty_client"
  by (simp_all add: empty_client_def client_set_connected_callback_def client_set_read_callback_def TcpClient_init_def
      set_connect_callback_def world.defs event_loop.defs poller.defs idle_loop_def InLoopThread_def Poller_init_def)

theorem client_connects_witness:
  "\<exists>w1 k1 w2 k2.
     CallPendingFunctors (client_run_functor slow_net greeting_calls)
       (TcpClient_ConnectTo (dotted (127, 0, 0, 1)) 9026 empty_client) = Some (Inr w1) \<and>
     conns w1 13 = Some k1 \<and> c_state k1 = kConnecting \<and> is_writing (c_channel k1) \<and> \<not> is_reading (c_channel k1) \<and>
     handle_channel slow_net (client_user_calls slow_net greeting_calls) (13, EPOLLOUT) w1 = Some (Inr w2) \<and>
     conns w2 13 = Some k2 \<and> c_state k2 = kConnected \<and> is_reading (c_channel k2) \<and> is_writing (c_channel k2) \<and>
     ch_rcb (c_channel k2) = Some On_read_from_peer \<and> ch_wcb (c_channel k2) = Some On_write_to_peer \<and>
     unread (c_write_buf k2) = ''1'' \<and> cl_connections w2 3 = Some 13"
  by (rule client_connects [where peer = local_sockaddr])
    (simp_all add: slow_net_def easy_net_def greeting_calls_def local_name(2) [unfolded local_name_def])

definition refusing_net :: os_net where
  "refusing_net = slow_net\<lparr>os_so_error := \<lambda>i. 111, os_shutdown := \<lambda>i. False\<rparr>"

definition asked_client :: "unit client_world" where
  "asked_client = empty_client\<lparr>conns := [13 \<mapsto> connecting 13 3 True], cl_connections := [3 \<mapsto> 13], p_channels := [3 \<mapsto> 13]\<rparr>"


end
