(* ===== verification/Count_Client.thy ===== *)
theory Count_Client
  imports Tcp_Client
begin

text \<open>
  The client of the examples (examples/client/main.cc): it sends 1 and answers every number with
  the next one. \<open>boost::lexical_cast\<close> is a parameter; \<open>lexical_ok\<close> is what its documentation says of
  the numbers of an \<open>int\<close> as they are printed.
\<close>

section \<open>The program\<close>

definition count_OnConnected :: "nat \<Rightarrow> ('x, 'z) world_scheme \<Rightarrow> ('x, 'z) world_scheme run" where
  "count_OnConnected c = TcpConnection_Write c (signed_decimal 1)"

text \<open>The increment of an \<open>int\<close> that has the largest value is not defined.\<close>

definition count_OnMessage ::
  "(string \<Rightarrow> int option) \<Rightarrow> nat \<Rightarrow> ('x, 'z) world_scheme \<Rightarrow> ('x, 'z) world_scheme run" where
  "count_OnMessage cast_int c = with_conn c (\<lambda>k w.
     then_run (Some (ReadAndClear (c_read_buf k))) (\<lambda>(msg, b).
       case cast_int msg of
         None \<Rightarrow> Some (Inl Bad_lexical_cast)
       | Some idx \<Rightarrow>
           if idx = 2 ^ 31 - 1 then Some (Inl Signed_overflow)
           else TcpConnection_Write c (signed_decimal (idx + 1)) (set_conn c (k\<lparr>c_read_buf := b\<rparr>) w)))"

definition count_calls :: "(string \<Rightarrow> int option) \<Rightarrow> ('x, 'z) client_calls" where
  "count_calls cast_int = \<lparr>on_connected = count_OnConnected, on_message = count_OnMessage cast_int\<rparr>"

text \<open>\<open>main\<close> up to the loop; \<open>None\<close> is the return of \<open>-1\<close> for a wrong number of arguments.\<close>

definition count_main ::
  "(string \<Rightarrow> int option) \<Rightarrow> string list \<Rightarrow> ('x, 'z) client_world_scheme \<Rightarrow> ('x, 'z) client_world_scheme run option" where
  "count_main cast_int argv w =
     (case argv of
        [_, addr, port] \<Rightarrow>
          Some (case cast_int port of
                  None \<Rightarrow> Some (Inl Bad_lexical_cast)
                | Some p \<Rightarrow>
                    Some (Inr (TcpClient_ConnectTo addr p
                      (client_set_read_callback (client_set_connected_callback (TcpClient_init w))))))
      | _ \<Rightarrow> None)"

section \<open>Counting\<close>

definition lexical_ok :: "(string \<Rightarrow> int option) \<Rightarrow> bool" where
  "lexical_ok cast_int \<longleftrightarrow> (\<forall>z. - (2 ^ 31) \<le> z \<and> z < 2 ^ 31 \<longrightarrow> cast_int (signed_decimal z) = Some z)"

lemma decimal_length: "0 < k \<Longrightarrow> n < 10 ^ k \<Longrightarrow> length (decimal n) \<le> k"
proof (induction k arbitrary: n)
  case (Suc k)
  show ?case
  proof (cases "n < 10")
    case True
    then show ?thesis by (subst decimal.simps) simp
  next
    case False
    then have "0 < k" using Suc.prems(2) by (cases k) auto
    moreover have "n div 10 < 10 ^ k" using Suc.prems(2) by (simp add: less_mult_imp_div_less)
    ultimately have "length (decimal (n div 10)) \<le> k" by (rule Suc.IH)
    then show ?thesis using False by (subst decimal.simps) simp
  qed
qed simp

lemma signed_decimal_length:
  assumes "- (2 ^ 31) \<le> z" "z \<le> 2 ^ 31"
  shows "length (signed_decimal z) \<le> 11"
proof -
  have "nat z \<le> 2 ^ 31" "nat (- z) \<le> 2 ^ 31" using assms by (simp_all add: nat_le_iff)
  then have "nat z < 10 ^ 10" "nat (- z) < 10 ^ 10" by simp_all
  from this [THEN decimal_length [rotated]] show ?thesis by (simp add: signed_decimal_def)
qed

lemma signed_decimal_not_Nil: "signed_decimal z \<noteq> []"
  by (simp add: signed_decimal_def)

text \<open>A connection of the client that is set up and whose message has been read.\<close>

definition counting :: "nat \<Rightarrow> nat \<Rightarrow> 'x connection \<Rightarrow> ('x, 'z) world_scheme \<Rightarrow> bool" where
  "counting room c k w \<longleftrightarrow>
     InLoopThread w \<and> conns w c = Some k \<and> c_rcb k \<and> buffer_ok (c_read_buf k) \<and> unread (c_read_buf k) = [] \<and>
     local_buf_len + room \<le> buffer_space (c_read_buf k) \<and> buffer_ok (c_write_buf k) \<and> room \<le> buffer_space (c_write_buf k)"

lemma count_reads:
  fixes w :: "('x, 'z) client_world_scheme"
  assumes "counting room c k w" "11 \<le> room" "cast_int msg = Some z" "- (2 ^ 31) \<le> z" "z < 2 ^ 31" "msg \<noteq> []" "length msg \<le> 11"
    and "\<And>n. os_readv os (os_calls w) n = Inr msg"
  shows "if z = 2 ^ 31 - 1
    then ReadFromPeer os (client_user_calls os (count_calls cast_int)) c w = Some (Inl Signed_overflow)
    else \<exists>w1 k1. ReadFromPeer os (client_user_calls os (count_calls cast_int)) c w = Some (Inr w1) \<and>
      counting (room - 11) c k1 w1 \<and> unread (c_write_buf k1) = unread (c_write_buf k) @ signed_decimal (z + 1) \<and>
      is_writing (c_channel k1) \<and> os_calls w1 = os_calls w + 1"
proof -
  note k = assms(1) [unfolded counting_def]
  obtain b where b: "ReadFromPeer os (client_user_calls os (count_calls cast_int)) c w =
      call_user (c_rcb k) (call_read (client_user_calls os (count_calls cast_int)) c) (set_conn c (k\<lparr>c_read_buf := b\<rparr>) (count_call w))"
    "buffer_ok b" "unread b = unread (c_read_buf k) @ msg" "buffer_space (c_read_buf k) - length msg \<le> buffer_space b"
    using ReadFromPeer_data [of w c k os msg "client_user_calls os (count_calls cast_int)"] k assms(6-8)
    by (auto simp: local_buf_len_def)
  define k0 where "k0 = k\<lparr>c_read_buf := b\<rparr>"
  define w0 where "w0 = set_conn c k0 (count_call w)"
  define k1 where "k1 = k0\<lparr>c_read_buf := Buffer_Clear b\<rparr>"
  define w1 where "w1 = set_conn c k1 w0"
  have run: "ReadFromPeer os (client_user_calls os (count_calls cast_int)) c w = count_OnMessage cast_int c w0"
    using b(1) k by (simp add: call_user_def client_user_calls_def count_calls_def w0_def k0_def)
  have msg: "unread b = msg" using b(3) k by simp
  have w0: "conns w0 c = Some k0" by (simp add: w0_def set_conn_def)
  have handled: "count_OnMessage cast_int c w0 =
      (if z = 2 ^ 31 - 1 then Some (Inl Signed_overflow) else TcpConnection_Write c (signed_decimal (z + 1)) w1)"
    using assms(3) w0 by (simp add: count_OnMessage_def with_conn_def k0_def ReadAndClear_ok [OF b(2)] msg w1_def k1_def)
  show ?thesis
  proof (cases "z = 2 ^ 31 - 1")
    case True
    then show ?thesis using run handled by simp
  next
    case False
    have "buffer_ok (Buffer_Clear b)" "unread (Buffer_Clear b) = []" "buffer_space b \<le> buffer_space (Buffer_Clear b)"
      using b(2) by (simp_all add: Buffer_Clear_def buffer_ok_def unread_def buffer_space_def)
    moreover have "local_buf_len + (room - 11) \<le> buffer_space b"
      using k b(4) assms(2,7) by linarith
    ultimately have k1: "buffer_ok (c_read_buf k1)" "unread (c_read_buf k1) = []" "c_rcb k1"
      "local_buf_len + (room - 11) \<le> buffer_space (c_read_buf k1)"
      "buffer_ok (c_write_buf k1)" "room \<le> buffer_space (c_write_buf k1)" "unread (c_write_buf k1) = unread (c_write_buf k)"
      using k by (simp_all add: k1_def k0_def)
    have w1: "InLoopThread w1" "conns w1 c = Some k1" "os_calls w1 = os_calls w + 1"
      using k by (simp_all add: w1_def w0_def world_simps)
    have len: "length (signed_decimal (z + 1)) \<le> 11" by (rule signed_decimal_length) (use assms(4,5) in simp_all)
    then have "length (signed_decimal (z + 1)) \<le> buffer_space (c_write_buf k1)" using k1(6) assms(2) by simp
    from Write_appends [OF w1(1,2) k1(5) this] obtain b1 where b1: "TcpConnection_Write c (signed_decimal (z + 1)) w1 =
        Some (Inr (set_events c (ch_events (c_channel k1) OR kWriteEvents) (k1\<lparr>c_write_buf := b1\<rparr>) (set_conn c (k1\<lparr>c_write_buf := b1\<rparr>) w1)))"
      "buffer_ok b1" "unread b1 = unread (c_write_buf k1) @ signed_decimal (z + 1)"
      "buffer_space (c_write_buf k1) - length (signed_decimal (z + 1)) \<le> buffer_space b1" by blast
    define k2 where "k2 = k1\<lparr>c_write_buf := b1, c_channel := (c_channel k1)\<lparr>ch_events := ch_events (c_channel k1) OR kWriteEvents\<rparr>\<rparr>"
    define w2 where "w2 = set_events c (ch_events (c_channel k1) OR kWriteEvents) (k1\<lparr>c_write_buf := b1\<rparr>) (set_conn c (k1\<lparr>c_write_buf := b1\<rparr>) w1)"
    have "counting (room - 11) c k2 w2"
      using k1 w1 b1(2,4) len by (simp add: counting_def k2_def w2_def world_simps)
    moreover have "is_writing (c_channel k2)" by (simp add: k2_def is_writing_def kWriteEvents_def EPOLLOUT_def)
    moreover have "unread (c_write_buf k2) = unread (c_write_buf k) @ signed_decimal (z + 1)" "os_calls w2 = os_calls w + 1"
      using b1(3) k1(7) w1(3) by (simp_all add: k2_def w2_def world_simps)
    ultimately show ?thesis using False run handled b1(1) unfolding w2_def by auto
  qed
qed

text \<open>\<open>m\<close> messages are read one after the other.\<close>

fun read_times ::
  "os_net \<Rightarrow> ('x, 'z) user_calls \<Rightarrow> nat \<Rightarrow> nat \<Rightarrow> ('x, 'z) world_scheme \<Rightarrow> ('x, 'z) world_scheme run" where
  "read_times os u c 0 w = Some (Inr w)"
| "read_times os u c (Suc m) w = then_run (read_times os u c m w) (ReadFromPeer os u c)"

text \<open>A peer that answers the \<open>i\<close>-th number with itself.\<close>

definition echoes_count :: "os_net \<Rightarrow> nat \<Rightarrow> bool" where
  "echoes_count os start \<longleftrightarrow> (\<forall>i n. os_readv os (start + i) n = Inr (signed_decimal (int i + 1)))"

lemma count_next:
  fixes w :: "('x, 'z) client_world_scheme"
  assumes "lexical_ok cast_int" "echoes_count os start" "counting room c k w" "11 \<le> room" "q < 2 ^ 31 - 1" "os_calls w = start + q"
  shows "if int q + 1 = 2 ^ 31 - 1
    then ReadFromPeer os (client_user_calls os (count_calls cast_int)) c w = Some (Inl Signed_overflow)
    else \<exists>w1 k1. ReadFromPeer os (client_user_calls os (count_calls cast_int)) c w = Some (Inr w1) \<and>
      counting (room - 11) c k1 w1 \<and> unread (c_write_buf k1) = unread (c_write_buf k) @ signed_decimal (int q + 1 + 1) \<and>
      is_writing (c_channel k1) \<and> os_calls w1 = os_calls w + 1"
proof -
  have z: "- (2 ^ 31) \<le> int q + 1" "int q + 1 < 2 ^ 31" using assms(5) by simp_all
  then have "cast_int (signed_decimal (int q + 1)) = Some (int q + 1)" "length (signed_decimal (int q + 1)) \<le> 11"
    using assms(1) signed_decimal_length by (simp_all add: lexical_ok_def)
  then show ?thesis
    by (intro count_reads [where cast_int = cast_int and msg = "signed_decimal (int q + 1)", OF assms(3,4) _ z signed_decimal_not_Nil])
      (use assms(2,6) in \<open>simp_all add: echoes_count_def\<close>)
qed

lemma count_many:
  fixes w :: "('x, 'z) client_world_scheme"
  assumes "lexical_ok cast_int" "echoes_count os (os_calls w)" "counting room c k w" "11 * q \<le> room" "q < 2 ^ 31 - 1"
  shows "\<exists>w1 k1. read_times os (client_user_calls os (count_calls cast_int)) c q w = Some (Inr w1) \<and>
      counting (room - 11 * q) c k1 w1 \<and> (0 < q \<longrightarrow> is_writing (c_channel k1)) \<and> os_calls w1 = os_calls w + q \<and>
      unread (c_write_buf k1) = unread (c_write_buf k) @ concat (map (\<lambda>i. signed_decimal (int i + 2)) [0..<q])"
  using assms(4,5)
proof (induction q)
  case 0
  then show ?case using assms(3) by (intro exI [of _ w] exI [of _ k]) simp
next
  case (Suc q)
  let ?u = "client_user_calls os (count_calls cast_int :: ('x, 'z) client_calls)"
  obtain w1 k1 where w1: "read_times os ?u c q w = Some (Inr w1)" "counting (room - 11 * q) c k1 w1"
    "unread (c_write_buf k1) = unread (c_write_buf k) @ concat (map (\<lambda>i. signed_decimal (int i + 2)) [0..<q])"
    "os_calls w1 = os_calls w + q" using Suc by auto
  have "11 \<le> room - 11 * q" "q < 2 ^ 31 - 1" using Suc.prems by simp_all
  from count_next [OF assms(1,2) w1(2) this w1(4)] Suc.prems(2) obtain w2 k2 where w2: "ReadFromPeer os ?u c w1 = Some (Inr w2)"
    "counting (room - 11 * q - 11) c k2 w2" "is_writing (c_channel k2)" "os_calls w2 = os_calls w1 + 1"
    "unread (c_write_buf k2) = unread (c_write_buf k1) @ signed_decimal (int q + 1 + 1)" by (auto split: if_splits)
  then show ?case using w1 by (intro exI [of _ w2] exI [of _ k2]) (simp add: algebra_simps)
qed

section \<open>Properties\<close>

text \<open>C15: against a peer that sends every number back, the client counts: after \<open>m\<close> messages 1, 2, 3
  and so on it has put 2, 3, 4 and so on behind what waits to be written, each once and in order. This
  goes well exactly up to the largest \<open>int\<close>, whose increment is not defined.\<close>

theorem count_client_counts:
  fixes w :: "('x, 'z) client_world_scheme"
  assumes "lexical_ok cast_int" "counting room c k w" "11 * m \<le> room" "m \<le> 2 ^ 31 - 1"
    and "echoes_count os (os_calls w)"
  shows "if m = 2 ^ 31 - 1 then read_times os (client_user_calls os (count_calls cast_int)) c m w = Some (Inl Signed_overflow)
    else \<exists>w1 k1. read_times os (client_user_calls os (count_calls cast_int)) c m w = Some (Inr w1) \<and>
      conns w1 c = Some k1 \<and> unread (c_read_buf k1) = [] \<and> (0 < m \<longrightarrow> is_writing (c_channel k1)) \<and>
      unread (c_write_buf k1) = unread (c_write_buf k) @ concat (map (\<lambda>i. signed_decimal (int i + 2)) [0..<m])"
proof (cases "m = 2 ^ 31 - 1")
  case True
  then obtain q where q: "m = Suc q" by (cases m) simp_all
  then have "11 * q \<le> room" "q < 2 ^ 31 - 1" "11 \<le> room - 11 * q" "int q + 1 = 2 ^ 31 - 1" using assms(3) True by simp_all
  from count_many [OF assms(1,5,2) this(1,2)] count_next [OF assms(1,5)] this obtain w1 where
    "read_times os (client_user_calls os (count_calls cast_int)) c q w = Some (Inr w1)"
    "ReadFromPeer os (client_user_calls os (count_calls cast_int)) c w1 = Some (Inl Signed_overflow)" by metis
  then have "read_times os (client_user_calls os (count_calls cast_int)) c m w = Some (Inl Signed_overflow)" unfolding q by simp
  then show ?thesis using True by simp
next
  case False
  then have "m < 2 ^ 31 - 1" using assms(4) by linarith
  from count_many [OF assms(1,5,2,3) this] False show ?thesis unfolding counting_def by auto
qed

text \<open>The client takes what has arrived for a whole number. When the 10 of the peer comes in two parts,
  it answers 2 and 1 instead of 11.\<close>

theorem count_client_splits:
  fixes w :: "('x, 'z) client_world_scheme"
  assumes "lexical_ok cast_int" "counting room c k w" "22 \<le> room"
    and "\<And>n. os_readv os (os_calls w) n = Inr ''1''" "\<And>n. os_readv os (os_calls w + 1) n = Inr ''0''"
  shows "\<exists>w1 k1. read_times os (client_user_calls os (count_calls cast_int)) c 2 w = Some (Inr w1) \<and>
      conns w1 c = Some k1 \<and> unread (c_write_buf k1) = unread (c_write_buf k) @ ''21''"
proof -
  define u where "u = client_user_calls os (count_calls cast_int :: ('x, 'z) client_calls)"
  have d: "signed_decimal 0 = ''0''" "signed_decimal 1 = ''1''" "signed_decimal 2 = ''2''"
    by (simp_all add: signed_decimal_def decimal.simps [of 0] decimal.simps [of "Suc 0"] decimal.simps [of 2] char_of_def
        bit_numeral_rec bit_0)
  have "cast_int (signed_decimal 0) = Some 0" "cast_int (signed_decimal 1) = Some 1" using assms(1) by (simp_all add: lexical_ok_def)
  then have cast: "cast_int ''0'' = Some 0" "cast_int ''1'' = Some 1" by (simp_all add: d)
  obtain w1 k1 where w1: "ReadFromPeer os u c w = Some (Inr w1)" "counting (room - 11) c k1 w1" "os_calls w1 = os_calls w + 1"
    "unread (c_write_buf k1) = unread (c_write_buf k) @ ''2''"
    using count_reads [where cast_int = cast_int, OF assms(2) _ cast(2), of os] assms(3,4) d(3) unfolding u_def by auto
  have room: "11 \<le> room - 11" using assms(3) by simp
  obtain w2 k2 where w2: "ReadFromPeer os u c w1 = Some (Inr w2)" "counting (room - 11 - 11) c k2 w2"
    "unread (c_write_buf k2) = unread (c_write_buf k1) @ ''1''"
    using count_reads [where cast_int = cast_int, OF w1(2) room cast(1), of os] assms(5) d(2) w1(3) unfolding u_def by auto
  then show ?thesis
    using w1(1,4) unfolding u_def [symmetric] by (auto simp: numeral_2_eq_2 counting_def)
qed

section \<open>Witness\<close>

definition plain_cast :: "string \<Rightarrow> int option" where
  "plain_cast s =
     (if s \<noteq> [] \<and> hd s = CHR ''-'' then map_option (\<lambda>n. - int n) (digits_value (tl s) 0) else map_option int (digits_value s 0))"

lemma plain_cast_ok: "lexical_ok plain_cast"
proof -
  have "plain_cast (signed_decimal z) = Some z" for z
  proof (cases "z < 0")
    case True
    then show ?thesis by (simp add: plain_cast_def signed_decimal_def digits_value_decimal)
  next
    case False
    have "hd (decimal (nat z)) \<in> set (decimal (nat z))" by simp
    then have "hd (decimal (nat z)) \<noteq> CHR ''-''" using decimal_digits [of "nat z"] by force
    then show ?thesis using False by (simp add: plain_cast_def signed_decimal_def digits_value_decimal)
  qed
  then show ?thesis by (simp add: lexical_ok_def)
qed

definition count_net :: os_net where
  "count_net = (easy_net (Inr []) None)\<lparr>os_readv := \<lambda>i n. Inr (signed_decimal (int i + 1))\<rparr>"

definition counter :: "unit connection" where
  "counter = (new_connection 13 3 kConnected)\<lparr>c_rcb := True\<rparr>"

definition count_world :: "unit client_world" where
  "count_world =
     world.extend (event_loop.extend idle_loop \<lparr>conns = [13 \<mapsto> counter], os_calls = 0, net_log = []\<rparr>)
       \<lparr>cl_connections = [3 \<mapsto> 13], cl_connector = Connector_init, cl_ccb = True, cl_rcb = True\<rparr>"

theorem count_client_counts_witness:
  "\<exists>w1 k1. read_times count_net (client_user_calls count_net (count_calls plain_cast)) 13 3 count_world = Some (Inr w1) \<and>
      conns w1 13 = Some k1 \<and> unread (c_read_buf k1) = [] \<and> is_writing (c_channel k1) \<and> unread (c_write_buf k1) = ''234''"
proof -
  have "counting 100 13 counter count_world"
    by (simp add: counting_def count_world_def counter_def new_connection_def world.defs event_loop.defs poller.defs idle_loop_def
        InLoopThread_def Poller_init_def Buffer_init_def buffer_ok_def unread_def vector_max_size_def buffer_space_def
        kDefaultReservedSize_def local_buf_len_def)
  moreover have "os_calls count_world = 0"
    by (simp add: count_world_def world.defs event_loop.defs poller.defs idle_loop_def)
  moreover have "unread (c_write_buf counter) = []"
    by (simp add: counter_def new_connection_def Buffer_init_def unread_def)
  moreover have "[0..<3] = [0, 1, 2]" by (simp add: upt_rec)
  then have "concat (map (\<lambda>i. signed_decimal (int i + 2)) [0..<3]) = ''234''"
    by (simp add: signed_decimal_def decimal.simps [of 2] decimal.simps [of 3]
        decimal.simps [of 4] char_of_def bit_numeral_rec bit_0)
  ultimately show ?thesis
    using count_client_counts [OF plain_cast_ok, of 100 13 counter count_world 3 count_net] by (auto simp: count_net_def echoes_count_def)
qed

end
