(* ===== verification/Pid_File.thy ===== *)
theory Pid_File
  imports Fx_Prelude
begin

text \<open>
  The pid file (base/pidfile/pidfile.h, pidfile.cc): a program writes its process id to a file
  \<open><directory>/<program>.pid\<close> when it starts, ends if the file is there already, and deletes it when
  it ends. The files are a map from paths to contents; whether a path can be opened for writing and
  whether a file can be deleted are parameters. An exit is \<open>Inl\<close> of what was written to \<open>stderr\<close>.
\<close>

section \<open>The operations\<close>

type_synonym files = "string \<rightharpoonup> string"

record pidfile =
  pf_deleted :: bool
  pf_full_path :: string

text \<open>What the process is told by the system.\<close>

record process =
  pr_cwd :: string
  pr_name :: string
  pr_pid :: nat
  pr_writable :: "string \<Rightarrow> bool"
  pr_can_unlink :: "string \<Rightarrow> bool"

text \<open>\<open>vsnprintf\<close> into \<open>n\<close> bytes.\<close>

definition fits_in :: "nat \<Rightarrow> string \<Rightarrow> string" where
  "fits_in n s = take (n - 1) s"

definition ErrorOutputAndExit :: "string \<Rightarrow> string + 'a" where
  "ErrorOutputAndExit msg = Inl (fits_in 512 msg)"

definition full_path_of :: "process \<Rightarrow> string" where
  "full_path_of pr = fits_in 512 (pr_cwd pr @ ''/'' @ pr_name pr @ ''.pid'')"

definition CheckIfAlreadyExists :: "string \<Rightarrow> files \<Rightarrow> string + unit" where
  "CheckIfAlreadyExists path fs =
     (if fs path \<noteq> None then ErrorOutputAndExit (path @ '' already exists.'' @ [CHR 0x0A]) else Inr ())"

definition CreatePidFile :: "process \<Rightarrow> string \<Rightarrow> files \<Rightarrow> string + files" where
  "CreatePidFile pr path fs =
     (if pr_writable pr path then Inr (fs(path \<mapsto> decimal (pr_pid pr)))
      else ErrorOutputAndExit (''cannot open '' @ path @ '' for writing.'' @ [CHR 0x0A]))"

definition PidFile_init :: "process \<Rightarrow> files \<Rightarrow> string + pidfile \<times> files" where
  "PidFile_init pr fs =
     (let path = full_path_of pr in
      case CheckIfAlreadyExists path fs of
        Inl msg \<Rightarrow> Inl msg
      | Inr _ \<Rightarrow>
          (case CreatePidFile pr path fs of
             Inl msg \<Rightarrow> Inl msg
           | Inr fs1 \<Rightarrow> Inr (\<lparr>pf_deleted = False, pf_full_path = path\<rparr>, fs1)))"

text \<open>A failed \<open>unlink\<close> is only reported.\<close>

definition DeletePidFile :: "process \<Rightarrow> pidfile \<Rightarrow> files \<Rightarrow> pidfile \<times> files" where
  "DeletePidFile pr pf fs =
     (pf\<lparr>pf_deleted := True\<rparr>, if pr_can_unlink pr (pf_full_path pf) then fs(pf_full_path pf := None) else fs)"

definition PidFile_delete :: "process \<Rightarrow> pidfile \<Rightarrow> files \<Rightarrow> files" where
  "PidFile_delete pr pf fs = (if \<not> pf_deleted pf then snd (DeletePidFile pr pf fs) else fs)"

text \<open>\<open>Instance\<close>: the static object is made by the first call.\<close>

definition PidFile_Instance :: "process \<Rightarrow> pidfile option \<Rightarrow> files \<Rightarrow> string + pidfile \<times> files" where
  "PidFile_Instance pr pf fs = (case pf of Some p \<Rightarrow> Inr (p, fs) | None \<Rightarrow> PidFile_init pr fs)"

section \<open>One process at a time\<close>

lemma PidFile_init_fresh:
  assumes "fs (full_path_of pr) = None" "pr_writable pr (full_path_of pr)"
  shows "PidFile_init pr fs =
     Inr (\<lparr>pf_deleted = False, pf_full_path = full_path_of pr\<rparr>, fs(full_path_of pr \<mapsto> decimal (pr_pid pr)))"
  using assms by (simp add: PidFile_init_def CheckIfAlreadyExists_def CreatePidFile_def Let_def)

text \<open>C39: once a process has its pid file, which holds its id, every other start of the program in the
  same directory ends and leaves the file as it is; when the process has ended, the files are what
  they were before it started, and also when its signal handler deleted the file first.\<close>

theorem pidfile_one_at_a_time:
  assumes "fs (full_path_of pr) = None" "pr_writable pr (full_path_of pr)" "pr_can_unlink pr (full_path_of pr)"
    and "full_path_of pr' = full_path_of pr"
  shows "\<exists>pf fs1 msg. PidFile_init pr fs = Inr (pf, fs1) \<and> fs1 (full_path_of pr) = Some (decimal (pr_pid pr)) \<and>
     PidFile_init pr' fs1 = Inl msg \<and> PidFile_delete pr pf fs1 = fs \<and>
     (case DeletePidFile pr pf fs1 of (pf1, fs2) \<Rightarrow> PidFile_delete pr pf1 fs2 = fs)"
proof -
  have "\<exists>msg. PidFile_init pr' (fs(full_path_of pr \<mapsto> x)) = Inl msg" for x
    using assms(4) by (simp add: PidFile_init_def CheckIfAlreadyExists_def Let_def ErrorOutputAndExit_def)
  then show ?thesis
    using PidFile_init_fresh [of fs pr] assms
    by (simp add: PidFile_delete_def DeletePidFile_def fun_upd_idem)
qed

definition demo_process :: "nat \<Rightarrow> process" where
  "demo_process pid = \<lparr>pr_cwd = ''/srv'', pr_name = ''echo'', pr_pid = pid, pr_writable = \<lambda>_. True, pr_can_unlink = \<lambda>_. True\<rparr>"

theorem pidfile_one_at_a_time_witness:
  "\<exists>pf fs1 msg. PidFile_init (demo_process 4) Map.empty = Inr (pf, fs1) \<and>
     fs1 (full_path_of (demo_process 4)) = Some (decimal (pr_pid (demo_process 4))) \<and>
     PidFile_init (demo_process 5) fs1 = Inl msg \<and> PidFile_delete (demo_process 4) pf fs1 = Map.empty \<and>
     (case DeletePidFile (demo_process 4) pf fs1 of (pf1, fs2) \<Rightarrow> PidFile_delete (demo_process 4) pf1 fs2 = Map.empty)"
  by (rule pidfile_one_at_a_time) (simp_all add: demo_process_def full_path_of_def)

section \<open>Two processes at once\<close>

text \<open>The test and the creation are two calls. When two processes start together, both can pass
  the test; both run, the file holds the id of the later one, and when the first ends it deletes
  the file of the second, so that a third can start beside it.\<close>

theorem pidfile_race:
  assumes "fs path = None" "pr_writable p1 path" "pr_writable p2 path" "pr_can_unlink p1 path"
  shows "\<exists>fs1 fs2. CheckIfAlreadyExists path fs = Inr () \<and>
     CreatePidFile p1 path fs = Inr fs1 \<and> CreatePidFile p2 path fs1 = Inr fs2 \<and> fs2 path = Some (decimal (pr_pid p2)) \<and>
     CheckIfAlreadyExists path (PidFile_delete p1 \<lparr>pf_deleted = False, pf_full_path = path\<rparr> fs2) = Inr ()"
  using assms by (simp add: CheckIfAlreadyExists_def CreatePidFile_def PidFile_delete_def DeletePidFile_def)

text \<open>The path is cut at 511 characters: in a deep directory the name of the program is lost.\<close>

lemma full_path_cut: "511 \<le> length (pr_cwd pr) \<Longrightarrow> full_path_of pr = take 511 (pr_cwd pr)"
  by (simp add: full_path_of_def fits_in_def)

end
