(* ===== verification/Echo_Server.thy ===== *)
theory Echo_Server
  imports Tcp_Server Pid_File
begin

text \<open>
  The server of the examples (examples/server/main.cc) sends back what it
  gets and closes a connection that sends nothing for 5 seconds; the context of a connection is the
  id of its timer, whose callback holds a weak pointer. \<open>boost::lexical_cast\<close> is a parameter.

  A weak pointer gives the connection as long as it is not deleted. \<open>make_shared\<close> puts an object
  beside its counters, so its address is not used again while a weak pointer is left: the address
  in the functor \<open>F_say_goodbye\<close> names the connection.
\<close>

section \<open>The callbacks\<close>

definition kTimeOut :: int where
  "kTimeOut = 5 * 1000"

definition goodbye :: string where
  "goodbye = ''You give nothing!!!!!!'' @ [CHR 0x0A]"

definition SayGoodbye ::
  "os_net \<Rightarrow> ('x, 'z) user_calls \<Rightarrow> nat \<Rightarrow> ('x, 'z) world_scheme \<Rightarrow> ('x, 'z) world_scheme run" where
  "SayGoodbye os u c w =
     (case conns w c of
        None \<Rightarrow> Some (Inr w)
      | Some k \<Rightarrow>
          if conn_closed k then Some (Inr w)
          else then_run (TcpConnection_Write c goodbye w) (ActiveClose os u c))"

text \<open>The timer of a connection, and its id as the context.\<close>

definition arm_timer :: "os_net \<Rightarrow> nat \<Rightarrow> (nat, 'z) world_scheme \<Rightarrow> (nat, 'z) world_scheme run" where
  "arm_timer os c w =
     then_run (Some (EventLoop_RunAfter (os_now os (os_calls w)) kTimeOut (F_say_goodbye c) (count_call w)))
       (\<lambda>(i, w1). set_context c i w1)"

definition echo_OnNewConnection :: "os_net \<Rightarrow> nat \<Rightarrow> (nat, 'z) world_scheme \<Rightarrow> (nat, 'z) world_scheme run" where
  "echo_OnNewConnection os c = arm_timer os c"

definition echo_OnMessage :: "os_net \<Rightarrow> nat \<Rightarrow> (nat, 'z) world_scheme \<Rightarrow> (nat, 'z) world_scheme run" where
  "echo_OnMessage os c = with_conn c (\<lambda>k w.
     then_run (Some (ReadAndClear (c_read_buf k))) (\<lambda>(msg, b).
     then_run (TcpConnection_Write c msg (set_conn c (k\<lparr>c_read_buf := b\<rparr>) w))
       (with_conn c (\<lambda>k1 w1.
          case c_ctx k1 of
            None \<Rightarrow> Some (Inl Bad_any_cast)
          | Some i \<Rightarrow> then_run (Some (EventLoop_RemoveTimer i w1)) (arm_timer os c)))))"

definition echo_OnConnectionClosed :: "nat \<Rightarrow> ('x, 'z) world_scheme \<Rightarrow> ('x, 'z) world_scheme run" where
  "echo_OnConnectionClosed c = with_conn c (\<lambda>k w.
     if c_ctx k \<noteq> None then clear_context c w else Some (Inr w))"

text \<open>Closing a connection calls nothing of these but the last.\<close>

definition echo_close_calls :: "(nat, 'z) server_calls" where
  "echo_close_calls =
     \<lparr>on_read = \<lambda>c w. Some (Inr w), on_write_done = \<lambda>c w. Some (Inr w), on_new = \<lambda>c w. Some (Inr w),
      on_timer = \<lambda>c w. Some (Inr w), on_closed = echo_OnConnectionClosed\<rparr>"

definition echo_calls :: "os_net \<Rightarrow> (nat, 'z) server_calls" where
  "echo_calls os =
     echo_close_calls
       \<lparr>on_read := echo_OnMessage os, on_new := echo_OnNewConnection os,
        on_timer := SayGoodbye os (server_user_calls os echo_close_calls)\<rparr>"

text \<open>What \<open>main\<close> does with its server before it runs the loop.\<close>

definition echo_start ::
  "os_net \<Rightarrow> int \<Rightarrow> nat \<Rightarrow> int \<Rightarrow> (nat, 'z) server_world_scheme \<Rightarrow> (nat, 'z) server_world_scheme run" where
  "echo_start os port thread_count unset w =
     TcpServer_Start os (echo_calls os)
       (server_set_close_callback (server_set_new_callback (server_set_read_callback
         (SetThreadNum thread_count (TcpServer_init (NetAddress_of_text ''0.0.0.0'' port) unset w)))))"

text \<open>\<open>main\<close> up to the loop: the pid file, the number of arguments, the two conversions (a failed one
  throws). \<open>None\<close> as a result is the return value \<open>-1\<close>; an exit is \<open>Inl\<close> of its message.\<close>

definition echo_main ::
  "process \<Rightarrow> (string \<Rightarrow> int option) \<Rightarrow> (string \<Rightarrow> nat option) \<Rightarrow> os_net \<Rightarrow> int \<Rightarrow> string list \<Rightarrow> files \<Rightarrow>
   (nat, 'z) server_world_scheme \<Rightarrow> string + ((nat, 'z) server_world_scheme run option \<times> pidfile \<times> files)" where
  "echo_main pr cast_int cast_size os unset argv fs w =
     (case PidFile_Instance pr None fs of
        Inl msg \<Rightarrow> Inl msg
      | Inr (pf, fs1) \<Rightarrow>
          Inr (case argv of
                 [_, port, threads] \<Rightarrow>
                   Some (case cast_int port of
                           None \<Rightarrow> Some (Inl Bad_lexical_cast)
                         | Some p \<Rightarrow>
                             (case cast_size threads of
                                None \<Rightarrow> Some (Inl Bad_lexical_cast)
                              | Some n \<Rightarrow> echo_start os p (n mod 2 ^ 32) unset w))
               | _ \<Rightarrow> None, pf, fs1))"

end
