(* ===== verification/Echo_Server_Laws.thy ===== *)
theory Echo_Server_Laws
  imports Tcp_Rounds Echo_Server
begin

text \<open>
  The echo server is well typed in its loop: the context of every connection it serves is the id of
  a timer that is pending and will say goodbye to this very connection, so the cast of the context
  and the removal of the timer never fail. The invariant is kept by every round of the loop, with
  any descriptors ready and any timers due, on a network without the failures that end a process.
\<close>

unbundle bit_operations_syntax

section \<open>The invariant\<close>

text \<open>The bytes one call of \<open>readv\<close> brings are bounded. The invariant counts the events there is room
  for: \<open>n\<close> more events cannot fill a buffer or use up the ids of the timers. A connection that is
  open has room for the goodbye besides.\<close>

definition per_event :: nat where
  "per_event = 2 ^ 20"

definition echo_shape :: "nat \<Rightarrow> nat \<Rightarrow> 'x connection \<Rightarrow> bool" where
  "echo_shape n c k \<longleftrightarrow>
     ch_ptr (c_channel k) = c \<and> ch_fd (c_channel k) = c_fd k \<and> ch_rcb (c_channel k) = Some On_read_from_peer \<and>
     ch_wcb (c_channel k) = Some On_write_to_peer \<and> ch_ecb (c_channel k) = Some On_handle_error \<and>
     c_rcb k \<and> c_ccb k \<and> \<not> c_wdcb k \<and> c_zc_fd k = - 1 \<and> c_zc_writed k \<le> c_zc_len k \<and>
     buffer_ok (c_read_buf k) \<and> unread (c_read_buf k) = [] \<and> buffer_ok (c_write_buf k) \<and> Suc n * per_event \<le> buffer_space (c_read_buf k) \<and>
     n * per_event \<le> buffer_space (c_write_buf k) \<and>
     (c_state k = kConnected \<and> Suc n * per_event \<le> buffer_space (c_write_buf k) \<or>
      c_state k = kDisconnected \<and> \<not> is_reading (c_channel k))"

text \<open>The timer of a connection: it is pending, or its callback is among those being run, \<open>gs\<close>.\<close>

definition armed :: "nat set \<Rightarrow> loop_functor wheel \<Rightarrow> nat \<Rightarrow> nat connection \<Rightarrow> bool" where
  "armed gs tm c k \<longleftrightarrow>
     c \<in> gs \<or> (\<exists>i t. c_ctx k = Some i \<and> timers tm i = Some t \<and> cb t = F_say_goodbye c)"

definition timers_fit :: "nat \<Rightarrow> nat \<Rightarrow> loop_functor wheel \<Rightarrow> bool" where
  "timers_fit tmax n tm \<longleftrightarrow>
     wheel_ok tm \<and> (\<forall>i t. timers tm i = Some t \<longrightarrow> (\<exists>c. cb t = F_say_goodbye c)) \<and>
     last_expire_time tm \<le> tmax \<and> tmax + 5000 < 2 ^ 64 \<and>
     clock (hands tm) + (tmax + 5000 - last_expire_time tm) < 2 ^ 31 \<and> last_timer_id tm + n < 2 ^ 64"

text \<open>What every connection has in the server; \<open>ds\<close> are those that wait for their end.\<close>

definition conn_fits :: "nat \<Rightarrow> nat set \<Rightarrow> nat list \<Rightarrow> (nat, 'z) server_world_scheme \<Rightarrow> nat \<Rightarrow> nat connection \<Rightarrow> bool" where
  "conn_fits n gs ds w c k \<longleftrightarrow>
     echo_shape n c k \<and> p_channels w (c_fd k) = Some c \<and> srv_conn_loop w c = Base_loop \<and>
     (if c_state k = kConnected then srv_connections w (c_fd k) = Some c \<and> armed gs (timer_mgr w) c k \<and> c \<notin> set ds
      else c \<in> set ds)"

definition serving :: "nat \<Rightarrow> (nat, 'z) server_world_scheme \<Rightarrow> bool" where
  "serving a w \<longleftrightarrow>
     InLoopThread w \<and> period_functor w = None \<and> loop_thread_count (srv_pool w) = 0 \<and> srv_rcb w \<and> srv_cccb w \<and> srv_nccb w \<and>
     ac_nccb (srv_acceptor w) \<and>
     map_option (\<lambda>ch. (ch_ptr ch, ch_rcb ch, ch_wcb ch, ch_ecb ch)) (ac_channel (srv_acceptor w)) = Some (a, Some (), None, None)"

text \<open>\<open>a\<close> and \<open>lfd\<close> are the acceptor's channel and its socket, \<open>u\<close> is the wake-up channel.\<close>

definition echo_inv ::
  "nat \<times> int \<times> nat \<Rightarrow> nat \<Rightarrow> nat \<Rightarrow> nat set \<Rightarrow> nat list \<Rightarrow> (nat, 'z) server_world_scheme \<Rightarrow> bool" where
  "echo_inv ctl tmax n gs ds w \<longleftrightarrow>
     (case ctl of (a, lfd, u) \<Rightarrow>
     serving a w \<and> timers_fit tmax n (timer_mgr w) \<and> n \<le> 2 ^ 40 \<and> a \<noteq> u \<and> conns w a = None \<and> conns w u = None \<and>
     (\<forall>c k. conns w c = Some k \<longrightarrow> conn_fits n gs ds w c k) \<and>
     distinct ds \<and> (\<forall>c\<in>set ds. conns w c \<noteq> None) \<and>
     (\<forall>fd c. srv_connections w fd = Some c \<longrightarrow> (\<exists>k. conns w c = Some k \<and> c_fd k = fd \<and> c_state k = kConnected)) \<and>
     (\<forall>fd c. p_channels w fd = Some c \<longrightarrow> c = a \<and> fd = lfd \<or> c = u \<or> (\<exists>k. conns w c = Some k \<and> c_fd k = fd)))"

lemma echo_invI:
  assumes "serving a w" "timers_fit tmax n (timer_mgr w)" "n \<le> 2 ^ 40" "a \<noteq> u" "conns w a = None" "conns w u = None"
    and "\<And>c k. conns w c = Some k \<Longrightarrow> conn_fits n gs ds w c k"
    and "distinct ds" "\<And>c. c \<in> set ds \<Longrightarrow> conns w c \<noteq> None"
    and "\<And>fd c. srv_connections w fd = Some c \<Longrightarrow> \<exists>k. conns w c = Some k \<and> c_fd k = fd \<and> c_state k = kConnected"
    and "\<And>fd c. p_channels w fd = Some c \<Longrightarrow> c = a \<and> fd = lfd \<or> c = u \<or> (\<exists>k. conns w c = Some k \<and> c_fd k = fd)"
  shows "echo_inv (a, lfd, u) tmax n gs ds w"
  unfolding echo_inv_def prod.case by (intro conjI allI impI ballI assms)

lemma echo_invD:
  assumes "echo_inv (a, lfd, u) tmax n gs ds w"
  shows "serving a w" "timers_fit tmax n (timer_mgr w)" "n \<le> 2 ^ 40" "a \<noteq> u" "conns w a = None" "conns w u = None"
    and "\<And>c k. conns w c = Some k \<Longrightarrow> conn_fits n gs ds w c k"
    and "distinct ds" "\<And>c. c \<in> set ds \<Longrightarrow> conns w c \<noteq> None"
    and "\<And>fd c. srv_connections w fd = Some c \<Longrightarrow> \<exists>k. conns w c = Some k \<and> c_fd k = fd \<and> c_state k = kConnected"
    and "\<And>fd c. p_channels w fd = Some c \<Longrightarrow> c = a \<and> fd = lfd \<or> c = u \<or> (\<exists>k. conns w c = Some k \<and> c_fd k = fd)"
  using assms unfolding echo_inv_def prod.case by simp_all

section \<open>What keeps it\<close>

text \<open>A change that leaves the rest of the server alone.\<close>

definition server_rest where
  "server_rest w = (InLoopThread w, period_functor w, srv_pool w, srv_rcb w, srv_cccb w, srv_nccb w,
     ac_nccb (srv_acceptor w), map_option (\<lambda>ch. (ch_ptr ch, ch_rcb ch, ch_wcb ch, ch_ecb ch)) (ac_channel (srv_acceptor w)))"

definition same_rest :: "(nat, 'z) server_world_scheme \<Rightarrow> (nat, 'z) server_world_scheme \<Rightarrow> bool" where
  "same_rest w w' \<longleftrightarrow>
     server_rest w' = server_rest w \<and> p_channels w' = p_channels w \<and> srv_conn_loop w' = srv_conn_loop w"

lemma serving_rest: "server_rest w' = server_rest w \<Longrightarrow> serving a w' = serving a w"
  by (simp add: serving_def server_rest_def)

lemma rest_of_kept: "kept w' = kept w \<Longrightarrow> InLoopThread w' = InLoopThread w \<Longrightarrow> server_rest w' = server_rest w"
  by (simp add: kept_def server_rest_def)

lemma timers_fit_mono: "timers_fit tmax m tm \<Longrightarrow> n \<le> m \<Longrightarrow> timers_fit tmax n tm"
  by (auto simp: timers_fit_def)

lemma echo_shape_mono: "echo_shape m c k \<Longrightarrow> n \<le> m \<Longrightarrow> echo_shape n c k"
  unfolding echo_shape_def by (auto intro: order_trans [OF mult_le_mono1] order_trans [OF add_left_mono [OF mult_le_mono1]])

lemma conn_fits_mono: "conn_fits m gs ds w c k \<Longrightarrow> n \<le> m \<Longrightarrow> conn_fits n gs ds w c k"
  by (auto simp: conn_fits_def intro: echo_shape_mono)

lemma echo_inv_mono: "echo_inv ctl tmax m gs ds w \<Longrightarrow> n \<le> m \<Longrightarrow> echo_inv ctl tmax n gs ds w"
  by (auto simp: echo_inv_def intro: timers_fit_mono conn_fits_mono)

text \<open>One connection changes and stays open or closed.\<close>

lemma inv_changes:
  assumes "echo_inv ctl tmax n gs ds w" "conns w c = Some k" "conns w' = (conns w)(c \<mapsto> k')" "same_rest w w'"
    and "srv_connections w' = srv_connections w" "echo_shape n c k'" "c_state k' = c_state k" "c_fd k' = c_fd k"
    and "timers_fit tmax n (timer_mgr w')"
    and "\<And>i t d. d \<noteq> c \<Longrightarrow> timers (timer_mgr w) i = Some t \<Longrightarrow> cb t = F_say_goodbye d \<Longrightarrow> timers (timer_mgr w') i = Some t"
    and "c_state k = kConnected \<Longrightarrow> armed gs (timer_mgr w') c k'"
  shows "echo_inv ctl tmax n gs ds w'"
proof -
  obtain a lfd u where ctl: "ctl = (a, lfd, u)" by (cases ctl)
  note i = echo_invD [OF assms(1) [unfolded ctl]]
  have eqs: "p_channels w' = p_channels w" "srv_conn_loop w' = srv_conn_loop w" "server_rest w' = server_rest w"
    using assms(4) by (simp_all add: same_rest_def)
  show ?thesis
    unfolding ctl
  proof (rule echo_invI [OF _ assms(9) i(3,4) _ _ _ i(8)])
    show "serving a w'" using i(1) serving_rest [OF eqs(3)] by blast
    show "conns w' a = None" "conns w' u = None" using i(5,6) assms(2,3) by auto
    show "conns w' d \<noteq> None" if "d \<in> set ds" for d using i(9) [OF that] assms(3) by simp
    show "conn_fits n gs ds w' d e" if "conns w' d = Some e" for d e
    proof (cases "d = c")
      case True
      then have "e = k'" using that assms(3) by simp
      then show ?thesis
        using True i(7) [OF assms(2)] assms(5-8,11) eqs by (simp add: conn_fits_def split: if_splits)
    next
      case False
      then have "conn_fits n gs ds w d e" using i(7) that assms(3) by auto
      then show ?thesis
        using False assms(10) eqs assms(5) by (auto simp: conn_fits_def armed_def)
    qed
    show "\<exists>e. conns w' d = Some e \<and> c_fd e = fd \<and> c_state e = kConnected" if "srv_connections w' fd = Some d" for fd d
      using i(10) [of fd d] that assms(2,3,5,7,8) by (cases "d = c") auto
    show "d = a \<and> fd = lfd \<or> d = u \<or> (\<exists>e. conns w' d = Some e \<and> c_fd e = fd)" if "p_channels w' fd = Some d" for fd d
      using i(11) [of fd d] that eqs(1) assms(2,3,8) by (cases "d = c") auto
  qed
qed

text \<open>One connection is closed.\<close>

lemma inv_closes:
  assumes "echo_inv ctl tmax n gs ds w" "conns w c = Some k" "c_state k = kConnected" "conns w' = (conns w)(c \<mapsto> k')"
    and "same_rest w w'" "srv_connections w' = (srv_connections w)(c_fd k := None)" "timer_mgr w' = timer_mgr w"
    and "echo_shape n c k'" "c_state k' = kDisconnected" "c_fd k' = c_fd k"
  shows "echo_inv ctl tmax n gs (ds @ [c]) w'"
proof -
  obtain a lfd u where ctl: "ctl = (a, lfd, u)" by (cases ctl)
  note i = echo_invD [OF assms(1) [unfolded ctl]]
  have eqs: "p_channels w' = p_channels w" "srv_conn_loop w' = srv_conn_loop w" "server_rest w' = server_rest w"
    using assms(5) by (simp_all add: same_rest_def)
  have k: "c \<notin> set ds" "p_channels w (c_fd k) = Some c" "srv_conn_loop w c = Base_loop"
    using i(7) [OF assms(2)] assms(3) by (simp_all add: conn_fits_def)
  show ?thesis
    unfolding ctl
  proof (rule echo_invI [OF _ _ i(3,4)])
    show "serving a w'" using i(1) serving_rest [OF eqs(3)] by blast
    show "timers_fit tmax n (timer_mgr w')" using i(2) assms(7) by simp
    show "conns w' a = None" "conns w' u = None" using i(5,6) assms(2,4) by auto
    show "distinct (ds @ [c])" using i(8) k(1) by simp
    show "conns w' d \<noteq> None" if "d \<in> set (ds @ [c])" for d using i(9) [of d] that assms(4) by auto
    show "conn_fits n gs (ds @ [c]) w' d e" if "conns w' d = Some e" for d e
    proof (cases "d = c")
      case True
      then have "e = k'" using that assms(4) by simp
      then show ?thesis using True k assms(8-10) eqs by (simp add: conn_fits_def)
    next
      case False
      then have e: "conns w d = Some e" using that assms(4) by simp
      then have "p_channels w (c_fd e) = Some d" using i(7) by (simp add: conn_fits_def)
      then have "c_fd e \<noteq> c_fd k" using k(2) False by auto
      then show ?thesis
        using i(7) [OF e] False eqs assms(6,7) by (auto simp: conn_fits_def)
    qed
    show "\<exists>e. conns w' d = Some e \<and> c_fd e = fd \<and> c_state e = kConnected" if "srv_connections w' fd = Some d" for fd d
      using i(10) [of fd d] that assms(2,4,6) by (auto split: if_splits)
    show "d = a \<and> fd = lfd \<or> d = u \<or> (\<exists>e. conns w' d = Some e \<and> c_fd e = fd)" if "p_channels w' fd = Some d" for fd d
      using i(11) [of fd d] that eqs(1) assms(2,4,10) by (cases "d = c") auto
  qed
qed

text \<open>A connection is forgotten with its descriptor.\<close>

lemma inv_forgets:
  assumes "echo_inv ctl tmax n gs (c # ds) w" "conns w c = Some k" "conns w' = (conns w)(c := None)"
    and "server_rest w' = server_rest w" "srv_conn_loop w' = srv_conn_loop w" "srv_connections w' = srv_connections w"
    and "p_channels w' = (p_channels w)(c_fd k := None)" "timer_mgr w' = timer_mgr w"
  shows "echo_inv ctl tmax n gs ds w'"
proof -
  obtain a lfd u where ctl: "ctl = (a, lfd, u)" by (cases ctl)
  note i = echo_invD [OF assms(1) [unfolded ctl]]
  have k: "p_channels w (c_fd k) = Some c" "c_state k = kDisconnected"
    using i(7) [OF assms(2)] by (auto simp: conn_fits_def echo_shape_def split: if_splits)
  show ?thesis
    unfolding ctl
  proof (rule echo_invI [OF _ _ i(3,4)])
    show "serving a w'" using i(1) serving_rest [OF assms(4)] by blast
    show "timers_fit tmax n (timer_mgr w')" using i(2) assms(8) by simp
    show "conns w' a = None" "conns w' u = None" using i(5,6) assms(3) by auto
    show "distinct ds" using i(8) by simp
    show "conns w' d \<noteq> None" if "d \<in> set ds" for d using i(8) i(9) [of d] that assms(3) by auto
    show "conn_fits n gs ds w' d e" if "conns w' d = Some e" for d e
    proof -
      have e: "conns w d = Some e" "d \<noteq> c" using that assms(3) by (simp_all split: if_splits)
      then have "p_channels w (c_fd e) = Some d" using i(7) by (simp add: conn_fits_def)
      then have "c_fd e \<noteq> c_fd k" using k(1) e(2) by auto
      then show ?thesis
        using i(7) [OF e(1)] e(2) assms(5-8) by (auto simp: conn_fits_def)
    qed
    show "\<exists>e. conns w' d = Some e \<and> c_fd e = fd \<and> c_state e = kConnected" if "srv_connections w' fd = Some d" for fd d
      using i(10) [of fd d] that assms(2,3,6) k(2) by auto
    show "d = a \<and> fd = lfd \<or> d = u \<or> (\<exists>e. conns w' d = Some e \<and> c_fd e = fd)" if "p_channels w' fd = Some d" for fd d
      using i(11) [of fd d] that assms(2,3,7) by (auto split: if_splits)
  qed
qed

text \<open>A connection is entered.\<close>

lemma inv_enters:
  assumes "echo_inv ctl tmax n gs ds w" "conns w c = None" "c \<noteq> fst ctl" "c \<noteq> snd (snd ctl)" "conns w' = (conns w)(c \<mapsto> k)"
    and "server_rest w' = server_rest w" "srv_conn_loop w' = (srv_conn_loop w)(c := Base_loop)"
    and "srv_connections w' = (srv_connections w)(c_fd k \<mapsto> c)" "p_channels w (c_fd k) = None"
    and "p_channels w' = (p_channels w)(c_fd k \<mapsto> c)" "timers_fit tmax n (timer_mgr w')"
    and "\<And>i t. timers (timer_mgr w) i = Some t \<Longrightarrow> timers (timer_mgr w') i = Some t"
    and "echo_shape n c k" "c_state k = kConnected" "armed gs (timer_mgr w') c k"
  shows "echo_inv ctl tmax n gs ds w'"
proof -
  obtain a lfd u where ctl: "ctl = (a, lfd, u)" by (cases ctl)
  note i = echo_invD [OF assms(1) [unfolded ctl]]
  have new: "c \<notin> set ds" using i(9) assms(2) by blast
  show ?thesis
    unfolding ctl
  proof (rule echo_invI [OF _ assms(11) i(3,4) _ _ _ i(8)])
    show "serving a w'" using i(1) serving_rest [OF assms(6)] by blast
    show "conns w' a = None" "conns w' u = None" using i(5,6) assms(3-5) ctl by auto
    show "conns w' d \<noteq> None" if "d \<in> set ds" for d using i(9) [OF that] assms(5) by simp
    show "conn_fits n gs ds w' d e" if "conns w' d = Some e" for d e
    proof (cases "d = c")
      case True
      then have "e = k" using that assms(5) by simp
      then show ?thesis using True new assms(7,8,10,13-15) by (simp add: conn_fits_def)
    next
      case False
      then have e: "conns w d = Some e" using that assms(5) by simp
      then have "p_channels w (c_fd e) = Some d" using i(7) by (simp add: conn_fits_def)
      then have "c_fd e \<noteq> c_fd k" using assms(9) by auto
      then show ?thesis
        using i(7) [OF e] False assms(7,8,10,12) by (auto simp: conn_fits_def armed_def)
    qed
    show "\<exists>e. conns w' d = Some e \<and> c_fd e = fd \<and> c_state e = kConnected" if "srv_connections w' fd = Some d" for fd d
      using i(10) [of fd d] that assms(2,5,8,14) by (cases "fd = c_fd k") auto
    show "d = a \<and> fd = lfd \<or> d = u \<or> (\<exists>e. conns w' d = Some e \<and> c_fd e = fd)" if "p_channels w' fd = Some d" for fd d
      using i(11) [of fd d] that assms(2,5,10) by (cases "fd = c_fd k") auto
  qed
qed

section \<open>The timers\<close>

definition goodbye_timer :: "nat \<Rightarrow> nat \<Rightarrow> nat \<Rightarrow> loop_functor timer" where
  "goodbye_timer c i e = \<lparr>timer_id = i, expire_time = e, cb = F_say_goodbye c\<rparr>"

lemma goodbye_timer_parts [simp]: "cb (goodbye_timer c i e) = F_say_goodbye c" "expire_time (goodbye_timer c i e) = e"
  by (simp_all add: goodbye_timer_def)

lemma arm_fits:
  assumes "timers_fit tmax (Suc n) tm" "now \<le> tmax"
  shows "\<exists>i tm'. TimerWheel_RunAt tm (size_add now (nat kTimeOut)) (F_say_goodbye c) = Inr (i, tm') \<and>
     timers_fit tmax n tm' \<and> last_expire_time tm' = last_expire_time tm \<and> timers tm i = None \<and>
     timers tm' = (timers tm)(i \<mapsto> goodbye_timer c i (max (last_expire_time tm) (now + 5000)))"
proof -
  note t = assms(1) [unfolded timers_fit_def]
  define last where "last = last_expire_time tm"
  define d where "d = (if last < now + 5000 then to_int32 (int (now + 5000) - int last) else 0)"
  have now: "size_add now (nat kTimeOut) = now + 5000" using t assms(2) by (simp add: kTimeOut_def)
  have le: "now + 5000 - last \<le> tmax + 5000 - last" using assms(2) by simp
  then have "now + 5000 - last < 2 ^ 31" using t unfolding last_def by linarith
  then have d: "0 \<le> d" "nat d = now + 5000 - last"
    by (auto simp: d_def to_int32_def)
  then have "clock (hands tm) + nat d < 2 ^ 31" "last_expire_time tm + nat d < 2 ^ 64" "last_timer_id tm + 1 < 2 ^ 64"
    using t le assms(2) by (auto simp: last_def)
  from RunAfter_ok [OF _ d(1) this, of "F_say_goodbye c"] t obtain tm' where tm':
    "TimerWheel_RunAfter tm d (F_say_goodbye c) = Inr (last_timer_id tm + 1, tm')" "wheel_ok tm'"
    "timers tm' = (timers tm)(last_timer_id tm + 1 \<mapsto>
       \<lparr>timer_id = last_timer_id tm + 1, expire_time = last_expire_time tm + nat d, cb = F_say_goodbye c\<rparr>)"
    "last_timer_id tm' = last_timer_id tm + 1" "last_expire_time tm' = last_expire_time tm" "clock (hands tm') = clock (hands tm)"
    by metis
  have "timers tm (last_timer_id tm + 1) = None"
    using t unfolding wheel_ok_def by (metis add_le_same_cancel1 not_None_eq not_one_le_zero)
  moreover have "TimerWheel_RunAt tm (now + 5000) (F_say_goodbye c) = Inr (last_timer_id tm + 1, tm')"
    using tm'(1) by (simp only: TimerWheel_RunAt_def d_def last_def)
  moreover have "last_expire_time tm + nat d = max (last_expire_time tm) (now + 5000)" using d(2) by (simp add: last_def max_def)
  moreover have "timers_fit tmax n tm'" using t tm'(2-6) by (auto simp: timers_fit_def)
  ultimately show ?thesis unfolding now goodbye_timer_def using tm'(3,5) by auto
qed

lemma cancel_fits:
  assumes "timers_fit tmax n tm" "timers tm i = Some t"
  shows "\<exists>tm'. TimerWheel_RemoveTimer tm i = Inr tm' \<and> timers_fit tmax n tm' \<and> timers tm' = (timers tm)(i := None) \<and>
     last_expire_time tm' = last_expire_time tm"
proof -
  note t = assms(1) [unfolded timers_fit_def]
  from RemoveTimer_ok [OF _ assms(2)] t obtain tm' where "TimerWheel_RemoveTimer tm i = Inr tm'" "wheel_ok tm'"
    "timers tm' = (timers tm)(i := None)" "last_timer_id tm' = last_timer_id tm"
    "last_expire_time tm' = last_expire_time tm" "hands tm' = hands tm" by metis
  then show ?thesis using t by (auto simp: timers_fit_def)
qed

definition due_goodbye :: "nat \<Rightarrow> loop_functor wheel \<Rightarrow> nat \<Rightarrow> bool" where
  "due_goodbye now tm c \<longleftrightarrow> (\<exists>i t. timers tm i = Some t \<and> expire_time t \<le> now \<and> cb t = F_say_goodbye c)"

lemma step_fits:
  assumes "timers_fit tmax n tm" "last_expire_time tm \<le> now" "now \<le> tmax"
  shows "\<exists>cs tm'. TimerWheel_Step tm now = Inr (map F_say_goodbye cs, tm') \<and> timers_fit tmax n tm' \<and> last_expire_time tm' = now \<and>
     set cs = {c. due_goodbye now tm c} \<and>
     (\<forall>i t. timers tm i = Some t \<longrightarrow> expire_time t \<le> now \<or> timers tm' i = Some t)"
proof -
  note t = assms(1) [unfolded timers_fit_def]
  have room: "wheel_ok tm" "clock (hands tm) + (now - last_expire_time tm) < 2 ^ 31" using t assms(2,3) by (simp, linarith)
  obtain tm' ids where s:
    "TimerWheel_Step tm now = Inr (map (\<lambda>k. cb (the (timers tm k))) ids, tm')" "set ids = {k \<in> dom (timers tm). expires tm k \<le> now}"
    "wheel_ok tm'" "timers tm' = timers tm |` (- {k \<in> dom (timers tm). expires tm k \<le> now})"
    "last_expire_time tm' = now" "last_timer_id tm' = last_timer_id tm"
    "clock (hands tm') = clock (hands tm) + (now - last_expire_time tm)"
    by (rule Step_ok [OF room(1) assms(2) room(2)])
  have "\<exists>c. cb (the (timers tm k)) = F_say_goodbye c" if "k \<in> set ids" for k using that s(2) t by auto
  then obtain g where g: "\<And>k. k \<in> set ids \<Longrightarrow> cb (the (timers tm k)) = F_say_goodbye (g k)" by metis
  then have cs: "map (\<lambda>k. cb (the (timers tm k))) ids = map F_say_goodbye (map g ids)" by simp
  have sub: "timers tm' i = Some u \<Longrightarrow> timers tm i = Some u" for i u
    using s(4) by (auto simp: restrict_map_def split: if_splits)
  have "\<exists>c. cb u = F_say_goodbye c" if "timers tm' i = Some u" for i u using sub [OF that] t by blast
  moreover have "clock (hands tm') + (tmax + 5000 - last_expire_time tm') < 2 ^ 31" using t s(5,7) assms(2,3) by linarith
  ultimately have "timers_fit tmax n tm'" using t s(3,5,6) assms(3) by (simp add: timers_fit_def)
  moreover have "set (map g ids) = {c. due_goodbye now tm c}"
  proof (intro set_eqI iffI)
    fix c assume "c \<in> set (map g ids)"
    then obtain k where k: "k \<in> set ids" "c = g k" by auto
    then obtain t where "timers tm k = Some t" "expire_time t \<le> now" using s(2) by (auto simp: expires_def)
    then show "c \<in> {c. due_goodbye now tm c}" using g [OF k(1)] k(2) by (auto simp: due_goodbye_def)
  next
    fix c assume "c \<in> {c. due_goodbye now tm c}"
    then obtain k t where k: "timers tm k = Some t" "expire_time t \<le> now" "cb t = F_say_goodbye c"
      by (auto simp: due_goodbye_def)
    then have "k \<in> set ids" using s(2) by (auto simp: expires_def)
    then show "c \<in> set (map g ids)" using g [of k] k by auto
  qed
  moreover have "expire_time u \<le> now \<or> timers tm' i = Some u" if "timers tm i = Some u" for i u
    using that s(4) by (simp add: expires_def restrict_map_def)
  ultimately show ?thesis using s(1,5) unfolding cs by blast
qed

section \<open>Closing\<close>

lemma server_rest_parts [world_simps]:
  fixes w :: "(nat, 'z) server_world_scheme"
  shows "server_rest (set_conn c k w) = server_rest w" "server_rest (log_net e w) = server_rest w"
    "server_rest (count_call w) = server_rest w" "server_rest (set_events c ev k w) = server_rest w"
    "server_rest (QueueInLoop f w) = server_rest w" "server_rest (forget fd w) = server_rest w"
    "server_rest (w\<lparr>timer_mgr := tm\<rparr>) = server_rest w"
  by (rule rest_of_kept; simp add: world_simps)+ (simp add: server_rest_def InLoopThread_def)

lemma more_parts [world_simps]:
  fixes w :: "('x, 'z) server_world_scheme"
  shows "timer_mgr (set_conn c k w) = timer_mgr w" "timer_mgr (log_net e w) = timer_mgr w"
    "timer_mgr (count_call w) = timer_mgr w" "timer_mgr (set_events c ev k w) = timer_mgr w"
    "timer_mgr (QueueInLoop f w) = timer_mgr w" "timer_mgr (forget fd w) = timer_mgr w"
    "srv_conn_loop (QueueInLoop f w) = srv_conn_loop w" "srv_conn_loop (forget fd w) = srv_conn_loop w"
    "srv_cccb (forget fd w) = srv_cccb w"
  by (simp_all add: set_conn_def log_net_def count_call_def set_events_def QueueInLoop_def WakeUp_def Let_def forget_def
      Poller_UpdateChannel_def split: option.splits)

text \<open>A connection whose server tells the user of its end.\<close>

definition echo_served :: "nat \<Rightarrow> nat connection \<Rightarrow> (nat, 'z) server_world_scheme \<Rightarrow> bool" where
  "echo_served c k w \<longleftrightarrow>
     InLoopThread w \<and> conns w c = Some k \<and> c_ccb k \<and> srv_connections w (c_fd k) = Some c \<and> srv_conn_loop w c = Base_loop \<and>
     srv_cccb w \<and> p_channels w (ch_fd (c_channel k)) \<noteq> None"

lemma echo_forgets:
  assumes "InLoopThread w" "srv_connections w fd = Some c" "srv_conn_loop w c = Base_loop" "srv_cccb w"
    and "conns w c = Some k" "on_closed v = echo_OnConnectionClosed"
  shows "OnConnectionClosed os v fd w = Some (Inr (QueueInLoop (F_destroy c) (set_conn c (k\<lparr>c_ctx := None\<rparr>) (forget fd w))))"
proof -
  have "echo_OnConnectionClosed c (forget fd w) = Some (Inr (set_conn c (k\<lparr>c_ctx := None\<rparr>) (forget fd w)))"
    using assms(5)
    by (cases "c_ctx k") (simp_all add: echo_OnConnectionClosed_def with_conn_def clear_context_def world_simps set_conn_def
        fun_upd_idem)
  then show ?thesis
    using assms
    by (simp add: OnConnectionClosed_def RunInLoop_def run_functor_def HandleConnectionClose_def Let_def
        queue_in_loop_def run_in_loop_def run_user_functor_def forget_def [symmetric] world_simps)
qed

text \<open>The connection after a close with the events \<open>ev\<close> left.\<close>

definition echo_closed :: "32 word \<Rightarrow> nat connection \<Rightarrow> nat connection" where
  "echo_closed ev k = k\<lparr>c_channel := (c_channel k)\<lparr>ch_events := ev\<rparr>, c_state := kDisconnected, c_ctx := None\<rparr>"

lemma echo_ActiveClose:
  assumes "echo_served c k w" "c_state k = kConnected" "os_shutdown os (os_calls w)" "on_closed v = echo_OnConnectionClosed"
  defines "k' \<equiv> echo_closed (ch_events (c_channel k) AND NOT kReadEvents) k"
  shows "\<exists>w1. ActiveClose os (server_user_calls os v) c w = Some (Inr w1) \<and>
     conns w1 = (conns w)(c \<mapsto> k') \<and> functors w1 = functors w @ [F_destroy c] \<and>
     net_log w1 = net_log w @ [Shut_read (c_fd k)] \<and> srv_connections w1 = (srv_connections w)(c_fd k := None) \<and>
     same_rest w w1 \<and> timer_mgr w1 = timer_mgr w"
proof -
  note s = assms(1) [unfolded echo_served_def]
  define ev where "ev = ch_events (c_channel k) AND NOT kReadEvents"
  define w1 where "w1 = log_net (Shut_read (c_fd k)) (count_call (set_events c ev k w))"
  define k2 where "k2 = k\<lparr>c_channel := (c_channel k)\<lparr>ch_events := ev\<rparr>, c_state := kDisconnected\<rparr>"
  define w2 where "w2 = set_conn c k2 w1"
  have w1: "conns w1 c = Some (k\<lparr>c_channel := (c_channel k)\<lparr>ch_events := ev\<rparr>\<rparr>)"
    by (simp add: w1_def world_simps)
  have "ActiveClose os (server_user_calls os v) c w = OnConnectionClosed os v (c_fd k) w2"
    using s assms(2,3) w1
    by (simp add: ActiveClose_def with_conn_Some on_channel_events socketop_DisableReading_def set_events_parts
        w1_def [symmetric] ev_def [symmetric] call_user_def server_user_calls_def k2_def w2_def)
  also have "\<dots> = Some (Inr (QueueInLoop (F_destroy c) (set_conn c (k2\<lparr>c_ctx := None\<rparr>) (forget (c_fd k) w2))))"
    by (rule echo_forgets [OF _ _ _ _ _ assms(4)]) (use s in \<open>simp_all add: w2_def w1_def world_simps\<close>)
  finally show ?thesis
    using s registered_stays(2) [of w k c ev]
    by (auto simp: w2_def w1_def world_simps k2_def k'_def echo_closed_def ev_def same_rest_def)
qed

lemma echo_PassiveClose:
  assumes "echo_served c k w" "c_state k = kConnected" "on_closed v = echo_OnConnectionClosed"
  defines "k' \<equiv> echo_closed (ch_events (c_channel k) AND NOT kReadEvents AND NOT kWriteEvents) k"
  shows "\<exists>w1. PassiveClose os (server_user_calls os v) c w = Some (Inr w1) \<and>
     conns w1 = (conns w)(c \<mapsto> k') \<and> functors w1 = functors w @ [F_destroy c] \<and>
     net_log w1 = net_log w \<and> srv_connections w1 = (srv_connections w)(c_fd k := None) \<and>
     same_rest w w1 \<and> timer_mgr w1 = timer_mgr w \<and> os_calls w1 = os_calls w"
proof -
  note s = assms(1) [unfolded echo_served_def]
  define k1 where "k1 = k\<lparr>c_state := kDisconnected\<rparr>"
  define w1 where "w1 = set_conn c k1 w"
  define e1 where "e1 = ch_events (c_channel k1) AND NOT kReadEvents"
  define k2 where "k2 = k1\<lparr>c_channel := (c_channel k1)\<lparr>ch_events := e1\<rparr>\<rparr>"
  define w2 where "w2 = set_events c e1 k1 w1"
  define e2 where "e2 = ch_events (c_channel k2) AND NOT kWriteEvents"
  define k3 where "k3 = k2\<lparr>c_channel := (c_channel k2)\<lparr>ch_events := e2\<rparr>\<rparr>"
  define w3 where "w3 = set_events c e2 k2 w2"
  have w1: "InLoopThread w1" "conns w1 c = Some k1" using s by (simp_all add: w1_def world_simps)
  have w2: "InLoopThread w2" "conns w2 c = Some k2" using w1 by (simp_all add: w2_def k2_def world_simps)
  have p: "p_channels w2 = p_channels w" "p_channels w3 = p_channels w"
    using s registered_stays(2) [of w1 k1 c e1] registered_stays(2) [of w2 k2 c e2]
    by (simp_all add: w3_def w2_def w1_def world_simps k1_def k2_def)
  have "PassiveClose os (server_user_calls os v) c w = OnConnectionClosed os v (c_fd k) w3"
    using s assms(2) w1 w2
    by (simp add: PassiveClose_def with_conn_Some k1_def [symmetric] w1_def [symmetric] on_channel_events(2) [OF w1]
        on_channel_events(4) [OF w2] e1_def [symmetric] w2_def [symmetric] e2_def [symmetric] w3_def [symmetric]
        call_user_def server_user_calls_def)
  also have "\<dots> = Some (Inr (QueueInLoop (F_destroy c) (set_conn c (k3\<lparr>c_ctx := None\<rparr>) (forget (c_fd k) w3))))"
    by (rule echo_forgets [OF _ _ _ _ _ assms(3)]) (use s w2 in \<open>simp_all add: w3_def w2_def w1_def k3_def world_simps\<close>)
  finally have "PassiveClose os (server_user_calls os v) c w =
      Some (Inr (QueueInLoop (F_destroy c) (set_conn c (k3\<lparr>c_ctx := None\<rparr>) (forget (c_fd k) w3))))" .
  moreover have "k3\<lparr>c_ctx := None\<rparr> = k'"
    by (simp add: k3_def k2_def k1_def k'_def echo_closed_def e2_def e1_def and.assoc)
  ultimately show ?thesis
    using p by (simp add: w3_def w2_def w1_def world_simps same_rest_def)
qed

section \<open>The callbacks\<close>

lemma arm_timer_ok:
  fixes w :: "(nat, 'z) world_scheme"
  assumes "InLoopThread w" "timers_fit tmax (Suc n) (timer_mgr w)" "os_now os (os_calls w) \<le> tmax" "conns w c = Some k"
  shows "\<exists>i tm. arm_timer os c w = Some (Inr (set_conn c (k\<lparr>c_ctx := Some i\<rparr>) ((count_call w)\<lparr>timer_mgr := tm\<rparr>))) \<and>
     timers_fit tmax n tm \<and> last_expire_time tm = last_expire_time (timer_mgr w) \<and> timers (timer_mgr w) i = None \<and>
     timers tm = (timers (timer_mgr w))
       (i \<mapsto> goodbye_timer c i (max (last_expire_time (timer_mgr w)) (os_now os (os_calls w) + 5000)))"
proof -
  obtain i tm where "TimerWheel_RunAt (timer_mgr w) (size_add (os_now os (os_calls w)) (nat kTimeOut)) (F_say_goodbye c) = Inr (i, tm)"
    "timers_fit tmax n tm" "last_expire_time tm = last_expire_time (timer_mgr w)" "timers (timer_mgr w) i = None"
    "timers tm = (timers (timer_mgr w))
       (i \<mapsto> goodbye_timer c i (max (last_expire_time (timer_mgr w)) (os_now os (os_calls w) + 5000)))"
    using arm_fits [OF assms(2,3)] by blast
  then show ?thesis
    using assms(1,4)
    by (intro exI [of _ i] exI [of _ tm])
      (simp add: arm_timer_def EventLoop_RunAfter_def world_simps set_context_def with_conn_def kTimeOut_def,
        simp add: count_call_def)
qed

lemma echo_OnMessage_ok:
  fixes w :: "(nat, 'z) server_world_scheme"
  assumes "InLoopThread w" "conns w c = Some k" "buffer_ok (c_read_buf k)" "buffer_ok (c_write_buf k)"
    and "length (unread (c_read_buf k)) \<le> buffer_space (c_write_buf k)" "c_ctx k = Some i" "timers (timer_mgr w) i = Some t"
    and "timers_fit tmax (Suc n) (timer_mgr w)" "\<And>m. os_now os m \<le> tmax" "p_channels w (ch_fd (c_channel k)) \<noteq> None"
  shows "\<exists>w1 b j. echo_OnMessage os c w = Some (Inr w1) \<and>
     conns w1 = (conns w)(c \<mapsto> k\<lparr>c_read_buf := Buffer_Clear (c_read_buf k), c_write_buf := b,
       c_channel := (c_channel k)\<lparr>ch_events := ch_events (c_channel k) OR kWriteEvents\<rparr>, c_ctx := Some j\<rparr>) \<and>
     buffer_ok b \<and> unread b = unread (c_write_buf k) @ unread (c_read_buf k) \<and>
     buffer_space (c_write_buf k) - length (unread (c_read_buf k)) \<le> buffer_space b \<and>
     same_rest w w1 \<and> srv_connections w1 = srv_connections w \<and> functors w1 = functors w \<and> net_log w1 = net_log w \<and>
     os_calls w1 = os_calls w + 1 \<and>
     timers_fit tmax n (timer_mgr w1) \<and> last_expire_time (timer_mgr w1) = last_expire_time (timer_mgr w) \<and>
     ((timers (timer_mgr w))(i := None)) j = None \<and>
     timers (timer_mgr w1) = (timers (timer_mgr w))(i := None, j \<mapsto>
       goodbye_timer c j (max (last_expire_time (timer_mgr w)) (os_now os (os_calls w) + 5000)))"
proof -
  define k1 where "k1 = k\<lparr>c_read_buf := Buffer_Clear (c_read_buf k)\<rparr>"
  define w1 where "w1 = set_conn c k1 w"
  have w1: "InLoopThread w1" "conns w1 c = Some k1" "buffer_ok (c_write_buf k1)" "c_write_buf k1 = c_write_buf k"
    using assms(1,4) by (simp_all add: w1_def k1_def world_simps)
  obtain b where b: "TcpConnection_Write c (unread (c_read_buf k)) w1 =
      Some (Inr (set_events c (ch_events (c_channel k1) OR kWriteEvents) (k1\<lparr>c_write_buf := b\<rparr>) (set_conn c (k1\<lparr>c_write_buf := b\<rparr>) w1)))"
     "buffer_ok b" "unread b = unread (c_write_buf k) @ unread (c_read_buf k)"
     "buffer_space (c_write_buf k) - length (unread (c_read_buf k)) \<le> buffer_space b"
    using Write_appends [OF w1(1-3)] assms(5) w1(4) by metis
  define k2 where "k2 = k1\<lparr>c_write_buf := b\<rparr>"
  define ev where "ev = ch_events (c_channel k1) OR kWriteEvents"
  define k3 where "k3 = k2\<lparr>c_channel := (c_channel k2)\<lparr>ch_events := ev\<rparr>\<rparr>"
  define w3 where "w3 = set_events c ev k2 (set_conn c k2 w1)"
  have w3: "conns w3 = (conns w)(c \<mapsto> k3)" "InLoopThread w3" "timer_mgr w3 = timer_mgr w" "os_calls w3 = os_calls w"
    using w1(1) by (simp_all add: w3_def world_simps k3_def w1_def)
  have ch: "ch_fd (c_channel k2) = ch_fd (c_channel k)" by (simp add: k2_def k1_def)
  have rest: "same_rest w w3" "srv_connections w3 = srv_connections w" "functors w3 = functors w" "net_log w3 = net_log w"
    using registered_stays(2) [of "set_conn c k2 w1" k2 c ev] assms(10) ch
    by (simp_all add: w3_def world_simps w1_def same_rest_def)
  obtain tm where tm: "TimerWheel_RemoveTimer (timer_mgr w) i = Inr tm" "timers_fit tmax (Suc n) tm"
    "timers tm = (timers (timer_mgr w))(i := None)" "last_expire_time tm = last_expire_time (timer_mgr w)"
    using cancel_fits [OF assms(8,7)] by blast
  define w4 where "w4 = w3\<lparr>timer_mgr := tm\<rparr>"
  have w4: "InLoopThread w4" "timers_fit tmax (Suc n) (timer_mgr w4)" "conns w4 c = Some k3" "os_calls w4 = os_calls w"
    "last_expire_time (timer_mgr w4) = last_expire_time (timer_mgr w)"
    using w3 tm by (simp_all add: w4_def InLoopThread_def)
  from arm_timer_ok [OF w4(1,2) _ w4(3), of os] assms(9) obtain j tm5 where
    arm: "arm_timer os c w4 = Some (Inr (set_conn c (k3\<lparr>c_ctx := Some j\<rparr>) ((count_call w4)\<lparr>timer_mgr := tm5\<rparr>)))"
    and tm5: "timers_fit tmax n tm5" "last_expire_time tm5 = last_expire_time (timer_mgr w)" "timers (timer_mgr w4) j = None"
      "timers tm5 = (timers (timer_mgr w4))
         (j \<mapsto> goodbye_timer c j (max (last_expire_time (timer_mgr w)) (os_now os (os_calls w) + 5000)))"
    unfolding w4(4,5) by blast
  define w5 where "w5 = set_conn c (k3\<lparr>c_ctx := Some j\<rparr>) ((count_call w4)\<lparr>timer_mgr := tm5\<rparr>)"
  have "c_ctx k3 = Some i" using assms(6) by (simp add: k3_def k2_def k1_def)
  then have "echo_OnMessage os c w = Some (Inr w5)"
    using assms(2) ReadAndClear_ok [OF assms(3)] b(1) w3(1,2,3) tm(1) arm
    by (simp add: echo_OnMessage_def with_conn_def k1_def [symmetric] w1_def [symmetric] k2_def [symmetric] ev_def [symmetric]
        w3_def [symmetric] EventLoop_RemoveTimer_def w4_def [symmetric] w5_def)
  moreover have "conns w5 = (conns w)(c \<mapsto> k3\<lparr>c_ctx := Some j\<rparr>)" "same_rest w w5" "srv_connections w5 = srv_connections w"
    "functors w5 = functors w" "net_log w5 = net_log w" "timer_mgr w5 = tm5" "os_calls w5 = os_calls w + 1"
    using rest w3(1,4) by (simp_all add: w5_def w4_def world_simps same_rest_def)
  moreover have "timers (timer_mgr w4) = (timers (timer_mgr w))(i := None)" using tm(3) by (simp add: w4_def)
  ultimately show ?thesis
    using b(2-4) tm5
    by (intro exI [of _ w5] exI [of _ b] exI [of _ j]) (simp add: k3_def k2_def k1_def ev_def)
qed

section \<open>Saying goodbye\<close>

lemma goodbye_short: "length goodbye \<le> per_event"
  by (simp add: goodbye_def per_event_def)

lemma no_reading_left [simp]: "(ev AND NOT kReadEvents) AND kReadEvents = 0" "(ev AND NOT kReadEvents AND NOT kWriteEvents) AND kReadEvents = 0"
proof -
  show 1: "(e AND NOT kReadEvents) AND kReadEvents = 0" for e by (simp add: and.assoc)
  have "ev AND NOT kReadEvents AND NOT kWriteEvents = (ev AND NOT kWriteEvents) AND NOT kReadEvents"
    by (simp add: and.assoc and.commute and.left_commute)
  then show "(ev AND NOT kReadEvents AND NOT kWriteEvents) AND kReadEvents = 0" using 1 by simp
qed

lemma writing_set: "(ev OR kWriteEvents) AND kWriteEvents \<noteq> 0"
proof -
  have "(ev OR x) AND x = x" for x :: "32 word" by (rule bit_eqI) (auto simp: bit_and_iff bit_or_iff)
  then show ?thesis by (simp add: kWriteEvents_def EPOLLOUT_def)
qed

lemma still_writing: "((ev OR kWriteEvents) AND NOT kReadEvents) AND kWriteEvents \<noteq> 0"
proof -
  have "(ev OR x) AND x = x" for x :: "32 word" by (rule bit_eqI) (auto simp: bit_and_iff bit_or_iff)
  moreover have "NOT kReadEvents AND kWriteEvents = kWriteEvents"
    by (simp add: kWriteEvents_def kReadEvents_def EPOLLIN_def EPOLLOUT_def)
  ultimately have "((ev OR kWriteEvents) AND NOT kReadEvents) AND kWriteEvents = kWriteEvents" by (simp add: and.assoc)
  then show ?thesis by (simp add: kWriteEvents_def EPOLLOUT_def)
qed

lemma inv_no_longer:
  assumes "echo_inv ctl tmax n (insert c gs) ds w" "\<And>k. conns w c = Some k \<Longrightarrow> c_state k \<noteq> kConnected"
  shows "echo_inv ctl tmax n gs ds w"
proof -
  obtain a lfd u where ctl: "ctl = (a, lfd, u)" by (cases ctl)
  note i = echo_invD [OF assms(1) [unfolded ctl]]
  have "conn_fits n gs ds w d e" if "conns w d = Some e" for d e
    using i(7) [OF that] assms(2) that by (cases "d = c") (auto simp: conn_fits_def armed_def)
  then show ?thesis unfolding ctl by (intro echo_invI i)
qed

lemma inv_served:
  assumes "echo_inv ctl tmax n gs ds w" "conns w c = Some k"
  shows "echo_shape n c k" "InLoopThread w" "timers_fit tmax n (timer_mgr w)" "p_channels w (c_fd k) = Some c"
    "c_state k = kConnected \<Longrightarrow> echo_served c k w"
    "c_state k = kConnected \<Longrightarrow> armed gs (timer_mgr w) c k"
proof -
  obtain a lfd u where ctl: "ctl = (a, lfd, u)" by (cases ctl)
  note i = echo_invD [OF assms(1) [unfolded ctl]]
  note f = i(7) [OF assms(2)]
  show "echo_shape n c k" "InLoopThread w" "timers_fit tmax n (timer_mgr w)" "p_channels w (c_fd k) = Some c"
    "c_state k = kConnected \<Longrightarrow> armed gs (timer_mgr w) c k"
    using f i(1,2) by (simp_all add: conn_fits_def serving_def)
  show "echo_served c k w" if "c_state k = kConnected"
    using f i(1) that assms(2) by (simp add: conn_fits_def serving_def echo_served_def echo_shape_def)
qed

lemma SayGoodbye_open:
  assumes "echo_inv ctl tmax n (insert c gs) ds w" "conns w c = Some k" "c_state k = kConnected" "\<And>i. os_shutdown os i"
    and "on_closed v = echo_OnConnectionClosed"
  shows "\<exists>w1 k1. SayGoodbye os (server_user_calls os v) c w = Some (Inr w1) \<and> conns w1 = (conns w)(c \<mapsto> k1) \<and>
     c_state k1 = kDisconnected \<and> c_fd k1 = c_fd k \<and> unread (c_write_buf k1) = unread (c_write_buf k) @ goodbye \<and>
     is_writing (c_channel k1) \<and> ch_handling_events (c_channel k1) = ch_handling_events (c_channel k) \<and>
     functors w1 = functors w @ [F_destroy c] \<and> net_log w1 = net_log w @ [Shut_read (c_fd k)] \<and>
     p_channels w1 = p_channels w \<and> timer_mgr w1 = timer_mgr w \<and> echo_inv ctl tmax n gs (ds @ [c]) w1"
proof -
  note s = inv_served [OF assms(1,2)]
  note shape = s(1) [unfolded echo_shape_def]
  have space: "length goodbye \<le> buffer_space (c_write_buf k)" "n * per_event \<le> buffer_space (c_write_buf k) - length goodbye"
    using shape assms(3) goodbye_short by (simp, simp) linarith
  obtain b where b: "TcpConnection_Write c goodbye w =
      Some (Inr (set_events c (ch_events (c_channel k) OR kWriteEvents) (k\<lparr>c_write_buf := b\<rparr>) (set_conn c (k\<lparr>c_write_buf := b\<rparr>) w)))"
     "buffer_ok b" "unread b = unread (c_write_buf k) @ goodbye" "n * per_event \<le> buffer_space b"
    using Write_appends [OF s(2) assms(2) _ space(1)] shape space(2) order_trans by blast
  define ev where "ev = ch_events (c_channel k) OR kWriteEvents"
  define w1 where "w1 = set_events c ev (k\<lparr>c_write_buf := b\<rparr>) (set_conn c (k\<lparr>c_write_buf := b\<rparr>) w)"
  define k1 where "k1 = k\<lparr>c_write_buf := b, c_channel := (c_channel k)\<lparr>ch_events := ev\<rparr>\<rparr>"
  have p: "p_channels w1 = p_channels w"
    using registered_stays(2) [of "set_conn c (k\<lparr>c_write_buf := b\<rparr>) w" "k\<lparr>c_write_buf := b\<rparr>" c ev] s(4) shape
    by (simp add: w1_def world_simps)
  have w1: "echo_served c k1 w1" "c_state k1 = kConnected" "conns w1 = (conns w)(c \<mapsto> k1)"
    using s(5) [OF assms(3)] p assms(3) by (simp_all add: w1_def k1_def world_simps echo_served_def)
  define k2 where "k2 = echo_closed (ch_events (c_channel k1) AND NOT kReadEvents) k1"
  from echo_ActiveClose [OF w1(1,2) assms(4,5)] obtain w2 where w2:
     "ActiveClose os (server_user_calls os v) c w1 = Some (Inr w2)"
     "conns w2 = (conns w1)(c \<mapsto> k2)" "functors w2 = functors w1 @ [F_destroy c]"
     "net_log w2 = net_log w1 @ [Shut_read (c_fd k1)]" "srv_connections w2 = (srv_connections w1)(c_fd k1 := None)"
     "same_rest w1 w2" "timer_mgr w2 = timer_mgr w1" unfolding k2_def by blast
  have run: "SayGoodbye os (server_user_calls os v) c w = Some (Inr w2)"
    using b(1) w2(1) assms(2,3) by (simp add: SayGoodbye_def conn_closed_def w1_def ev_def)
  have k2: "conns w2 = (conns w)(c \<mapsto> k2)" "c_state k2 = kDisconnected" "c_fd k2 = c_fd k"
    using w1(3) w2(2) by (simp_all add: k2_def echo_closed_def k1_def)
  have same: "same_rest w w2" "srv_connections w2 = (srv_connections w)(c_fd k := None)" "timer_mgr w2 = timer_mgr w"
    using w2(5-7) p by (simp_all add: same_rest_def w1_def world_simps k1_def)
  have "echo_shape n c k2"
    using shape b(2,4) by (simp add: echo_shape_def k2_def echo_closed_def k1_def is_reading_def)
  from inv_closes [OF assms(1-3) k2(1) same this k2(2,3)] have "echo_inv ctl tmax n (insert c gs) (ds @ [c]) w2" .
  then have "echo_inv ctl tmax n gs (ds @ [c]) w2" by (rule inv_no_longer) (simp add: k2)
  moreover have "is_writing (c_channel k2)"
    using still_writing by (simp add: k2_def echo_closed_def k1_def is_writing_def ev_def)
  ultimately show ?thesis
    using run k2 w2(3,4) same b(3) p
    by (intro exI [of _ w2] exI [of _ k2]) (simp add: w1_def world_simps k2_def echo_closed_def k1_def same_rest_def)
qed

lemma SayGoodbye_gone:
  assumes "\<And>k. conns w c = Some k \<Longrightarrow> c_state k = kDisconnected"
  shows "SayGoodbye os u c w = Some (Inr w)"
  using assms by (simp add: SayGoodbye_def conn_closed_def split: option.split)

section \<open>The events of a connection\<close>

text \<open>A network without the failures that end the process (the other theories show what those do): reads
  that were announced bring at most \<open>per_event\<close> bytes, the end of the stream or an error; writes
  take some bytes or would block; the calls with a fatal check succeed.\<close>

definition kind_net :: "nat \<Rightarrow> os_net \<Rightarrow> bool" where
  "kind_net tmax os \<longleftrightarrow>
     (\<forall>i. os_shutdown os i \<and> os_now os i \<le> tmax) \<and>
     (\<forall>i fd. os_fcntl os i fd \<and> os_getsockname os i fd \<noteq> None \<and> os_getpeername os i fd \<noteq> None) \<and> os_takes os \<and>
     (\<forall>i n. case os_readv os i n of Inr data \<Rightarrow> length data \<le> n \<and> length data \<le> per_event | Inl e \<Rightarrow> \<not> would_block e)"

lemma kind_net_reads:
  "kind_net tmax os \<Longrightarrow> os_readv os i n = Inr data \<Longrightarrow> length data \<le> n \<and> length data \<le> per_event"
  "kind_net tmax os \<Longrightarrow> os_readv os i n = Inl e \<Longrightarrow> \<not> would_block e"
  by (auto simp: kind_net_def split: sum.splits)

text \<open>What handling an event of one connection leaves: the others, the registrations, the acceptor.\<close>

definition handled ::
  "nat \<times> int \<times> nat \<Rightarrow> nat \<Rightarrow> nat \<Rightarrow> nat \<Rightarrow> (nat, 'z) server_world_scheme \<Rightarrow> nat connection \<Rightarrow> (nat, 'z) server_world_scheme run \<Rightarrow> bool" where
  "handled ctl tmax n c w k r \<longleftrightarrow>
     (\<exists>w1 k1 ds. r = Some (Inr w1) \<and> conns w1 = (conns w)(c \<mapsto> k1) \<and> p_channels w1 = p_channels w \<and>
        functors w1 = map F_destroy ds \<and> echo_inv ctl tmax n {} ds w1 \<and> os_calls w \<le> os_calls w1 \<and>
        last_expire_time (timer_mgr w1) = last_expire_time (timer_mgr w) \<and>
        ch_revents (c_channel k1) = ch_revents (c_channel k))"

lemma WriteToPeer_handled:
  assumes "echo_inv ctl tmax n {} ds w" "functors w = map F_destroy ds" "conns w c = Some k" "kind_net tmax os"
  shows "handled ctl tmax n c w k (WriteToPeer os u c w)"
    "\<And>w1. WriteToPeer os u c w = Some (Inr w1) \<Longrightarrow> \<exists>k1. conns w1 c = Some k1 \<and> c_state k1 = c_state k"
proof -
  note s = inv_served [OF assms(1,3)]
  note shape = s(1) [unfolded echo_shape_def]
  have "os_takes os" using assms(4) by (simp add: kind_net_def)
  from WriteToPeer_some [OF this s(2) assms(3), of u] shape obtain b m chunks w1 where
    w1: "w1 = w\<lparr>conns := (conns w)(c \<mapsto> k\<lparr>c_write_buf := b\<rparr>), os_calls := m, net_log := net_log w @ map (Wrote (c_fd k)) chunks\<rparr>"
    and run: "WriteToPeer os u c w = Some (Inr
       (if unread b = [] then set_events c (ch_events (c_channel k) AND NOT kWriteEvents) (k\<lparr>c_write_buf := b\<rparr>) w1 else w1))"
    and b: "buffer_ok b" "internal_buf b = internal_buf (c_write_buf k)" "os_calls w \<le> m" by blast
  define ev where "ev = (if unread b = [] then ch_events (c_channel k) AND NOT kWriteEvents else ch_events (c_channel k))"
  define k1 where "k1 = k\<lparr>c_write_buf := b, c_channel := (c_channel k)\<lparr>ch_events := ev\<rparr>\<rparr>"
  define w2 where "w2 = (if unread b = [] then set_events c ev (k\<lparr>c_write_buf := b\<rparr>) w1 else w1)"
  have space: "buffer_space b = buffer_space (c_write_buf k)" using b(2) by (simp add: buffer_space_def)
  have w1p: "p_channels w1 = p_channels w" "server_rest w1 = server_rest w" "srv_conn_loop w1 = srv_conn_loop w"
    "srv_connections w1 = srv_connections w" "functors w1 = functors w" "timer_mgr w1 = timer_mgr w"
    "conns w1 = (conns w)(c \<mapsto> k\<lparr>c_write_buf := b\<rparr>)" "os_calls w \<le> os_calls w1"
    using b(3) by (simp_all add: w1 server_rest_def InLoopThread_def)
  have w2: "conns w2 = (conns w)(c \<mapsto> k1)" "same_rest w w2" "srv_connections w2 = srv_connections w" "functors w2 = functors w"
    "timer_mgr w2 = timer_mgr w" "os_calls w \<le> os_calls w2"
    using registered_stays(2) [of w1 "k\<lparr>c_write_buf := b\<rparr>" c ev] s(4) shape w1p
    by (auto simp: w2_def world_simps k1_def ev_def same_rest_def)
  have "(x AND NOT kWriteEvents) AND kReadEvents = x AND kReadEvents" for x
    by (simp add: and.assoc kWriteEvents_def kReadEvents_def EPOLLIN_def EPOLLOUT_def)
  then have "echo_shape n c k1"
    using shape b(1) space by (auto simp: echo_shape_def k1_def ev_def is_reading_def)
  then have "echo_inv ctl tmax n {} ds w2"
    by (intro inv_changes [OF assms(1,3) w2(1-3)])
      (use s(3,6) w2(5) in \<open>simp_all add: k1_def armed_def\<close>)
  moreover have run2: "WriteToPeer os u c w = Some (Inr w2)" using run by (auto simp: w2_def ev_def)
  ultimately show "handled ctl tmax n c w k (WriteToPeer os u c w)"
    unfolding handled_def using w2 assms(2)
    by (intro exI [of _ w2] exI [of _ k1] exI [of _ ds]) (simp add: same_rest_def k1_def)
  show "\<exists>k1. conns w1 c = Some k1 \<and> c_state k1 = c_state k" if "WriteToPeer os u c w = Some (Inr w1)" for w1
    using that run2 w2(1) by (simp add: k1_def)
qed

lemma close_handled:
  assumes "echo_inv ctl tmax n {} ds w" "functors w = map F_destroy ds" "conns w c = Some k" "c_state k = kConnected"
    and "on_closed v = echo_OnConnectionClosed"
  shows "handled ctl tmax n c w k (PassiveClose os (server_user_calls os v) c (count_call w))"
proof -
  note s = inv_served [OF assms(1,3)]
  note shape = s(1) [unfolded echo_shape_def]
  define k1 where "k1 = echo_closed (ch_events (c_channel k) AND NOT kReadEvents AND NOT kWriteEvents) k"
  have "echo_served c k (count_call w)" using s(5) [OF assms(4)] by (simp add: echo_served_def world_simps)
  from echo_PassiveClose [OF this assms(4,5)] obtain w1 where w1:
    "PassiveClose os (server_user_calls os v) c (count_call w) = Some (Inr w1)" "conns w1 = (conns w)(c \<mapsto> k1)"
    "functors w1 = functors w @ [F_destroy c]" "srv_connections w1 = (srv_connections w)(c_fd k := None)"
    "same_rest w w1" "timer_mgr w1 = timer_mgr w" "os_calls w1 = os_calls w + 1"
    unfolding k1_def by (auto simp: world_simps same_rest_def)
  have "echo_shape n c k1" using shape by (simp add: echo_shape_def k1_def echo_closed_def is_reading_def)
  then have "echo_inv ctl tmax n {} (ds @ [c]) w1"
    by (intro inv_closes [OF assms(1,3,4) w1(2,5,4,6)]) (simp_all add: k1_def echo_closed_def)
  then show ?thesis
    unfolding handled_def using w1 assms(2)
    by (intro exI [of _ w1] exI [of _ k1] exI [of _ "ds @ [c]"]) (simp add: same_rest_def k1_def echo_closed_def)
qed

text \<open>What was read is put behind what waits to be written, and the timer of the connection is renewed.\<close>

lemma ReadFromPeer_echoes:
  fixes w :: "(nat, 'z) server_world_scheme"
  assumes "echo_inv ctl tmax (Suc n) {} ds w" "conns w c = Some k" "c_state k = kConnected" "kind_net tmax os"
    and "on_read v = echo_OnMessage os" "data \<noteq> []"
    and "os_readv os (os_calls w) (length (internal_buf (c_read_buf k)) - write_index (c_read_buf k) + local_buf_len) = Inr data"
  shows "\<exists>w1 k1 i j. ReadFromPeer os (server_user_calls os v) c w = Some (Inr w1) \<and> conns w1 = (conns w)(c \<mapsto> k1) \<and>
     echo_inv ctl tmax n {} ds w1 \<and> same_rest w w1 \<and> functors w1 = functors w \<and> net_log w1 = net_log w \<and>
     os_calls w \<le> os_calls w1 \<and> last_expire_time (timer_mgr w1) = last_expire_time (timer_mgr w) \<and>
     ch_revents (c_channel k1) = ch_revents (c_channel k) \<and> c_state k1 = kConnected \<and> c_fd k1 = c_fd k \<and>
     unread (c_write_buf k1) = unread (c_write_buf k) @ data \<and> is_writing (c_channel k1) \<and>
     c_ctx k = Some i \<and> c_ctx k1 = Some j \<and> timers (timer_mgr w1) = (timers (timer_mgr w))(i := None, j \<mapsto>
       goodbye_timer c j (max (last_expire_time (timer_mgr w)) (os_now os (os_calls w + 1) + 5000)))"
proof -
  note s = inv_served [OF assms(1,2)]
  note shape = s(1) [unfolded echo_shape_def]
  have inv: "echo_inv ctl tmax n {} ds w" by (rule echo_inv_mono [OF assms(1)]) simp
  have len: "length data \<le> length (internal_buf (c_read_buf k)) - write_index (c_read_buf k) + local_buf_len" "length data \<le> per_event"
    using kind_net_reads(1) [OF assms(4,7)] by simp_all
  have "local_buf_len \<le> per_event" by (simp add: local_buf_len_def per_event_def)
  then have "local_buf_len \<le> buffer_space (c_read_buf k)" using shape by simp
  from ReadFromPeer_data [OF s(2) assms(2) _ this assms(7,6) len(1), of "server_user_calls os v"] shape
  obtain b where b: "ReadFromPeer os (server_user_calls os v) c w =
      echo_OnMessage os c (set_conn c (k\<lparr>c_read_buf := b\<rparr>) (count_call w))" "buffer_ok b"
    "unread b = data" "buffer_space (c_read_buf k) - length data \<le> buffer_space b"
    by (auto simp: call_user_def server_user_calls_def assms(5))
  define k0 where "k0 = k\<lparr>c_read_buf := b\<rparr>"
  define w0 where "w0 = set_conn c k0 (count_call w)"
  obtain i t where it: "c_ctx k = Some i" "timers (timer_mgr w) i = Some t" "cb t = F_say_goodbye c"
    using s(6) [OF assms(3)] by (auto simp: armed_def)
  have w0: "InLoopThread w0" "conns w0 c = Some k0" "timer_mgr w0 = timer_mgr w" "p_channels w0 (ch_fd (c_channel k0)) \<noteq> None"
    "os_calls w0 = os_calls w + 1"
    using s(2,4) shape by (simp_all add: w0_def k0_def world_simps)
  have k0: "buffer_ok (c_read_buf k0)" "buffer_ok (c_write_buf k0)" "c_ctx k0 = Some i"
    "length (unread (c_read_buf k0)) \<le> buffer_space (c_write_buf k0)"
    using b(2,3) shape it(1) len(2) assms(3) by (simp_all add: k0_def)
  have now: "os_now os m \<le> tmax" for m using assms(4) by (simp add: kind_net_def)
  from echo_OnMessage_ok [OF w0(1,2) k0(1,2,4,3) _ _ now w0(4), unfolded w0(3,5), OF it(2) s(3)] obtain w1 b1 j where
    run: "echo_OnMessage os c w0 = Some (Inr w1)"
    and conns: "conns w1 = (conns w0)(c \<mapsto> k0\<lparr>c_read_buf := Buffer_Clear (c_read_buf k0), c_write_buf := b1,
     c_channel := (c_channel k0)\<lparr>ch_events := ch_events (c_channel k0) OR kWriteEvents\<rparr>, c_ctx := Some j\<rparr>)"
    and b0: "buffer_ok b1" "unread b1 = unread (c_write_buf k0) @ unread (c_read_buf k0)"
      "buffer_space (c_write_buf k0) - length (unread (c_read_buf k0)) \<le> buffer_space b1"
    and same: "same_rest w0 w1" "srv_connections w1 = srv_connections w0" "functors w1 = functors w0" "net_log w1 = net_log w0"
    and last: "last_expire_time (timer_mgr w1) = last_expire_time (timer_mgr w)" "os_calls w1 = os_calls w + 1 + 1"
    and tm: "timers_fit tmax n (timer_mgr w1)" "((timers (timer_mgr w))(i := None)) j = None"
      "timers (timer_mgr w1) = (timers (timer_mgr w))(i := None, j \<mapsto>
         goodbye_timer c j (max (last_expire_time (timer_mgr w)) (os_now os (os_calls w + 1) + 5000)))"
    by blast
  have b1: "buffer_ok b1" "unread b1 = unread (c_write_buf k) @ data" "buffer_space (c_write_buf k) - length data \<le> buffer_space b1"
    using b0 b(3) by (simp_all add: k0_def)
  define k1 where "k1 = k0\<lparr>c_read_buf := Buffer_Clear (c_read_buf k0), c_write_buf := b1,
     c_channel := (c_channel k0)\<lparr>ch_events := ch_events (c_channel k0) OR kWriteEvents\<rparr>, c_ctx := Some j\<rparr>"
  have w1: "conns w1 = (conns w)(c \<mapsto> k1)" "same_rest w w1" "srv_connections w1 = srv_connections w" "functors w1 = functors w"
    "net_log w1 = net_log w"
    using conns same by (simp_all add: k1_def w0_def world_simps same_rest_def)
  have "Suc n * per_event \<le> buffer_space (c_read_buf k) - length data" "Suc n * per_event \<le> buffer_space (c_write_buf k) - length data"
    using shape len(2) assms(3) by (simp_all, linarith+)
  then have "echo_shape n c k1"
    using shape b b1 k0(1) Clear_ok [OF k0(1)] assms(3) ByteSize_Clear [of b] unread_Clear [of b]
    by (simp add: echo_shape_def k1_def k0_def buffer_space_def ByteSize_def)
  moreover have "timers (timer_mgr w1) d = Some u" if "e \<noteq> c" "timers (timer_mgr w) d = Some u" "cb u = F_say_goodbye e" for d u e
    using tm(2,3) that it by (cases "d = i"; cases "d = j") auto
  ultimately have "echo_inv ctl tmax n {} ds w1"
    by (intro inv_changes [OF inv assms(2) w1(1-3)]) (use tm(1,3) in \<open>simp_all add: k1_def k0_def armed_def\<close>)
  moreover have "is_writing (c_channel k1)"
    using writing_set [of "ch_events (c_channel k)"] by (simp add: k1_def k0_def is_writing_def)
  moreover have "ReadFromPeer os (server_user_calls os v) c w = Some (Inr w1)" using b(1) run by (simp add: w0_def k0_def)
  ultimately show ?thesis
    using w1 last tm(3) it(1) w0(5) b1(2) assms(3)
    by (intro exI [of _ w1] exI [of _ k1] exI [of _ i] exI [of _ j]) (simp add: k1_def k0_def)
qed

lemma ReadFromPeer_handled:
  fixes w :: "(nat, 'z) server_world_scheme"
  assumes "echo_inv ctl tmax (Suc n) {} ds w" "functors w = map F_destroy ds" "conns w c = Some k" "c_state k = kConnected"
    and "kind_net tmax os" "on_closed v = echo_OnConnectionClosed" "on_read v = echo_OnMessage os"
  shows "handled ctl tmax n c w k (ReadFromPeer os (server_user_calls os v) c w)"
proof -
  note s = inv_served [OF assms(1,3)]
  note shape = s(1) [unfolded echo_shape_def]
  define room where "room = length (internal_buf (c_read_buf k)) - write_index (c_read_buf k)"
  define input where "input = os_readv os (os_calls w) (room + local_buf_len)"
  have can: "BytesCanWrite (c_read_buf k) = Inr room" using shape by (simp add: BytesCanWrite_def buffer_ok_def room_def)
  show ?thesis
  proof (cases "input = Inr [] \<or> (\<exists>e. input = Inl e)")
    case True
    then have "ReadFromPeer os (server_user_calls os v) c w = PassiveClose os (server_user_calls os v) c (count_call w)"
      using kind_net_reads(2) [OF assms(5)] s(2) assms(3) can by (auto simp: ReadFromPeer_def with_conn_Some Let_def input_def)
    moreover have "echo_inv ctl tmax n {} ds w" by (rule echo_inv_mono [OF assms(1)]) simp
    ultimately show ?thesis using close_handled [OF _ assms(2-4,6)] by simp
  next
    case False
    then obtain data where "input = Inr data" "data \<noteq> []" by (cases input) auto
    then show ?thesis
      using ReadFromPeer_echoes [OF assms(1,3-5,7)] assms(2) unfolding handled_def input_def room_def same_rest_def by metis
  qed
qed

text \<open>The flags of a channel while its events are handled.\<close>

definition flagged :: "32 word \<Rightarrow> bool \<Rightarrow> 'x connection \<Rightarrow> 'x connection" where
  "flagged ev h k = k\<lparr>c_channel := (c_channel k)\<lparr>ch_revents := ev, ch_handling_events := h\<rparr>\<rparr>"

lemma flagged_same:
  "ch_revents (c_channel k) = ev \<Longrightarrow> k\<lparr>c_channel := (c_channel k)\<lparr>ch_handling_events := h\<rparr>\<rparr> = flagged ev h k"
  by (cases k; cases "c_channel k") (auto simp: flagged_def)

definition resting :: "('x, 'z) world_scheme \<Rightarrow> bool" where
  "resting w \<longleftrightarrow> (\<forall>c k. conns w c = Some k \<longrightarrow> \<not> ch_handling_events (c_channel k))"

lemma inv_flagged:
  assumes "echo_inv ctl tmax n gs ds w" "conns w c = Some k"
  shows "echo_inv ctl tmax n gs ds (set_conn c (flagged ev h k) w)"
proof -
  note s = inv_served [OF assms]
  show ?thesis
    by (rule inv_changes [OF assms, where k' = "flagged ev h k"])
      (use s in \<open>simp_all add: world_simps same_rest_def flagged_def echo_shape_def armed_def is_reading_def\<close>)
qed

definition settled ::
  "nat \<times> int \<times> nat \<Rightarrow> nat \<Rightarrow> nat \<Rightarrow> (nat, 'z) server_world_scheme \<Rightarrow> bool" where
  "settled ctl tmax n w \<longleftrightarrow> resting w \<and> (\<exists>ds. functors w = map F_destroy ds \<and> echo_inv ctl tmax n {} ds w)"

lemma handle_connection:
  fixes w :: "(nat, 'z) server_world_scheme"
  assumes "settled ctl tmax (Suc n) w" "conns w c = Some k" "kind_net tmax os"
    and "ev AND (EPOLLIN OR EPOLLRDNORM) \<noteq> 0 \<longrightarrow> is_reading (c_channel k)"
  defines "u \<equiv> server_user_calls os (echo_calls os)"
  shows "\<exists>w1 k1. handle_channel os u (c, ev) w = Some (Inr w1) \<and> settled ctl tmax n w1 \<and> conns w1 = (conns w)(c \<mapsto> k1) \<and>
     p_channels w1 = p_channels w \<and> last_expire_time (timer_mgr w1) = last_expire_time (timer_mgr w) \<and>
     os_calls w \<le> os_calls w1"
proof -
  obtain ds where ds: "functors w = map F_destroy ds" "echo_inv ctl tmax (Suc n) {} ds w"
    using assms(1) by (auto simp: settled_def)
  note shape = inv_served(1) [OF ds(2) assms(2), unfolded echo_shape_def]
  define k0 where "k0 = flagged ev True k"
  define w0 where "w0 = set_conn c k0 w"
  have w0: "echo_inv ctl tmax (Suc n) {} ds w0" "functors w0 = map F_destroy ds" "conns w0 c = Some k0"
    unfolding w0_def k0_def by (rule inv_flagged [OF ds(2) assms(2)]) (simp_all add: world_simps ds(1))
  have k0: "ch_revents (c_channel k0) = ev" "c_state k0 = c_state k" "ch_wcb (c_channel k0) = Some On_write_to_peer"
    "ch_ecb (c_channel k0) = Some On_handle_error"
    using shape by (simp_all add: k0_def flagged_def)
  let ?out = "if ev AND (EPOLLOUT OR EPOLLWRNORM) \<noteq> 0 then WriteToPeer os u c w0 else Some (Inr w0)"
  have "\<exists>w1 k1 ds1. ?out = Some (Inr w1) \<and> conns w1 = (conns w0)(c \<mapsto> k1) \<and> p_channels w1 = p_channels w0 \<and>
        functors w1 = map F_destroy ds1 \<and> echo_inv ctl tmax (Suc n) {} ds1 w1 \<and> os_calls w0 \<le> os_calls w1 \<and>
        last_expire_time (timer_mgr w1) = last_expire_time (timer_mgr w0) \<and>
        ch_revents (c_channel k1) = ev \<and> c_state k1 = c_state k"
  proof (cases "ev AND (EPOLLOUT OR EPOLLWRNORM) = 0")
    case True
    then show ?thesis using w0 k0 by (intro exI [of _ w0] exI [of _ k0] exI [of _ ds]) (simp add: fun_upd_idem)
  next
    case False
    then show ?thesis
      using WriteToPeer_handled [OF w0 assms(3), of u] k0(1,2) unfolding handled_def by fastforce
  qed
  then obtain w1 k1 ds1 where w1: "?out = Some (Inr w1)" "conns w1 = (conns w0)(c \<mapsto> k1)" "p_channels w1 = p_channels w0"
    "functors w1 = map F_destroy ds1" "echo_inv ctl tmax (Suc n) {} ds1 w1"
    "last_expire_time (timer_mgr w1) = last_expire_time (timer_mgr w0)" "ch_revents (c_channel k1) = ev" "c_state k1 = c_state k"
    "os_calls w0 \<le> os_calls w1"
    by blast
  have k1: "conns w1 c = Some k1" using w1(2) by simp
  note shape1 = inv_served(1) [OF w1(5) k1, unfolded echo_shape_def]
  let ?in = "if ev AND (EPOLLIN OR EPOLLRDNORM) \<noteq> 0 then ReadFromPeer os u c w1 else Some (Inr w1)"
  have "handled ctl tmax n c w1 k1 ?in"
  proof (cases "ev AND (EPOLLIN OR EPOLLRDNORM) = 0")
    case True
    have "echo_inv ctl tmax n {} ds1 w1" by (rule echo_inv_mono [OF w1(5)]) simp
    then show ?thesis
      using True w1(4) k1 unfolding handled_def
      by (intro exI [of _ w1] exI [of _ k1] exI [of _ ds1]) (simp add: fun_upd_idem)
  next
    case False
    then have "c_state k1 = kConnected" using assms(4) shape w1(8) by auto
    then show ?thesis
      using False ReadFromPeer_handled [OF w1(5,4) k1 _ assms(3)] by (simp add: u_def echo_calls_def echo_close_calls_def)
  qed
  then obtain w2 k2 ds2 where w2: "?in = Some (Inr w2)" "conns w2 = (conns w1)(c \<mapsto> k2)" "p_channels w2 = p_channels w1"
    "functors w2 = map F_destroy ds2" "echo_inv ctl tmax n {} ds2 w2"
    "last_expire_time (timer_mgr w2) = last_expire_time (timer_mgr w1)" "ch_revents (c_channel k2) = ch_revents (c_channel k1)"
    "os_calls w1 \<le> os_calls w2"
    unfolding handled_def by blast
  have k2: "conns w2 c = Some k2" using w2(2) by simp
  define k3 where "k3 = flagged ev False k2"
  define w3 where "w3 = set_conn c k3 w2"
  define get where "get s = c_channel (the (conns s c))" for s :: "(nat, 'z) server_world_scheme"
  define upd where "upd g s = (case conns s c of None \<Rightarrow> s | Some k \<Rightarrow> set_conn c (k\<lparr>c_channel := g (c_channel k)\<rparr>) s)"
    for g and s :: "(nat, 'z) server_world_scheme"
  have rev2: "ch_revents (c_channel k2) = ev" using w1(7) w2(7) by simp
  have parts: "get w0 = c_channel k0" "get w1 = c_channel k1"
    using w0(3) k1 by (simp_all add: get_def)
  have start: "upd (\<lambda>ch. ch\<lparr>ch_handling_events := True\<rparr>) (set_conn c (k\<lparr>c_channel := (c_channel k)\<lparr>ch_revents := ev\<rparr>\<rparr>) w) = w0"
    by (simp add: upd_def w0_def k0_def flagged_def set_conn_def)
  have stop: "upd (\<lambda>ch. ch\<lparr>ch_handling_events := False\<rparr>) w2 = w3"
    by (simp only: upd_def k2 option.case flagged_same [OF rev2] w3_def k3_def)
  have err: "(if ch_revents (get w0) AND (EPOLLERR OR EPOLLHUP) \<noteq> 0
      then call_if_set (run_callback os u c) (ch_ecb (get w0)) w0 else Some (Inr w0)) = Some (Inr w0)"
    using k0(4) parts(1) by (simp add: call_if_set_def run_callback_def HandleError_def)
  have out: "(if ch_revents (get w0) AND (EPOLLOUT OR EPOLLWRNORM) \<noteq> 0
      then call_if_set (run_callback os u c) (ch_wcb (get w0)) w0 else Some (Inr w0)) = Some (Inr w1)"
    using k0(1,3) parts(1) w1(1) by (simp add: call_if_set_def run_callback_def split: if_splits)
  have "ch_rcb (c_channel k1) = Some On_read_from_peer" using shape1 by simp
  then have inn: "(if ch_revents (get w1) AND (EPOLLIN OR EPOLLRDNORM) \<noteq> 0
      then call_if_set (run_callback os u c) (ch_rcb (get w1)) w1 else Some (Inr w1)) = Some (Inr w2)"
    using w1(7) parts(2) w2(1) by (simp add: call_if_set_def run_callback_def split: if_splits)
  have "HandleEvents get upd (run_callback os u c) (set_conn c (k\<lparr>c_channel := (c_channel k)\<lparr>ch_revents := ev\<rparr>\<rparr>) w) = Some (Inr w3)"
    by (simp only: HandleEvents_def Let_def start stop err out inn then_run_simps)
  moreover have "handle_channel os u (c, ev) w =
      HandleEvents get upd (run_callback os u c) (set_conn c (k\<lparr>c_channel := (c_channel k)\<lparr>ch_revents := ev\<rparr>\<rparr>) w)"
  proof -
    have "get = (\<lambda>s. c_channel (the (conns s c)))"
      "upd = (\<lambda>g s. case conns s c of None \<Rightarrow> s | Some k \<Rightarrow> set_conn c (k\<lparr>c_channel := g (c_channel k)\<rparr>) s)"
      by (simp_all add: get_def upd_def fun_eq_iff)
    then show ?thesis using assms(2) by (simp add: handle_channel_def with_conn_Some)
  qed
  ultimately have "handle_channel os u (c, ev) w = Some (Inr w3)" by simp
  moreover have "echo_inv ctl tmax n {} ds2 w3" unfolding w3_def k3_def by (rule inv_flagged [OF w2(5) k2])
  moreover have "conns w3 = (conns w)(c \<mapsto> k3)" using w1(2) w2(2) by (simp add: w3_def w0_def world_simps)
  moreover have "resting w3"
    using assms(1) \<open>conns w3 = (conns w)(c \<mapsto> k3)\<close> by (auto simp: settled_def resting_def k3_def flagged_def)
  ultimately show ?thesis
    using w1(3,6,9) w2(3,4,6,8) unfolding settled_def
    by (intro exI [of _ w3] exI [of _ k3]) (auto simp: w3_def w0_def world_simps)
qed

section \<open>Accepting\<close>

lemma inv_same:
  assumes "echo_inv ctl tmax n gs ds w" "conns w' = conns w" "same_rest w w'" "srv_connections w' = srv_connections w"
    and "timer_mgr w' = timer_mgr w"
  shows "echo_inv ctl tmax n gs ds w'"
proof -
  obtain a lfd u where ctl: "ctl = (a, lfd, u)" by (cases ctl)
  note i = echo_invD [OF assms(1) [unfolded ctl]]
  have "conn_fits n gs ds w' d e" if "conns w' d = Some e" for d e
    using i(7) [of d e] that assms(2-5) by (simp add: conn_fits_def same_rest_def)
  moreover have "serving a w'" using i(1) assms(3) serving_rest [of w' w a] by (simp add: same_rest_def)
  ultimately show ?thesis
    unfolding ctl using i(2-6,8-11) assms(2-5) by (intro echo_invI) (simp_all add: same_rest_def)
qed

lemma settled_mono: "settled ctl tmax m w \<Longrightarrow> n \<le> m \<Longrightarrow> settled ctl tmax n w"
  by (auto simp: settled_def intro: echo_inv_mono)

lemma settled_same:
  assumes "settled ctl tmax n w" "conns w' = conns w" "same_rest w w'" "srv_connections w' = srv_connections w"
    and "timer_mgr w' = timer_mgr w" "functors w' = functors w"
  shows "settled ctl tmax n w'"
proof -
  obtain ds where "functors w = map F_destroy ds" "echo_inv ctl tmax n {} ds w" using assms(1) by (auto simp: settled_def)
  then have "functors w' = map F_destroy ds" "echo_inv ctl tmax n {} ds w'" using assms(6) inv_same [OF _ assms(2-5)] by auto
  moreover have "resting w'" using assms(1,2) by (simp add: settled_def resting_def)
  ultimately show ?thesis unfolding settled_def by blast
qed

text \<open>A new connection of the echo server, with its timer.\<close>

definition echo_accepted :: "net_address \<times> net_address \<Rightarrow> nat \<Rightarrow> int \<Rightarrow> nat \<Rightarrow> nat connection" where
  "echo_accepted names c fd i =
     (accepted names c fd True)\<lparr>c_channel := (c_channel (accepted names c fd True :: nat connection))\<lparr>ch_events := kReadEvents\<rparr>,
        c_ctx := Some i\<rparr>"

lemma echo_accepted_shape:
  assumes "n \<le> 2 ^ 40"
  shows "echo_shape n c (echo_accepted names c fd i)"
proof -
  have "n * 2 ^ 20 \<le> 2 ^ 40 * (2 ^ 20 :: nat)" using assms by (rule mult_le_mono1)
  then show ?thesis
    using buffer_init_ok [of kDefaultReservedSize]
    by (simp add: echo_shape_def echo_accepted_def accepted_def new_connection_def Channel_init_def unread_def buffer_space_def
        Buffer_init_def per_event_def kDefaultReservedSize_def vector_max_size_def)
qed

lemma accept_connection:
  assumes "settled ctl tmax (Suc n) w" "kind_net tmax os" "c \<noteq> fst ctl" "c \<noteq> snd (snd ctl)" "conns w c = None" "p_channels w fd = None"
  shows "\<exists>w1 k. TcpServer_OnNewConnection os (echo_calls os) c fd w = Some (Inr w1) \<and> settled ctl tmax n w1 \<and>
     conns w1 = (conns w)(c \<mapsto> k) \<and> c_state k = kConnected \<and> p_channels w1 = (p_channels w)(fd \<mapsto> c) \<and>
     last_expire_time (timer_mgr w1) = last_expire_time (timer_mgr w) \<and> os_calls w \<le> os_calls w1"
proof -
  obtain ds where ds: "functors w = map F_destroy ds" "echo_inv ctl tmax (Suc n) {} ds w"
    using assms(1) by (auto simp: settled_def)
  obtain a lfd u where ctl: "ctl = (a, lfd, u)" by (cases ctl)
  note i = echo_invD [OF ds(2) [unfolded ctl]]
  have w: "InLoopThread w" "loop_thread_count (srv_pool w) = 0" "srv_nccb w" "srv_rcb w"
    using i(1) by (simp_all add: serving_def)
  have free: "srv_connections w fd = None"
  proof (rule ccontr)
    assume "srv_connections w fd \<noteq> None"
    then obtain d e where "conns w d = Some e" "c_fd e = fd" using i(10) by blast
    then show False using i(7) assms(6) by (auto simp: conn_fits_def)
  qed
  obtain names where names: "named os (os_calls w) fd names"
    using assms(2) by (auto simp: kind_net_def intro: named_known [of os "os_calls w" fd])
  define k0 where "k0 = (accepted names c fd True :: nat connection)"
  from enters_parts [OF w(1,2) free names, of "echo_calls os" c] w(3,4) obtain w1 where w1:
    "TcpServer_OnNewConnection os (echo_calls os) c fd w = then_run (on_new (echo_calls os) c w1) (StartReading c)"
    "InLoopThread w1" "srv_conn_loop w1 = (srv_conn_loop w)(c := Base_loop)" "conns w1 = (conns w)(c \<mapsto> k0)"
    "srv_connections w1 = (srv_connections w)(fd \<mapsto> c)" "functors w1 = functors w" "os_calls w1 = os_calls w"
    "kept w1 = kept w" "p_channels w1 = p_channels w"
    unfolding k0_def by auto
  have tm1: "timer_mgr w1 = timer_mgr w" "server_rest w1 = server_rest w"
    using w1(8) rest_of_kept [OF w1(8)] w1(2) w(1) by (simp_all add: kept_def)
  have "timers_fit tmax (Suc n) (timer_mgr w1)" "conns w1 c = Some k0" "os_now os (os_calls w1) \<le> tmax"
    using i(2) tm1 w1(4) assms(2) by (simp_all add: kind_net_def)
  from arm_timer_ok [OF w1(2) this(1,3,2)] obtain t tm where arm:
    "arm_timer os c w1 = Some (Inr (set_conn c (k0\<lparr>c_ctx := Some t\<rparr>) ((count_call w1)\<lparr>timer_mgr := tm\<rparr>)))"
    and tm: "timers_fit tmax n tm" "last_expire_time tm = last_expire_time (timer_mgr w)"
      "\<exists>e. timers tm t = Some e \<and> cb e = F_say_goodbye c" "\<forall>j e. timers (timer_mgr w) j = Some e \<longrightarrow> timers tm j = Some e"
    unfolding tm1 by auto
  define k1 where "k1 = k0\<lparr>c_ctx := Some t\<rparr>"
  define w2 where "w2 = set_conn c k1 ((count_call w1)\<lparr>timer_mgr := tm\<rparr>)"
  define w3 where "w3 = set_events c (ch_events (c_channel k1) OR kReadEvents) k1 w2"
  define k where "k = echo_accepted names c fd t"
  have w2: "InLoopThread w2" "conns w2 c = Some k1"
    using w1(2) by (simp_all add: w2_def world_simps)
  have k1: "k1\<lparr>c_channel := (c_channel k1)\<lparr>ch_events := ch_events (c_channel k1) OR kReadEvents\<rparr>\<rparr> = k" "ch_fd (c_channel k1) = fd"
    "ch_ptr (c_channel k1) = c"
    by (simp_all add: k1_def k0_def k_def echo_accepted_def accepted_def Channel_init_def)
  have run: "TcpServer_OnNewConnection os (echo_calls os) c fd w = Some (Inr w3)"
    using w1(1) arm on_channel_events(1) [OF w2]
    by (simp add: echo_calls_def echo_OnNewConnection_def k1_def [symmetric] w2_def [symmetric] StartReading_def RunInLoop_def
        w2(1) run_channel_functor_def w3_def)
  have w3: "conns w3 = (conns w)(c \<mapsto> k)" "server_rest w3 = server_rest w" "srv_conn_loop w3 = (srv_conn_loop w)(c := Base_loop)"
    "srv_connections w3 = (srv_connections w)(fd \<mapsto> c)" "timer_mgr w3 = tm" "functors w3 = functors w"
    "os_calls w \<le> os_calls w3"
    using w1(3-7) tm1(2) k1(1) by (simp_all add: w3_def w2_def world_simps)
  have p: "p_channels w3 = (p_channels w)(fd \<mapsto> c)"
    using w1(9) assms(6) k1(2,3)
    by (simp add: w3_def w2_def set_events_def Poller_UpdateChannel_def set_conn_def count_call_def)
  have k: "c_fd k = fd" "c_state k = kConnected" "c_ctx k = Some t" "\<not> ch_handling_events (c_channel k)"
    by (simp_all add: k_def echo_accepted_def accepted_def new_connection_def Channel_init_def)
  have inv: "echo_inv ctl tmax n {} ds w" by (rule echo_inv_mono [OF ds(2)]) simp
  have "echo_inv ctl tmax n {} ds w3"
  proof (rule inv_enters [OF inv assms(5,3,4) w3(1-3)])
    show "echo_shape n c k" unfolding k_def using i(3) by (intro echo_accepted_shape) simp
  qed (use k w3(4,5) p assms(6) tm in \<open>auto simp: armed_def\<close>)
  moreover have "resting w3" using assms(1) w3(1) k(4) by (auto simp: settled_def resting_def)
  ultimately show ?thesis
    using run w3 p tm(2) ds(1) k(2) unfolding settled_def by (intro exI [of _ w3] exI [of _ k]) auto
qed

text \<open>The acceptor's channel while it handles \<open>ev\<close>.\<close>

definition accepting_on :: "32 word \<Rightarrow> ('x, 'z) server_world_scheme \<Rightarrow> ('x, 'z) server_world_scheme" where
  "accepting_on ev w = w\<lparr>srv_acceptor := (srv_acceptor w)\<lparr>ac_channel :=
     map_option (\<lambda>ch. ch\<lparr>ch_revents := ev, ch_handling_events := True\<rparr>) (ac_channel (srv_acceptor w))\<rparr>\<rparr>"

lemma acceptor_flags [world_simps]:
  fixes w :: "(nat, 'z) server_world_scheme"
  shows "server_rest (accepting_on ev w) = server_rest w" "server_rest (done_accepting w) = server_rest w"
    "conns (accepting_on ev w) = conns w" "p_channels (accepting_on ev w) = p_channels w"
    "srv_conn_loop (accepting_on ev w) = srv_conn_loop w" "srv_connections (accepting_on ev w) = srv_connections w"
    "functors (accepting_on ev w) = functors w" "timer_mgr (accepting_on ev w) = timer_mgr w"
  by (simp_all add: accepting_on_def done_accepting_def server_rest_def InLoopThread_def option.map_comp comp_def)

lemma settled_flags:
  "settled ctl tmax n (done_accepting w) = settled ctl tmax n w" "settled ctl tmax n (accepting_on ev w) = settled ctl tmax n w"
  "settled ctl tmax n (count_call w) = settled ctl tmax n w"
  by (auto intro: settled_same simp: world_simps same_rest_def)

lemma handle_listening:
  assumes "map_option (\<lambda>ch. (ch_ptr ch, ch_rcb ch, ch_wcb ch, ch_ecb ch)) (ac_channel (srv_acceptor w)) = Some (a, Some (), None, None)"
    and "a \<noteq> ch_ptr wakeup"
  shows "handle_active wakeup os v (a, ev) w =
     then_run (if ev AND (EPOLLIN OR EPOLLRDNORM) \<noteq> 0 then server_accept os v (accepting_on ev w) else Some (Inr (accepting_on ev w)))
       (\<lambda>w1. Some (Inr (done_accepting w1)))"
proof -
  obtain ch where ch: "ac_channel (srv_acceptor w) = Some ch" "ch_ptr ch = a" "ch_rcb ch = Some ()" "ch_wcb ch = None" "ch_ecb ch = None"
    using assms(1) by auto
  then have "handle_active wakeup os v (a, ev) w = handle_acceptor os v ev ch w"
    using assms(2) by (simp add: handle_active_def)
  also have "\<dots> = then_run (if ev AND (EPOLLIN OR EPOLLRDNORM) \<noteq> 0 then server_accept os v (accepting_on ev w)
      else Some (Inr (accepting_on ev w))) (\<lambda>w1. Some (Inr (done_accepting w1)))"
    using ch by (simp add: handle_acceptor_def HandleEvents_def call_if_set_def Let_def accepting_on_def done_accepting_def)
  finally show ?thesis .
qed

lemma handle_acceptor_event:
  assumes "settled ctl tmax (Suc n) w" "kind_net tmax os" "fst ctl = a" "snd (snd ctl) = ch_ptr wakeup"
    and "\<And>i. os_calls w \<le> i \<Longrightarrow> p_channels w (os_accept os i) = None"
    and "\<And>i. os_calls w \<le> i \<Longrightarrow> conns w (os_address os i) = None \<and> os_address os i \<noteq> a \<and> os_address os i \<noteq> ch_ptr wakeup"
  shows "\<exists>w1. handle_active wakeup os (echo_calls os) (a, ev) w = Some (Inr w1) \<and> settled ctl tmax n w1 \<and>
     (\<forall>d k. conns w d = Some k \<longrightarrow> conns w1 d = Some k) \<and> p_channels w \<subseteq>\<^sub>m p_channels w1 \<and>
     last_expire_time (timer_mgr w1) = last_expire_time (timer_mgr w)"
proof -
  obtain lfd where ctl: "ctl = (a, lfd, ch_ptr wakeup)" using assms(3,4) by (cases ctl) simp
  obtain ds where "echo_inv ctl tmax (Suc n) {} ds w" using assms(1) by (auto simp: settled_def)
  note i = echo_invD(1,4) [OF this [unfolded ctl]]
  define wa where "wa = accepting_on ev w"
  show ?thesis
  proof (cases "ev AND (EPOLLIN OR EPOLLRDNORM) = 0")
    case True
    have "settled ctl tmax n (done_accepting wa)"
      using settled_mono [OF assms(1), of n] by (simp add: wa_def settled_flags)
    then show ?thesis
      using True handle_listening [of w a wakeup os "echo_calls os" ev] i
      by (intro exI [of _ "done_accepting wa"]) (simp add: serving_def wa_def world_simps)
  next
    case False
    define fd where "fd = os_accept os (os_calls wa)"
    define wb where "wb = count_call (count_call wa)"
    define c where "c = os_address os (os_calls wb)"
    have wb: "settled ctl tmax (Suc n) wb" "conns wb = conns w" "p_channels wb = p_channels w" "timer_mgr wb = timer_mgr w"
      using assms(1) by (simp_all add: wb_def wa_def settled_flags world_simps)
    have calls: "os_calls w \<le> os_calls wa" "os_calls w \<le> os_calls wb" by (simp_all add: wb_def wa_def accepting_on_def count_call_def)
    have fresh: "c \<noteq> fst ctl" "c \<noteq> snd (snd ctl)" "conns wb c = None" "p_channels wb fd = None"
      using assms(5) [OF calls(1)] assms(6) [OF calls(2)] wb(2,3) by (simp_all add: ctl c_def fd_def)
    from accept_connection [OF wb(1) assms(2) fresh] obtain w1 k where w1:
      "TcpServer_OnNewConnection os (echo_calls os) c fd wb = Some (Inr w1)" "settled ctl tmax n w1" "conns w1 = (conns w)(c \<mapsto> k)"
      "p_channels w1 = (p_channels w)(fd \<mapsto> c)" "last_expire_time (timer_mgr w1) = last_expire_time (timer_mgr w)"
      unfolding wb(2-4) by blast
    have "server_accept os (echo_calls os) wa = Some (Inr w1)"
      using w1(1) assms(2) i(1)
      by (simp add: server_accept_def Acceptor_NewConnetion_def Let_def socketop_SetNonblocking_def kind_net_def call_user_def
          wb_def [symmetric] fd_def [symmetric] c_def [symmetric] serving_def)
        (simp add: wb_def wa_def accepting_on_def count_call_def)
    then have "handle_active wakeup os (echo_calls os) (a, ev) w = Some (Inr (done_accepting w1))"
      using False handle_listening [of w a wakeup os "echo_calls os" ev] i by (simp add: serving_def wa_def)
    then show ?thesis
      using w1(2-5) fresh(3,4) wb(2,3)
      by (intro exI [of _ "done_accepting w1"]) (auto simp: settled_flags world_simps map_le_def)
  qed
qed

section \<open>A round of the loop\<close>

text \<open>What \<open>epoll_wait\<close> may answer: every descriptor at most once, registered and not the wake-up pipe
  (no other thread wakes the loop), and readable only if it is watched for reading.\<close>

definition may_read :: "32 word \<Rightarrow> 'x connection \<Rightarrow> bool" where
  "may_read ev k \<longleftrightarrow> (ev AND (EPOLLIN OR EPOLLRDNORM) \<noteq> 0 \<longrightarrow> is_reading (c_channel k))"

definition epoll_gives :: "unit channel \<Rightarrow> (int \<times> 32 word) list \<Rightarrow> (nat, 'z) server_world_scheme \<Rightarrow> bool" where
  "epoll_gives wakeup evs w \<longleftrightarrow>
     distinct (map fst evs) \<and>
     (\<forall>(fd, ev)\<in>set evs. \<exists>p. p_channels w fd = Some p \<and> p \<noteq> ch_ptr wakeup \<and> (\<forall>k. conns w p = Some k \<longrightarrow> may_read ev k))"

text \<open>What the kernel and the heap hand out is not in use.\<close>

definition fresh_for :: "os_net \<Rightarrow> nat \<Rightarrow> unit channel \<Rightarrow> (nat, 'z) server_world_scheme \<Rightarrow> bool" where
  "fresh_for os a wakeup w \<longleftrightarrow>
     (\<forall>i\<ge>os_calls w. p_channels w (os_accept os i) = None \<and> conns w (os_address os i) = None \<and>
          os_address os i \<noteq> a \<and> os_address os i \<noteq> ch_ptr wakeup)"

lemma handle_all:
  fixes w :: "(nat, 'z) server_world_scheme"
  assumes "settled ctl tmax (n + length chs) w" "kind_net tmax os" "fst ctl = a" "snd (snd ctl) = ch_ptr wakeup"
    and "distinct (map fst chs)" "a \<in> fst ` set chs \<longrightarrow> fresh_for os a wakeup w"
    and "\<And>p ev. (p, ev) \<in> set chs \<Longrightarrow> p = a \<or> p \<noteq> ch_ptr wakeup \<and> (\<exists>k. conns w p = Some k \<and> may_read ev k)"
  shows "\<exists>w1. run_all (handle_active wakeup os (echo_calls os)) chs w = Some (Inr w1) \<and> settled ctl tmax n w1 \<and>
     last_expire_time (timer_mgr w1) = last_expire_time (timer_mgr w)"
  using assms(1,5-)
proof (induction chs arbitrary: w)
  case Nil
  then show ?case by simp
next
  case (Cons pe chs)
  obtain p ev where pe: "pe = (p, ev)" by (cases pe)
  have set: "settled ctl tmax (Suc (n + length chs)) w" using Cons.prems(1) by simp
  then obtain ds where "echo_inv ctl tmax (Suc (n + length chs)) {} ds w" by (auto simp: settled_def)
  moreover obtain lfd where ctl: "ctl = (a, lfd, ch_ptr wakeup)" using assms(3,4) by (cases ctl) simp
  ultimately have i: "serving a w" "a \<noteq> ch_ptr wakeup" using echo_invD(1,4) by blast+
  have rest: "(q, e) \<in> set chs \<Longrightarrow> q \<noteq> p" for q e using Cons.prems(2) pe by force
  show ?case
  proof (cases "p = a")
    case True
    then have "fresh_for os a wakeup w" using Cons.prems(3) pe by simp
    then obtain w1 where w1: "handle_active wakeup os (echo_calls os) (a, ev) w = Some (Inr w1)" "settled ctl tmax (n + length chs) w1"
      "\<forall>d k. conns w d = Some k \<longrightarrow> conns w1 d = Some k" "last_expire_time (timer_mgr w1) = last_expire_time (timer_mgr w)"
      using handle_acceptor_event [OF set assms(2-4), of ev] unfolding fresh_for_def by meson
    have "a \<notin> fst ` set chs" using rest True by force
    moreover have "q = a \<or> q \<noteq> ch_ptr wakeup \<and> (\<exists>k. conns w1 q = Some k \<and> may_read e k)" if "(q, e) \<in> set chs" for q e
      using Cons.prems(4) [of q e] that w1(3) by auto
    moreover have "distinct (map fst chs)" using Cons.prems(2) by simp
    ultimately show ?thesis using Cons.IH [OF w1(2)] w1(1,4) True pe by auto
  next
    case False
    then obtain k where k: "conns w p = Some k" "may_read ev k" "p \<noteq> ch_ptr wakeup" using Cons.prems(4) [of p ev] pe by auto
    from handle_connection [OF set k(1) assms(2), of ev] k(2) obtain w1 k1 where w1:
      "handle_channel os (server_user_calls os (echo_calls os)) (p, ev) w = Some (Inr w1)" "settled ctl tmax (n + length chs) w1"
      "conns w1 = (conns w)(p \<mapsto> k1)" "p_channels w1 = p_channels w"
      "last_expire_time (timer_mgr w1) = last_expire_time (timer_mgr w)" "os_calls w \<le> os_calls w1"
      unfolding may_read_def by blast
    have "handle_active wakeup os (echo_calls os) (p, ev) w = Some (Inr w1)"
      using w1(1) k(3) False i(1) by (auto simp: handle_active_def serving_def split: option.split)
    moreover have "q = a \<or> q \<noteq> ch_ptr wakeup \<and> (\<exists>k. conns w1 q = Some k \<and> may_read e k)" if "(q, e) \<in> set chs" for q e
      using Cons.prems(4) [of q e] that rest [OF that] w1(3) by auto
    moreover have "a \<in> fst ` set chs \<longrightarrow> fresh_for os a wakeup w1"
    proof
      assume "a \<in> fst ` set chs"
      then have f: "fresh_for os a wakeup w" using Cons.prems(3) by simp
      then have "os_address os i \<noteq> p" if "os_calls w \<le> i" for i using k(1) that unfolding fresh_for_def by force
      then show "fresh_for os a wakeup w1" using f w1(3,4,6) by (simp add: fresh_for_def)
    qed
    moreover have "distinct (map fst chs)" using Cons.prems(2) by simp
    ultimately show ?thesis using Cons.IH [OF w1(2)] w1(5) pe by auto
  qed
qed

lemma destroy_all:
  fixes w :: "(nat, 'z) server_world_scheme"
  assumes "echo_inv ctl tmax n {} ds w" "resting w" "functors w = []" "kind_net tmax os"
  shows "\<exists>w1. run_all (run_functor os v) (map F_destroy ds) w = Some (Inr w1) \<and> echo_inv ctl tmax n {} [] w1 \<and>
     resting w1 \<and> functors w1 = [] \<and> timer_mgr w1 = timer_mgr w \<and> conns w1 = conns w |` (- set ds)"
  using assms(1-3)
proof (induction ds arbitrary: w)
  case Nil
  then show ?case by simp
next
  case (Cons c ds)
  obtain a lfd u where ctl: "ctl = (a, lfd, u)" by (cases ctl)
  obtain k where k: "conns w c = Some k" using echo_invD(9) [OF Cons.prems(1) [unfolded ctl], of c] by auto
  note s = inv_served [OF Cons.prems(1) k]
  have "conn_fits n {} (c # ds) w c k" using echo_invD(7) [OF Cons.prems(1) [unfolded ctl] k] .
  then have d: "c_state k = kDisconnected" "ch_fd (c_channel k) = c_fd k" "\<not> ch_handling_events (c_channel k)"
    using Cons.prems(2) k by (auto simp: conn_fits_def echo_shape_def resting_def split: if_splits)
  have "os_shutdown os (os_calls w)" "p_channels w (ch_fd (c_channel k)) \<noteq> None"
    using assms(4) s(4) d(2) by (simp_all add: kind_net_def)
  from Destroy_server [OF s(2) k d(1) this d(3), of v] obtain w1 where w1:
    "run_functor os v (F_destroy c) w = Some (Inr w1)" "conns w1 = (conns w)(c := None)" "srv_connections w1 = srv_connections w"
    "p_channels w1 = (p_channels w)(c_fd k := None)" "functors w1 = functors w" "InLoopThread w1" "kept w1 = kept w"
    "srv_conn_loop w1 = srv_conn_loop w" unfolding d(2) by blast
  have "server_rest w1 = server_rest w" "timer_mgr w1 = timer_mgr w"
    using rest_of_kept [OF w1(7)] w1(6,7) s(2) by (simp_all add: kept_def)
  then have "echo_inv ctl tmax n {} ds w1" by (intro inv_forgets [OF Cons.prems(1) k w1(2)] w1)
  moreover have "resting w1" using Cons.prems(2) w1(2) by (simp add: resting_def)
  moreover have "functors w1 = []" using w1(5) Cons.prems(3) by simp
  ultimately obtain w2 where w2: "run_all (run_functor os v) (map F_destroy ds) w1 = Some (Inr w2)" "echo_inv ctl tmax n {} [] w2"
    "resting w2" "functors w2 = []" "timer_mgr w2 = timer_mgr w1" "conns w2 = conns w1 |` (- set ds)"
    using Cons.IH by blast
  have "conns w2 = conns w |` (- set (c # ds))" using w2(6) w1(2) by (auto simp: restrict_map_def fun_eq_iff)
  then show ?case using w1(1) w2 \<open>timer_mgr w1 = timer_mgr w\<close> by auto
qed

lemma inv_ticks:
  assumes "echo_inv ctl tmax n {} ds w" "timers_fit tmax n tm"
    and "\<And>i t c. timers (timer_mgr w) i = Some t \<Longrightarrow> cb t = F_say_goodbye c \<Longrightarrow> c \<in> gs \<or> timers tm i = Some t"
  shows "echo_inv ctl tmax n gs ds (w\<lparr>timer_mgr := tm\<rparr>)"
proof -
  obtain a lfd u where ctl: "ctl = (a, lfd, u)" by (cases ctl)
  note i = echo_invD [OF assms(1) [unfolded ctl]]
  have "conn_fits n gs ds (w\<lparr>timer_mgr := tm\<rparr>) d e" if "conns w d = Some e" for d e
    using i(7) [OF that] assms(3) by (fastforce simp: conn_fits_def armed_def)
  moreover have "serving a (w\<lparr>timer_mgr := tm\<rparr>)" using i(1) by (simp add: serving_def InLoopThread_def)
  ultimately show ?thesis unfolding ctl using i assms(2) by (intro echo_invI) simp_all
qed

text \<open>What the timers do to a connection.\<close>

definition after_timers :: "nat set \<Rightarrow> nat \<Rightarrow> nat connection \<Rightarrow> nat connection \<Rightarrow> bool" where
  "after_timers gs c k k1 \<longleftrightarrow>
     (if c_state k = kConnected \<and> c \<in> gs
      then c_state k1 = kDisconnected \<and> c_fd k1 = c_fd k \<and> unread (c_write_buf k1) = unread (c_write_buf k) @ goodbye \<and>
        is_writing (c_channel k1)
      else k1 = k)"

lemma say_all:
  fixes w :: "(nat, 'z) server_world_scheme"
  assumes "echo_inv ctl tmax n (set cs) ds w" "functors w = map F_destroy ds" "resting w" "kind_net tmax os"
  shows "\<exists>w1. run_all (run_functor os (echo_calls os)) (map F_say_goodbye cs) w = Some (Inr w1) \<and> settled ctl tmax n w1 \<and>
     timer_mgr w1 = timer_mgr w \<and> set (functors w) \<subseteq> set (functors w1) \<and>
     (\<forall>c. conns w c = None \<longrightarrow> conns w1 c = None) \<and>
     (\<forall>c k. conns w c = Some k \<longrightarrow> (\<exists>k1. conns w1 c = Some k1 \<and> after_timers (set cs) c k k1))"
  using assms(1-3)
proof (induction cs arbitrary: w ds)
  case Nil
  then show ?case by (auto simp: settled_def after_timers_def)
next
  case (Cons c cs)
  let ?say = "SayGoodbye os (server_user_calls os echo_close_calls) c w"
  have run: "run_functor os (echo_calls os) (F_say_goodbye c) w = ?say"
    by (simp add: run_functor_def run_user_functor_def echo_calls_def)
  have inv: "echo_inv ctl tmax n (insert c (set cs)) ds w" using Cons.prems(1) by simp
  show ?case
  proof (cases "\<exists>k. conns w c = Some k \<and> c_state k = kConnected")
    case True
    then obtain k where k: "conns w c = Some k" "c_state k = kConnected" by blast
    have "os_shutdown os i" for i using assms(4) by (simp add: kind_net_def)
    from SayGoodbye_open [OF inv k this] obtain w1 k1 where w1:
      "?say = Some (Inr w1)" "conns w1 = (conns w)(c \<mapsto> k1)" "c_state k1 = kDisconnected" "c_fd k1 = c_fd k"
      "unread (c_write_buf k1) = unread (c_write_buf k) @ goodbye" "is_writing (c_channel k1)"
      "ch_handling_events (c_channel k1) = ch_handling_events (c_channel k)" "functors w1 = functors w @ [F_destroy c]"
      "timer_mgr w1 = timer_mgr w" "echo_inv ctl tmax n (set cs) (ds @ [c]) w1"
      by (metis echo_close_calls_def server_calls.select_convs(5))
    have "resting w1" using Cons.prems(3) k(1) w1(2,7) by (auto simp: resting_def)
    moreover have "functors w1 = map F_destroy (ds @ [c])" using Cons.prems(2) w1(8) by simp
    ultimately obtain w2 where w2: "run_all (run_functor os (echo_calls os)) (map F_say_goodbye cs) w1 = Some (Inr w2)"
      "settled ctl tmax n w2" "timer_mgr w2 = timer_mgr w1" "set (functors w1) \<subseteq> set (functors w2)"
      "\<forall>d. conns w1 d = None \<longrightarrow> conns w2 d = None"
      "\<forall>d k. conns w1 d = Some k \<longrightarrow> (\<exists>k1. conns w2 d = Some k1 \<and> after_timers (set cs) d k k1)"
      using Cons.IH [OF w1(10)] by blast
    have "\<exists>k2. conns w2 d = Some k2 \<and> after_timers (set (c # cs)) d e k2" if "conns w d = Some e" for d e
    proof (cases "d = c")
      case True
      have "conns w1 c = Some k1" using w1(2) by simp
      then obtain k2 where "conns w2 d = Some k2" "after_timers (set cs) d k1 k2" using w2(6) True by blast
      moreover have "e = k" using True that k(1) by simp
      ultimately show ?thesis using True w1(3-6) k(2) by (auto simp: after_timers_def)
    next
      case False
      then have "conns w1 d = Some e" using that w1(2) by simp
      then obtain k2 where "conns w2 d = Some k2" "after_timers (set cs) d e k2" using w2(6) by blast
      then show ?thesis using False by (auto simp: after_timers_def)
    qed
    moreover have "conns w2 d = None" if "conns w d = None" for d using that k(1) w1(2) w2(5) by (cases "d = c") auto
    ultimately show ?thesis using run w1(1,8,9) w2(1-4) by (intro exI [of _ w2]) auto
  next
    case False
    have gone: "c_state k = kDisconnected" if "conns w c = Some k" for k
      using inv_served(1) [OF inv that] False that by (auto simp: echo_shape_def)
    have inv1: "echo_inv ctl tmax n (set cs) ds w" using inv_no_longer [OF inv] False by blast
    obtain w2 where w2: "run_all (run_functor os (echo_calls os)) (map F_say_goodbye cs) w = Some (Inr w2)"
      "settled ctl tmax n w2" "timer_mgr w2 = timer_mgr w" "set (functors w) \<subseteq> set (functors w2)"
      "\<forall>d. conns w d = None \<longrightarrow> conns w2 d = None"
      "\<forall>d k. conns w d = Some k \<longrightarrow> (\<exists>k1. conns w2 d = Some k1 \<and> after_timers (set cs) d k k1)"
      using Cons.IH [OF inv1 Cons.prems(2,3)] by blast
    have same: "after_timers (set cs) d e k2 = after_timers (set (c # cs)) d e k2" if "conns w d = Some e" for d e k2
      using gone that by (auto simp: after_timers_def)
    have "?say = Some (Inr w)" by (rule SayGoodbye_gone [OF gone])
    then show ?thesis using run w2 same by (intro exI [of _ w2]) auto
  qed
qed

text \<open>The functors and the timers of a round, from the state its handlers left.\<close>

lemma functors_and_timers:
  fixes w :: "(nat, 'z) server_world_scheme"
  assumes "settled ctl tmax n w" "kind_net tmax os" "last_expire_time (timer_mgr w) \<le> now" "now \<le> tmax"
  defines "exec \<equiv> run_functor os (echo_calls os)"
  shows "\<exists>w1 cs tm w2. CallPendingFunctors exec w = Some (Inr w1) \<and> period_functor w = None \<and>
     TimerWheel_Step (timer_mgr w1) now = Inr (map F_say_goodbye cs, tm) \<and>
     run_all exec (map F_say_goodbye cs) (w1\<lparr>timer_mgr := tm\<rparr>) = Some (Inr w2) \<and> settled ctl tmax n w2 \<and>
     last_expire_time (timer_mgr w2) = now \<and>
     (\<forall>c k. conns w c = Some k \<longrightarrow> c_state k = kConnected \<longrightarrow>
        (\<exists>k1. conns w2 c = Some k1 \<and> after_timers {c. due_goodbye now (timer_mgr w) c} c k k1))"
proof -
  obtain ds where ds: "functors w = map F_destroy ds" "echo_inv ctl tmax n {} ds w" "resting w"
    using assms(1) by (auto simp: settled_def)
  obtain a lfd u where ctl: "ctl = (a, lfd, u)" by (cases ctl)
  note i = echo_invD [OF ds(2) [unfolded ctl]]
  define wb where "wb = w\<lparr>calling_functors := True, functors := []\<rparr>"
  have "echo_inv ctl tmax n {} ds wb"
    by (rule inv_same [OF ds(2)]) (simp_all add: wb_def same_rest_def server_rest_def InLoopThread_def)
  moreover have "resting wb" "functors wb = []" using ds(3) by (simp_all add: wb_def resting_def)
  ultimately obtain wc where wc: "run_all exec (map F_destroy ds) wb = Some (Inr wc)" "echo_inv ctl tmax n {} [] wc"
    "resting wc" "functors wc = []" "timer_mgr wc = timer_mgr wb" "conns wc = conns wb |` (- set ds)"
    using destroy_all [OF _ _ _ assms(2)] unfolding exec_def by blast
  define w1 where "w1 = end_calls wc"
  have w1: "CallPendingFunctors exec w = Some (Inr w1)" "timer_mgr w1 = timer_mgr w" "conns w1 = conns w |` (- set ds)" "functors w1 = []"
    using wc ds(1) by (simp_all add: CallPendingFunctors_def begin_calls_def wb_def [symmetric] w1_def end_calls_def)
      (simp_all add: wb_def)
  have inv1: "echo_inv ctl tmax n {} [] w1" 
    by (rule inv_same [OF wc(2)]) (simp_all add: w1_def end_calls_def same_rest_def server_rest_def InLoopThread_def)
  obtain cs tm where tm: "TimerWheel_Step (timer_mgr w) now = Inr (map F_say_goodbye cs, tm)" "timers_fit tmax n tm"
    "last_expire_time tm = now" "set cs = {c. due_goodbye now (timer_mgr w) c}"
    "\<forall>i t. timers (timer_mgr w) i = Some t \<longrightarrow> expire_time t \<le> now \<or> timers tm i = Some t"
    using step_fits [OF i(2) assms(3,4)] by blast
  have "c \<in> set cs \<or> timers tm i = Some t" if "timers (timer_mgr w1) i = Some t" "cb t = F_say_goodbye c" for i t c
  proof (cases "expire_time t \<le> now")
    case True
    then show ?thesis using that tm(4) w1(2) unfolding due_goodbye_def by auto
  next
    case False
    then show ?thesis using that tm(5) w1(2) by auto
  qed
  from inv_ticks [OF inv1 tm(2) this] have "echo_inv ctl tmax n (set cs) [] (w1\<lparr>timer_mgr := tm\<rparr>)" .
  moreover have "resting (w1\<lparr>timer_mgr := tm\<rparr>)" using wc(3) by (simp add: w1_def end_calls_def resting_def)
  moreover have "functors (w1\<lparr>timer_mgr := tm\<rparr>) = map F_destroy []" using w1(4) by simp
  ultimately obtain w2 where w2: "run_all exec (map F_say_goodbye cs) (w1\<lparr>timer_mgr := tm\<rparr>) = Some (Inr w2)" "settled ctl tmax n w2"
    "timer_mgr w2 = tm" "\<forall>c k. conns w1 c = Some k \<longrightarrow> (\<exists>k1. conns w2 c = Some k1 \<and> after_timers (set cs) c k k1)"
    using say_all [where cs = cs and ds = "[]" and w = "w1\<lparr>timer_mgr := tm\<rparr>", OF _ _ _ assms(2)] unfolding exec_def by fastforce
  have "\<exists>k1. conns w2 c = Some k1 \<and> after_timers {c. due_goodbye now (timer_mgr w) c} c k k1"
    if "conns w c = Some k" "c_state k = kConnected" for c k
  proof -
    have "c \<notin> set ds" using i(7) [OF that(1)] that(2) by (simp add: conn_fits_def)
    then have "conns w1 c = Some k" using that(1) w1(3) by simp
    then show ?thesis using w2(4) tm(4) by auto
  qed
  moreover have "period_functor w = None" using i(1) by (simp add: serving_def)
  ultimately show ?thesis using w1(1,2) tm(1,3) w2(1-3) by (intro exI [of _ w1] exI [of _ cs] exI [of _ tm] exI [of _ w2]) simp
qed

text \<open>The poll hands the active channels on, each once.\<close>

lemma fill_active:
  "(\<And>fd ev. (fd, ev) \<in> set evs \<Longrightarrow> p_channels w fd \<noteq> None) \<Longrightarrow>
     FillActiveChannels w evs = Inr (map (\<lambda>(fd, ev). (the (p_channels w fd), ev)) evs)"
proof (induction evs)
  case (Cons e evs)
  obtain fd ev where e: "e = (fd, ev)" by (cases e)
  have "p_channels w fd \<noteq> None" using Cons.prems [of fd ev] e by simp
  moreover have "FillActiveChannels w evs = Inr (map (\<lambda>(fd, ev). (the (p_channels w fd), ev)) evs)"
  proof (rule Cons.IH)
    show "p_channels w fd \<noteq> None" if "(fd, ev) \<in> set evs" for fd ev using Cons.prems [of fd ev] that by simp
  qed
  ultimately show ?case using e by auto
qed simp

lemma polled_channels:
  assumes "settled (a, lfd, u) tmax n w" "u = ch_ptr wakeup" "epoll_gives wakeup evs w"
  defines "chs \<equiv> map (\<lambda>(fd, ev). (the (p_channels w fd), ev)) evs"
  shows "\<exists>w1. Poll (Some evs) w = Inr (chs, w1) \<and> settled (a, lfd, u) tmax n (w1\<lparr>iteration := j\<rparr>) \<and>
      conns w1 = conns w \<and> p_channels w1 = p_channels w \<and> timer_mgr w1 = timer_mgr w \<and> os_calls w1 = os_calls w"
    "distinct (map fst chs)"
    "\<And>p ev. (p, ev) \<in> set chs \<Longrightarrow> p = a \<or> p \<noteq> ch_ptr wakeup \<and> (\<exists>k. conns w p = Some k \<and> may_read ev k)"
proof -
  obtain ds where "echo_inv (a, lfd, u) tmax n {} ds w" using assms(1) by (auto simp: settled_def)
  note i = echo_invD(11) [OF this]
  have reg: "\<exists>p. p_channels w fd = Some p \<and> p \<noteq> u \<and> (\<forall>k. conns w p = Some k \<longrightarrow> may_read ev k)" if "(fd, ev) \<in> set evs" for fd ev
    using assms(2,3) that by (auto simp: epoll_gives_def)
  have "FillActiveChannels w evs = Inr chs"
    unfolding chs_def by (rule fill_active) (use reg in fastforce)
  then have poll: "\<exists>w1. Poll (Some evs) w = Inr (chs, w1) \<and> (w1 = w \<or> w1 = w\<lparr>p_events_size := p_events_size w * 2\<rparr>)"
    by (auto simp: Poll_def chs_def)
  show "\<exists>w1. Poll (Some evs) w = Inr (chs, w1) \<and> settled (a, lfd, u) tmax n (w1\<lparr>iteration := j\<rparr>) \<and>
      conns w1 = conns w \<and> p_channels w1 = p_channels w \<and> timer_mgr w1 = timer_mgr w \<and> os_calls w1 = os_calls w"
  proof -
    obtain w1 where w1: "Poll (Some evs) w = Inr (chs, w1)" "w1 = w \<or> w1 = w\<lparr>p_events_size := p_events_size w * 2\<rparr>"
      using poll by blast
    have "settled (a, lfd, u) tmax n (w1\<lparr>iteration := j\<rparr>)"
      by (rule settled_same [OF assms(1)]) (use w1(2) in \<open>auto simp: same_rest_def server_rest_def InLoopThread_def\<close>)
    then show ?thesis using w1 by auto
  qed
  have same: "fd = fd'" if "p_channels w fd = Some p" "p_channels w fd' = Some p" "p \<noteq> u" for fd fd' p
    using i [OF that(1)] i [OF that(2)] that(3) assms(1)
    by (auto simp: settled_def echo_inv_def dest: spec [of _ p])
  have "distinct (map (\<lambda>fd. the (p_channels w fd)) (map fst evs))"
    using assms(3) reg same unfolding epoll_gives_def distinct_map [of "\<lambda>fd. the (p_channels w fd)"]
    by (auto simp: inj_on_def) (metis option.sel)
  then show "distinct (map fst chs)" by (simp add: chs_def comp_def case_prod_unfold)
  show "p = a \<or> p \<noteq> ch_ptr wakeup \<and> (\<exists>k. conns w p = Some k \<and> may_read ev k)" if "(p, ev) \<in> set chs" for p ev
  proof -
    have "(p, ev) \<in> (\<lambda>(fd, ev). (the (p_channels w fd), ev)) ` set evs" using that unfolding chs_def by (simp only: set_map)
    then obtain fd where fd: "(fd, ev) \<in> set evs" "p = the (p_channels w fd)" by auto
    then have "p_channels w fd = Some p" "p \<noteq> u" "\<forall>k. conns w p = Some k \<longrightarrow> may_read ev k" using reg [OF fd(1)] by auto
    then show ?thesis using i [of fd p] assms(2) by auto
  qed
qed

text \<open>A round, and what it does to the connections that were open after its events.\<close>

lemma echo_round:
  fixes w :: "(nat, 'z) server_world_scheme"
  assumes "settled (a, lfd, ch_ptr wakeup) tmax (n + length evs) w" "kind_net tmax os" "epoll_gives wakeup evs w"
    and "fresh_for os a wakeup w" "last_expire_time (timer_mgr w) \<le> now" "now \<le> tmax"
  defines "exec \<equiv> run_functor os (echo_calls os)" and "handle \<equiv> handle_active wakeup os (echo_calls os)"
  shows "\<exists>t w1. loop_round exec handle (Some evs, now) w = Some (Inr (t, w1)) \<and> settled (a, lfd, ch_ptr wakeup) tmax n w1 \<and>
     last_expire_time (timer_mgr w1) = now \<and>
     (evs = [] \<longrightarrow> (\<forall>c k. conns w c = Some k \<longrightarrow> c_state k = kConnected \<longrightarrow>
        (\<exists>k1. conns w1 c = Some k1 \<and> after_timers {c. due_goodbye now (timer_mgr w) c} c k k1)))"
proof -
  define chs where "chs = map (\<lambda>(fd, ev). (the (p_channels w fd), ev)) evs"
  note polled = polled_channels [OF assms(1) refl assms(3), folded chs_def]
  obtain w1 where w1: "Poll (Some evs) w = Inr (chs, w1)"
    "settled (a, lfd, ch_ptr wakeup) tmax (n + length evs) (w1\<lparr>iteration := size_add (iteration w1) 1\<rparr>)"
    "conns w1 = conns w" "p_channels w1 = p_channels w" "timer_mgr w1 = timer_mgr w" "os_calls w1 = os_calls w"
  proof -
    obtain w1 where "Poll (Some evs) w = Inr (chs, w1)" using polled(1) by blast
    then show ?thesis using polled(1) that by (metis Pair_inject sum.inject(2))
  qed
  define w2 where "w2 = w1\<lparr>iteration := size_add (iteration w1) 1\<rparr>"
  have w2: "settled (a, lfd, ch_ptr wakeup) tmax (n + length chs) w2" "conns w2 = conns w" "timer_mgr w2 = timer_mgr w"
    "fresh_for os a wakeup w2"
    using w1 assms(4) by (simp_all add: w2_def chs_def fresh_for_def)
  have "\<exists>w3. run_all handle chs w2 = Some (Inr w3) \<and> settled (a, lfd, ch_ptr wakeup) tmax n w3 \<and>
     last_expire_time (timer_mgr w3) = last_expire_time (timer_mgr w2)"
    unfolding handle_def
    by (rule handle_all [OF w2(1) assms(2)]) (use polled(2,3) w2(2,4) in auto)
  then obtain w3 where w3: "run_all handle chs w2 = Some (Inr w3)" "settled (a, lfd, ch_ptr wakeup) tmax n w3"
     "last_expire_time (timer_mgr w3) = last_expire_time (timer_mgr w2)" by blast
  have "last_expire_time (timer_mgr w3) \<le> now" using w3(3) w2(3) assms(5) by simp
  from functors_and_timers [OF w3(2) assms(2) this assms(6), folded exec_def] obtain w4 cs tm w5 where w5:
    "CallPendingFunctors exec w3 = Some (Inr w4)" "period_functor w3 = None"
    "TimerWheel_Step (timer_mgr w4) now = Inr (map F_say_goodbye cs, tm)"
    "run_all exec (map F_say_goodbye cs) (w4\<lparr>timer_mgr := tm\<rparr>) = Some (Inr w5)" "settled (a, lfd, ch_ptr wakeup) tmax n w5"
    "last_expire_time (timer_mgr w5) = now"
    "\<forall>c k. conns w3 c = Some k \<longrightarrow> c_state k = kConnected \<longrightarrow>
        (\<exists>k1. conns w5 c = Some k1 \<and> after_timers {c. due_goodbye now (timer_mgr w3) c} c k k1)" by blast
  have "loop_round exec handle (Some evs, now) w = Some (Inr (NextTimeout (timer_mgr w5) now, w5))"
    using w1(1) w3(1) w5(1-4) by (simp add: loop_round_def Let_def w2_def [symmetric] call_if_set_def del: One_nat_def)
  moreover have "w3 = w2" if "evs = []" using that w3(1) by (simp add: chs_def)
  ultimately show ?thesis using w5(5-7) w2(2,3) by auto
qed

section \<open>Properties\<close>

text \<open>A started loop with nothing but its wake-up channel, before the server is made.\<close>

definition bare_loop :: "unit channel \<Rightarrow> nat \<Rightarrow> (nat, 'z) server_world_scheme \<Rightarrow> bool" where
  "bare_loop wakeup t w \<longleftrightarrow>
     InLoopThread w \<and> functors w = [] \<and> period_functor w = None \<and> timer_mgr w = TimerWheel_init t \<and> conns w = Map.empty \<and>
     ran (p_channels w) \<subseteq> {ch_ptr wakeup}"

text \<open>The network lets the server listen on \<open>port\<close>.\<close>

definition can_listen :: "os_net \<Rightarrow> int \<Rightarrow> int \<Rightarrow> bool" where
  "can_listen os port lfd \<longleftrightarrow>
     (\<exists>sa. ToSockAddr (NetAddress_of_text ''0.0.0.0'' port) = Inr sa \<and>
        (\<forall>i. os_socket os i = lfd \<and> os_bind os i lfd sa \<and> os_listen os i lfd))"

lemma echo_starts:
  fixes w :: "(nat, 'z) server_world_scheme"
  assumes "bare_loop wakeup t w" "can_listen os port lfd" "kind_net tmax os" "p_channels w lfd = None"
    and "os_address os (os_calls w + 3) = a" "a \<noteq> ch_ptr wakeup" "t \<le> tmax" "tmax + 5000 - t < 2 ^ 31" "tmax + 5000 < 2 ^ 64"
    and "n \<le> 2 ^ 40"
  shows "\<exists>w1. echo_start os port 0 unset w = Some (Inr w1) \<and> settled (a, lfd, ch_ptr wakeup) tmax n w1 \<and>
     last_expire_time (timer_mgr w1) = t \<and> os_calls w1 = os_calls w + 4 \<and> conns w1 = Map.empty \<and>
     p_channels w1 = (p_channels w)(lfd \<mapsto> a)"
proof -
  define w0 where "w0 = server_set_close_callback (server_set_new_callback (server_set_read_callback
         (SetThreadNum 0 (TcpServer_init (NetAddress_of_text ''0.0.0.0'' port) unset w))))"
  note b = assms(1) [unfolded bare_loop_def]
  have w0: "InLoopThread w0" "functors w0 = []" "period_functor w0 = None" "timer_mgr w0 = TimerWheel_init t" "os_calls w0 = os_calls w"
    "p_channels w0 = p_channels w" "srv_local_addr w0 = NetAddress_of_text ''0.0.0.0'' port"
    "loop_thread_count (srv_pool w0) = 0" "srv_cccb w0" "srv_rcb w0" "srv_nccb w0" "conns w0 = Map.empty"
    "srv_connections w0 = Map.empty"
    using b by (simp_all add: w0_def server_set_new_callback_def server_set_read_callback_def TcpServer_init_def InLoopThread_def
        SetThreadNum_def server_set_close_callback_def EventLoopThreadPool_init_def)
  obtain sa where sa: "ToSockAddr (srv_local_addr w0) = Inr sa" "\<And>i. os_socket os i = lfd" "\<And>i. os_bind os i lfd sa"
    "\<And>i. os_listen os i lfd"
    using assms(2) w0(7) by (auto simp: can_listen_def)
  have "\<And>i. os_fcntl os i lfd" "p_channels w0 lfd = None" using assms(3,4) w0(6) by (simp_all add: kind_net_def)
  from Start_listens [OF w0(1) sa(2) this(2) sa(1,3,4) this(1), of "echo_calls os"] obtain w1 ch where w1:
    "TcpServer_Start os (echo_calls os) w0 = Some (Inr w1)" "InLoopThread w1" "functors w1 = functors w0"
    "period_functor w1 = period_functor w0" "timer_mgr w1 = timer_mgr w0" "srv_pool w1 = LoopPool_Start (srv_pool w0)"
    "srv_rcb w1 = srv_rcb w0" "srv_cccb w1 = srv_cccb w0" "srv_nccb w1 = srv_nccb w0" "ac_nccb (srv_acceptor w1)"
    "ac_channel (srv_acceptor w1) = Some ch" "ch_ptr ch = os_address os (os_calls w0 + 3)"
    "ch_rcb ch = Some ()" "ch_wcb ch = None" "ch_ecb ch = None" "conns w1 = conns w0" "srv_connections w1 = srv_connections w0"
    "p_channels w1 = (p_channels w0)(lfd \<mapsto> os_address os (os_calls w0 + 3))" "os_calls w1 = os_calls w0 + 4" by blast
  have "echo_inv (a, lfd, ch_ptr wakeup) tmax n {} [] w1"
  proof (rule echo_invI [OF _ _ assms(10,6)])
    show "serving a w1" using w1 w0 assms(5) by (simp add: serving_def)
    show "timers_fit tmax n (timer_mgr w1)"
      using init_wheel_ok [of t] assms(7-10) w0(4) w1(5)
      by (simp add: timers_fit_def) (simp add: TimerWheel_init_def hands_def)
    show "d = a \<and> fd = lfd \<or> d = ch_ptr wakeup \<or> (\<exists>k. conns w1 d = Some k \<and> c_fd k = fd)" if "p_channels w1 fd = Some d" for fd d
      using that w1(18) w0(5,6) assms(5) b by (auto simp: ran_def split: if_splits)
  qed (use w0 w1 in simp_all)
  then show ?thesis
    using w1 w0 assms(5) by (intro exI [of _ w1]) (simp add: settled_def resting_def echo_start_def w0_def TimerWheel_init_def)
qed

text \<open>Runs of the loop, counted by the events they handled.\<close>

definition round_ok ::
  "os_net \<Rightarrow> nat \<Rightarrow> unit channel \<Rightarrow> nat \<Rightarrow> (int \<times> 32 word) list \<Rightarrow> nat \<Rightarrow> (nat, 'z) server_world_scheme \<Rightarrow> bool" where
  "round_ok os a wakeup tmax evs now w \<longleftrightarrow>
     epoll_gives wakeup evs w \<and> fresh_for os a wakeup w \<and> last_expire_time (timer_mgr w) \<le> now \<and> now \<le> tmax"

definition echo_loop_round ::
  "os_net \<Rightarrow> unit channel \<Rightarrow> (int \<times> 32 word) list \<Rightarrow> nat \<Rightarrow> (nat, 'z) server_world_scheme \<Rightarrow>
   (int \<times> (nat, 'z) server_world_scheme) run" where
  "echo_loop_round os wakeup evs now =
     loop_round (run_functor os (echo_calls os)) (handle_active wakeup os (echo_calls os)) (Some evs, now)"

inductive echo_runs ::
  "os_net \<Rightarrow> nat \<Rightarrow> unit channel \<Rightarrow> nat \<Rightarrow> (nat, 'z) server_world_scheme \<Rightarrow> nat \<Rightarrow> (nat, 'z) server_world_scheme \<Rightarrow> bool"
  for os a wakeup tmax w0 where
  runs_start: "echo_runs os a wakeup tmax w0 0 w0"
| runs_round: "echo_runs os a wakeup tmax w0 m w \<Longrightarrow> round_ok os a wakeup tmax evs now w \<Longrightarrow>
    echo_loop_round os wakeup evs now w = Some (Inr (t, w1)) \<Longrightarrow> echo_runs os a wakeup tmax w0 (m + length evs) w1"

lemma echo_runs_settled:
  assumes "echo_runs os a wakeup tmax w0 m w" "settled (a, lfd, ch_ptr wakeup) tmax n w0" "kind_net tmax os"
  shows "m \<le> n \<longrightarrow> settled (a, lfd, ch_ptr wakeup) tmax (n - m) w"
  using assms(1)
proof (induction rule: echo_runs.induct)
  case runs_start
  then show ?case using assms(2) by simp
next
  case (runs_round m w evs now t w1)
  show ?case
  proof
    assume "m + length evs \<le> n"
    then have "settled (a, lfd, ch_ptr wakeup) tmax (n - (m + length evs) + length evs) w" using runs_round.IH by simp
    from echo_round [OF this assms(3), of now] runs_round.hyps(2,3)
    show "settled (a, lfd, ch_ptr wakeup) tmax (n - (m + length evs)) w1"
      by (auto simp: round_ok_def echo_loop_round_def)
  qed
qed

text \<open>C8: the echo server is well typed and does not stop. In every state its loop reaches after \<open>main\<close>
  has started it, whatever clients connect, send and close, the context of each open connection is
  the id of a pending timer that will say goodbye to this connection (so \<open>any_cast\<close> and \<open>RemoveTimer\<close>
  in \<open>OnMessage\<close> do not fail), and the next round returns without a fault. Between the rounds the state
  is \<open>settled\<close>, the hypothesis of the next two properties. The network is one whose
  calls do not fail where a failure is fatal; the bound on the events keeps the buffers below the
  greatest size of a vector.\<close>

theorem echo_server_well_typed:
  fixes w :: "(nat, 'z) server_world_scheme"
  assumes "bare_loop wakeup t0 w" "can_listen os port lfd" "kind_net tmax os" "p_channels w lfd = None"
    and "a = os_address os (os_calls w + 3)" "a \<noteq> ch_ptr wakeup"
    and "t0 \<le> tmax" "tmax + 5000 - t0 < 2 ^ 31" "tmax + 5000 < 2 ^ 64"
    and "echo_start os port 0 unset w = Some (Inr w0)" "echo_runs os a wakeup tmax w0 m w1"
    and "round_ok os a wakeup tmax evs now w1" "m + length evs \<le> 2 ^ 40"
  shows "(\<forall>c k. conns w1 c = Some k \<longrightarrow> c_state k = kConnected \<longrightarrow>
       (\<exists>i t. c_ctx k = Some i \<and> timers (timer_mgr w1) i = Some t \<and> cb t = F_say_goodbye c)) \<and>
     settled (a, lfd, ch_ptr wakeup) tmax (2 ^ 40 - m) w1 \<and>
     (\<exists>timeout w2. echo_loop_round os wakeup evs now w1 = Some (Inr (timeout, w2)))"
proof (intro conjI)
  have "settled (a, lfd, ch_ptr wakeup) tmax (2 ^ 40) w0"
    using echo_starts [OF assms(1-4) assms(5) [symmetric] assms(6-9), of "2 ^ 40" unset] assms(10) by auto
  then have s: "settled (a, lfd, ch_ptr wakeup) tmax (2 ^ 40 - m) w1"
    using echo_runs_settled [OF assms(11) _ assms(3)] assms(13) by auto
  then show "settled (a, lfd, ch_ptr wakeup) tmax (2 ^ 40 - m) w1" .
  from s obtain ds where inv: "echo_inv (a, lfd, ch_ptr wakeup) tmax (2 ^ 40 - m) {} ds w1" by (auto simp: settled_def)
  show "\<forall>c k. conns w1 c = Some k \<longrightarrow> c_state k = kConnected \<longrightarrow>
       (\<exists>i t. c_ctx k = Some i \<and> timers (timer_mgr w1) i = Some t \<and> cb t = F_say_goodbye c)"
    using inv_served(6) [OF inv] by (auto simp: armed_def)
  have "settled (a, lfd, ch_ptr wakeup) tmax (2 ^ 40 - m - length evs + length evs) w1" using s assms(13) by simp
  from echo_round [OF this assms(3), of now] assms(12)
  show "\<exists>timeout w2. echo_loop_round os wakeup evs now w1 = Some (Inr (timeout, w2))"
    by (auto simp: round_ok_def echo_loop_round_def)
qed

text \<open>C9: the server echoes. When bytes arrive on an open connection, exactly these bytes are put
  behind what still waits to be written to it, the socket is watched for writing, and the old timer
  of the connection is replaced by one that expires 5 seconds after the present time.\<close>

theorem echo_sends_back:
  fixes w :: "(nat, 'z) server_world_scheme"
  assumes "settled ctl tmax (Suc n) w" "conns w c = Some k" "c_state k = kConnected" "kind_net tmax os" "data \<noteq> []"
    and "os_readv os (os_calls w) (length (internal_buf (c_read_buf k)) - write_index (c_read_buf k) + local_buf_len) = Inr data"
  shows "\<exists>w1 k1 i j. ReadFromPeer os (server_user_calls os (echo_calls os)) c w = Some (Inr w1) \<and>
     conns w1 = (conns w)(c \<mapsto> k1) \<and> c_state k1 = kConnected \<and> is_writing (c_channel k1) \<and> net_log w1 = net_log w \<and>
     unread (c_write_buf k1) = unread (c_write_buf k) @ data \<and> c_ctx k = Some i \<and> c_ctx k1 = Some j \<and>
     timers (timer_mgr w1) = (timers (timer_mgr w))(i := None, j \<mapsto> \<lparr>timer_id = j,
       expire_time = max (last_expire_time (timer_mgr w)) (os_now os (os_calls w + 1) + 5000), cb = F_say_goodbye c\<rparr>)"
proof -
  obtain ds where "echo_inv ctl tmax (Suc n) {} ds w" using assms(1) by (auto simp: settled_def)
  moreover have "on_read (echo_calls os) = echo_OnMessage os" by (simp add: echo_calls_def)
  ultimately show ?thesis
    using ReadFromPeer_echoes [OF _ assms(2-4) _ assms(5,6)] unfolding goodbye_timer_def by blast
qed

text \<open>C10: an idle client is told goodbye. In a round without events every open connection whose timer has
  expired gets the goodbye behind what waits to be written, is shut for reading and handed to its
  destruction; every other open connection is left as it is.\<close>

theorem echo_dismisses_idle:
  fixes w :: "(nat, 'z) server_world_scheme"
  assumes "settled (a, lfd, ch_ptr wakeup) tmax n w" "kind_net tmax os" "fresh_for os a wakeup w"
    and "last_expire_time (timer_mgr w) \<le> now" "now \<le> tmax"
  shows "\<exists>timeout w1. echo_loop_round os wakeup [] now w = Some (Inr (timeout, w1)) \<and>
     (\<forall>c k. conns w c = Some k \<and> c_state k = kConnected \<longrightarrow> (\<exists>k1. conns w1 c = Some k1 \<and>
        (if due_goodbye now (timer_mgr w) c
         then c_state k1 = kDisconnected \<and> unread (c_write_buf k1) = unread (c_write_buf k) @ goodbye \<and>
           is_writing (c_channel k1) \<and> \<not> is_reading (c_channel k1) \<and> F_destroy c \<in> set (functors w1)
         else k1 = k)))"
proof -
  have "epoll_gives wakeup [] w" by (simp add: epoll_gives_def)
  from echo_round [OF _ assms(2) this assms(3-5), of lfd n] assms(1) obtain timeout w1 where w1:
    "echo_loop_round os wakeup [] now w = Some (Inr (timeout, w1))" "settled (a, lfd, ch_ptr wakeup) tmax n w1"
    "\<And>c k. conns w c = Some k \<Longrightarrow> c_state k = kConnected \<Longrightarrow>
        \<exists>k1. conns w1 c = Some k1 \<and> after_timers {c. due_goodbye now (timer_mgr w) c} c k k1"
    by (auto simp: echo_loop_round_def)
  obtain ds where ds: "functors w1 = map F_destroy ds" "echo_inv (a, lfd, ch_ptr wakeup) tmax n {} ds w1"
    using w1(2) by (auto simp: settled_def)
  have closed: "\<not> is_reading (c_channel k1) \<and> F_destroy c \<in> set (functors w1)"
    if "conns w1 c = Some k1" "c_state k1 = kDisconnected" for c k1
    using echo_invD(7) [OF ds(2) that(1)] that(2) ds(1) by (simp add: conn_fits_def echo_shape_def)
  show ?thesis
  proof (rule exI, rule exI, rule conjI [OF w1(1)], rule allI, rule allI, rule impI)
    fix c k assume "conns w c = Some k \<and> c_state k = kConnected"
    then obtain k1 where k1: "conns w1 c = Some k1" "after_timers {c. due_goodbye now (timer_mgr w) c} c k k1" "c_state k = kConnected"
      using w1(3) by blast
    then show "\<exists>k1. conns w1 c = Some k1 \<and>
        (if due_goodbye now (timer_mgr w) c
         then c_state k1 = kDisconnected \<and> unread (c_write_buf k1) = unread (c_write_buf k) @ goodbye \<and>
           is_writing (c_channel k1) \<and> \<not> is_reading (c_channel k1) \<and> F_destroy c \<in> set (functors w1)
         else k1 = k)"
      using closed [OF k1(1)] by (intro exI [of _ k1]) (auto simp: after_timers_def split: if_splits)
  qed
qed

section \<open>Witnesses\<close>

text \<open>A network where every socket has bytes to read, the server started on it, and a connection.\<close>

definition echo_net :: os_net where
  "echo_net = (easy_net (Inr []) None)\<lparr>os_readv := \<lambda>i n. Inr (take n ''hi''), os_fcntl := \<lambda>i fd. True, os_accept := \<lambda>i. int i + 100\<rparr>"

definition echo_wakeup :: "unit channel" where
  "echo_wakeup = Channel_init 1 4"

definition echo_demo :: "nat server_world" where
  "echo_demo = (case echo_start echo_net 80 0 0 empty_server of Some (Inr w) \<Rightarrow> w | _ \<Rightarrow> empty_server)"

definition echo_demo_open :: "nat server_world" where
  "echo_demo_open = (case TcpServer_OnNewConnection echo_net (echo_calls echo_net) 2 5 echo_demo of Some (Inr w) \<Rightarrow> w | _ \<Rightarrow> echo_demo)"

lemma echo_net_kind: "kind_net 10000 echo_net" "can_listen echo_net 80 3"
proof -
  show "kind_net 10000 echo_net"
    by (simp add: kind_net_def echo_net_def easy_net_def os_takes_def per_event_def min_def)
  have "NetAddress_of_text ''0.0.0.0'' 80 = NetAddress_of_text (dotted (0, 0, 0, 0)) 80"
    by (simp add: dotted_def decimal.simps [of 0] char_of_def bit_numeral_rec bit_0)
  then have "\<exists>sa. ToSockAddr (NetAddress_of_text ''0.0.0.0'' 80) = Inr sa"
    by (simp add: ToSockAddr_def)
  then show "can_listen echo_net 80 3" by (auto simp: can_listen_def echo_net_def easy_net_def)
qed

lemma bare_empty: "bare_loop echo_wakeup 0 (empty_server :: nat server_world)"
  by (simp add: bare_loop_def empty_server_def world.defs event_loop.defs poller.defs idle_loop_def InLoopThread_def Poller_init_def)

lemma echo_demo_started:
  "echo_start echo_net 80 0 0 empty_server = Some (Inr echo_demo)" "settled (13, 3, 1) 10000 1000 echo_demo"
  "last_expire_time (timer_mgr echo_demo) = 0" "os_calls echo_demo = 4" "conns echo_demo = Map.empty" "p_channels echo_demo = [3 \<mapsto> 13]"
proof -
  have e: "p_channels (empty_server :: nat server_world) = Map.empty" "os_address echo_net 3 = 13" "ch_ptr echo_wakeup = 1"
    by (simp_all add: empty_server_def world.defs event_loop.defs poller.defs idle_loop_def Poller_init_def echo_net_def easy_net_def
        echo_wakeup_def Channel_init_def)
  have "\<exists>w1. echo_start echo_net 80 0 0 (empty_server :: nat server_world) = Some (Inr w1) \<and>
     settled (13, 3, ch_ptr echo_wakeup) 10000 1000 w1 \<and> last_expire_time (timer_mgr w1) = 0 \<and>
     os_calls w1 = os_calls (empty_server :: nat server_world) + 4 \<and> conns w1 = Map.empty \<and>
     p_channels w1 = (p_channels (empty_server :: nat server_world))(3 \<mapsto> 13)"
    by (rule echo_starts [OF bare_empty echo_net_kind(2,1)]) (simp_all add: e)
  then show "echo_start echo_net 80 0 0 empty_server = Some (Inr echo_demo)" "settled (13, 3, 1) 10000 1000 echo_demo"
    "last_expire_time (timer_mgr echo_demo) = 0" "os_calls echo_demo = 4" "conns echo_demo = Map.empty"
    "p_channels echo_demo = [3 \<mapsto> 13]"
    by (auto simp: echo_demo_def e)
qed

lemma echo_demo_round: "round_ok echo_net 13 echo_wakeup 10000 [(3, EPOLLIN)] 7 echo_demo"
  by (auto simp: round_ok_def epoll_gives_def fresh_for_def echo_demo_started echo_net_def easy_net_def echo_wakeup_def Channel_init_def)

theorem echo_server_well_typed_witness:
  "\<exists>w. echo_runs echo_net 13 echo_wakeup 10000 echo_demo 0 w \<and>
     (\<forall>c k. conns w c = Some k \<longrightarrow> c_state k = kConnected \<longrightarrow>
       (\<exists>i t. c_ctx k = Some i \<and> timers (timer_mgr w) i = Some t \<and> cb t = F_say_goodbye c)) \<and>
     settled (13, 3, ch_ptr echo_wakeup) 10000 (2 ^ 40 - 0) w \<and>
     (\<exists>timeout w2. echo_loop_round echo_net echo_wakeup [(3, EPOLLIN)] 7 w = Some (Inr (timeout, w2)))"
proof (intro exI [of _ echo_demo] conjI [OF runs_start]
    echo_server_well_typed [OF bare_empty echo_net_kind(2,1) _ _ _ _ _ _ echo_demo_started(1) runs_start echo_demo_round])
qed (simp_all add: empty_server_def world.defs event_loop.defs poller.defs idle_loop_def Poller_init_def echo_net_def easy_net_def
    echo_wakeup_def Channel_init_def)

lemma echo_demo_connected:
  "settled (13, 3, 1) 10000 999 echo_demo_open" "\<exists>k. conns echo_demo_open 2 = Some k \<and> c_state k = kConnected"
  "p_channels echo_demo_open = [3 \<mapsto> 13, 5 \<mapsto> 2]" "last_expire_time (timer_mgr echo_demo_open) = 0"
  "conns echo_demo_open d = None \<longleftrightarrow> d \<noteq> 2" "4 \<le> os_calls echo_demo_open"
proof -
  have s: "settled (13, 3, 1) 10000 (Suc 999) echo_demo" using echo_demo_started(2) by simp
  have "\<exists>w1 k. TcpServer_OnNewConnection echo_net (echo_calls echo_net) 2 5 echo_demo = Some (Inr w1) \<and> settled (13, 3, 1) 10000 999 w1 \<and>
     conns w1 = (conns echo_demo)(2 \<mapsto> k) \<and> c_state k = kConnected \<and> p_channels w1 = (p_channels echo_demo)(5 \<mapsto> 2) \<and>
     last_expire_time (timer_mgr w1) = last_expire_time (timer_mgr echo_demo) \<and> os_calls echo_demo \<le> os_calls w1"
    by (rule accept_connection [OF s echo_net_kind(1)]) (simp_all add: echo_demo_started)
  then show "settled (13, 3, 1) 10000 999 echo_demo_open" "\<exists>k. conns echo_demo_open 2 = Some k \<and> c_state k = kConnected"
    "p_channels echo_demo_open = [3 \<mapsto> 13, 5 \<mapsto> 2]" "last_expire_time (timer_mgr echo_demo_open) = 0"
    "conns echo_demo_open d = None \<longleftrightarrow> d \<noteq> 2" "4 \<le> os_calls echo_demo_open"
    by (auto simp: echo_demo_open_def echo_demo_started)
qed

theorem echo_sends_back_witness:
  "\<exists>w1 k1 i j. ReadFromPeer echo_net (server_user_calls echo_net (echo_calls echo_net)) 2 echo_demo_open = Some (Inr w1) \<and>
     conns w1 = (conns echo_demo_open)(2 \<mapsto> k1) \<and> c_state k1 = kConnected \<and> is_writing (c_channel k1) \<and>
     net_log w1 = net_log echo_demo_open \<and>
     unread (c_write_buf k1) = unread (c_write_buf (the (conns echo_demo_open 2))) @ ''hi'' \<and>
     c_ctx (the (conns echo_demo_open 2)) = Some i \<and> c_ctx k1 = Some j \<and>
     timers (timer_mgr w1) = (timers (timer_mgr echo_demo_open))(i := None, j \<mapsto> \<lparr>timer_id = j,
       expire_time = max (last_expire_time (timer_mgr echo_demo_open)) (os_now echo_net (os_calls echo_demo_open + 1) + 5000),
       cb = F_say_goodbye 2\<rparr>)"
proof (rule echo_sends_back [where ctl = "(13, 3, 1)" and tmax = 10000 and n = 998])
  show "settled (13, 3, 1) 10000 (Suc 998) echo_demo_open" using echo_demo_connected(1) by simp
  show "conns echo_demo_open 2 = Some (the (conns echo_demo_open 2))" "c_state (the (conns echo_demo_open 2)) = kConnected"
    using echo_demo_connected(2) by auto
qed (simp_all add: echo_net_kind, simp add: echo_net_def easy_net_def local_buf_len_def)

theorem echo_dismisses_idle_witness:
  "\<exists>timeout w1. echo_loop_round echo_net echo_wakeup [] 6000 echo_demo_open = Some (Inr (timeout, w1)) \<and>
     (\<forall>c k. conns echo_demo_open c = Some k \<and> c_state k = kConnected \<longrightarrow> (\<exists>k1. conns w1 c = Some k1 \<and>
        (if due_goodbye 6000 (timer_mgr echo_demo_open) c
         then c_state k1 = kDisconnected \<and> unread (c_write_buf k1) = unread (c_write_buf k) @ goodbye \<and>
           is_writing (c_channel k1) \<and> \<not> is_reading (c_channel k1) \<and> F_destroy c \<in> set (functors w1)
         else k1 = k)))"
proof (rule echo_dismisses_idle [where a = 13 and lfd = 3 and n = 999, OF _ echo_net_kind(1)])
  show "settled (13, 3, ch_ptr echo_wakeup) 10000 999 echo_demo_open"
    using echo_demo_connected(1) by (simp add: echo_wakeup_def Channel_init_def)
  show "fresh_for echo_net 13 echo_wakeup echo_demo_open"
    using echo_demo_connected(6)
    by (auto simp: fresh_for_def echo_demo_connected(3,5) echo_net_def easy_net_def echo_wakeup_def Channel_init_def)
qed (simp_all add: echo_demo_connected)

end
