(* ===== verification/Spec2Isabelle.thy ===== *)
theory Spec2Isabelle
  imports Io_Buffer Slice_Automaton Ring_Buffer Process_Bus Timer_Wheel_Laws Http_Connection Http_Main
    Blocking_Queue Event_Loop_Thread Time_Base Object_Pool Tcp_Client_Laws Count_Client Echo_Server_Laws
begin

text \<open>
  A verification library for the network library fx, the programs of its examples and the message
  bus beside it.

  The program. An \<open>EventLoop\<close> (src/fx_event_loop.cc) runs in one thread: it polls descriptors
  through a \<open>Poller\<close> (src/fx_poller.cc), lets the \<open>Channel\<close> of each ready descriptor call its
  callbacks (src/fx_channel.cc), runs the functors queued for it, and steps the \<open>TimerWheel\<close>
  (src/fx_timer_wheel.cc). A \<open>TcpConnection\<close> (src/fx_tcp_connection.cc) owns a channel and two
  \<open>Buffer\<close>s (src/fx_buffer.cc): bytes read go to its read callback, bytes written wait in the
  buffer until the descriptor can be written. A \<open>TcpServer\<close> (src/fx_tcp_server.cc) takes
  connections from its \<open>Acceptor\<close> (src/fx_acceptor.cc) and spreads them over an
  \<open>EventLoopThreadPool\<close> of \<open>EventLoopThread\<close>s; a \<open>TcpClient\<close> (src/fx_tcp_client.cc) makes one with
  its \<open>Connector\<close>. Three programs sit on top. The server of examples/httpserver parses requests
  with \<open>HTTPCodec\<close> from the read buffer with \<open>Slice::find\<close> (src/fx_slice.cc), and the modules of
  \<open>HTTPServer\<close> check, rewrite and answer them. The server of examples/server sends back what it
  gets and dismisses idle clients by a timer; the client of examples/client counts. Beside this
  stand a message bus between processes (base/bus: \<open>ProcessBusManager\<close>, \<open>ProcessBus\<close> and the ring
  buffer in shared memory they use), a pid file (base/pidfile), a blocking queue and an object pool.

  The theories, in the order of their imports:
  \<^item> \<open>Fx_Prelude\<close>: faults, results, runs that may not end, fixed-width arithmetic, arrays.
  \<^item> \<open>Queues\<close>: the contracts of the byte queue and of the message queue, as locales, with the
    runners of operation sequences and their first-in first-out lemmas.
  \<^item> \<open>Io_Buffer\<close> (fx_buffer.cc), \<open>Slice\<close> (fx_slice.cc), \<open>Ring_Buffer\<close> (ring_buffer.cc),
    \<open>Process_Bus\<close> (process_bus.cc, process_bus_manager.cc): the data structures. The buffer
    interprets the byte queue, the ring and the bus the message queue. The search of \<open>Slice\<close> is
    compared with the specification of \<open>std::string::find\<close>; \<open>Slice_Automaton\<close> does the same for the
    automaton of \<open>InternalFind\<close>.
  \<^item> \<open>Monitor\<close>: a mutex with a condition variable, and threads that take atomic steps under it.
    \<open>Blocking_Queue\<close> (fx_blocking_queue.hpp) and \<open>Event_Loop_Thread\<close> (fx_event_loop_thread.cc) are
    step relations over it, with invariants by rule induction over every interleaving.
  \<^item> \<open>Timer_Service\<close>: the contract of a timer service with an abstract agenda of pending
    timers; \<open>Timer_Wheel\<close>: the wheels, hands and slots of fx_timer_wheel.cc;
    \<open>Timer_Wheel_Laws\<close>: their invariant, the positions as a mixed-radix clock, and the
    refinement of the agenda. \<open>Time_Base\<close> (fx_base.cc): the clock, with the rounding of its doubles.
  \<^item> \<open>Stream_Decoder\<close>: the contract of a decoder that is fed a byte stream in packets, and the
    lemma that the cuts do not matter; \<open>Http_Message\<close> (http_request.cc, http_response.cc,
    http_utilities.cc), \<open>Http_Codec\<close> (http_codec.cc), \<open>Http_Codec_Laws\<close> (safety, round trip,
    independence of the cuts).
  \<^item> \<open>Http_Server\<close> (http_server.cc and the three modules) and \<open>Http_Server_Laws\<close>: what each
    request is answered with, and which paths are opened.
  \<^item> \<open>Event_Loop\<close> (fx_channel.cc, fx_poller.cc, fx_event_loop.cc) and \<open>Event_Loop_Laws\<close>: the
    kernel's set of descriptors mirrors the registrations; functors are not lost between threads.
  \<^item> \<open>Net_Address\<close> (fx_net_address.cc): addresses as text and as \<open>sockaddr_in\<close>, and their round trip.
    \<open>Pid_File\<close> (pidfile.cc) and \<open>Object_Pool\<close> (fx_object_pool.hpp).
  \<^item> \<open>Tcp_Connection\<close> (fx_tcp_connection.cc, fx_socket_op.cc) and \<open>Tcp_Connection_Laws\<close>;
    \<open>Tcp_Server\<close> (fx_acceptor.cc, fx_tcp_server.cc, fx_event_loop_thread_pool.cc) and
    \<open>Tcp_Server_Laws\<close>: delivery, the life of a connection, its end. \<open>Tcp_Client\<close> (fx_connector.cc,
    fx_tcp_client.cc) and \<open>Tcp_Client_Laws\<close>: a connection attempt that succeeds, and one refused.
    \<open>Count_Client\<close> (examples/client/main.cc): the client that counts, up to the largest \<open>int\<close>.
    \<open>Tcp_Rounds\<close>: the server from \<open>Start\<close> on, and rounds of the loop in which it accepts, reads,
    writes and closes.
  \<^item> \<open>Http_Connection\<close>: the pipeline of the HTTP server as the callbacks of the TCP server. The
    theorem of this theory follows one request from the accepted descriptor to its close.
  \<^item> \<open>Server_Pool\<close>: the server with its pool, the base loop and the loops of the pool as threads that
    are interleaved in every way; \<open>Http_Main\<close> (examples/httpserver/src/main.cc and the wiring of
    http_server.cc): how the HTTP server spreads its connections over eight loops.
  \<^item> \<open>Echo_Server\<close> (examples/server/main.cc) and \<open>Echo_Server_Laws\<close>: an
    invariant of the server, its loop, its connections and its timers together, which every round of
    the loop keeps.

  How the model corresponds to the code. A class is a record with the class's members, an
  operation is one definition with the branches of the source in their order. A failed \<open>assert\<close>,
  a \<open>PCHECK\<close>, an exception nobody catches and an access outside an object are values of \<open>fault\<close>;
  the build keeps the assertions, so they are evaluated here. A pointer into a buffer is an
  index, a pointer to a connection a natural number into the store \<open>conns\<close>, a bound functor a
  constructor of \<open>loop_functor\<close>. The state of the loop, of the connections and of the server are
  records that extend one another, so an operation of the poller is used as it is on the state of
  the server. \<open>size_t\<close> and \<open>int\<close> are numbers with their wrap-around written out; bytes in the ring
  are 8-bit words, bytes on a connection are characters.

  Loops. Loops that end are structural recursions or come with a measure. The loops that need not
  end (the search of \<open>Slice\<close>, the parsing loop, \<open>write\<close> and \<open>sendfile\<close>, the event loop)
  are \<open>partial_function (option)\<close>: \<open>None\<close> means that the code does
  not return, and the theorems that give results state that it does. No fuel is used.

  Interfaces. What one component relies on in another is a locale: the byte queue and the message queue
  (\<open>Queues\<close>), the timer service, the stream decoder, the monitor, and the callback that sets up a
  connection (\<open>connection_setup\<close> in \<open>Server_Pool\<close>). Each is interpreted on the definitions of the
  component that provides it, in that component's theory.

  Parameters. Code outside the repository is an argument of the definitions: Boost's string
  functions (\<open>boost\<close>, with \<open>boost_documented\<close> for what its documentation says and
  \<open>reference_boost\<close> as an instance), its pool and its lexical cast, the file system calls of the
  HTTP server (\<open>posix\<close>), those of a connection and of the sockets (\<open>os_net\<close>, the answer to the n-th
  call), those of the bus (\<open>bus_os\<close>), the clock, the date string and what \<open>epoll_wait\<close> returns. A
  call that changes the outside leaves an event in \<open>net_log\<close> or \<open>epoll_calls\<close>.

  Bounds. Buffers are below the greatest size of a vector, \<open>vector_max_size\<close>; the timer wheel is
  followed within its range of \<open>2 ^ 31\<close> ms, and \<open>Step_overflow_faults\<close> shows what happens at its end;
  \<open>request_served\<close> and the properties of the echo server are for servers whose connections stay in
  the base loop (no threads in the pool); \<open>request_served\<close> takes a request that one \<open>readv\<close> can bring (64 KiB) and a file below 1 MiB, the
  size from which the server changes to \<open>sendfile\<close>, and its three rounds are within the range of
  the wheel; the properties of the echo server hold for the first \<open>2 ^ 40\<close> events of its loop, with at
  most \<open>per_event\<close> (1 MiB) read at once, so that no buffer reaches the greatest size, and up to a time
  \<open>tmax\<close> within the range of the wheel; a frame of the ring fits with its header (\<open>ring_fits\<close>), and the
  ring's error theorems show what happens to the others.

  Not modelled. Logging. \<open>setsockopt\<close> in the acceptor, whose result is not used. \<open>ThreadFunc\<close> of the
  echo server and \<open>Daemonize\<close> of the HTTP server, called by nobody; the benchmark of the object pool,
  which prints how long it takes; the unit tests. Destructors with an empty body. Threads
  other than the loop's appear as steps between those of the loop, which is what the mutex of its
  queue of functors allows, as the step relations of the two monitors, and in \<open>Server_Pool\<close> until
  the connections are read from; what follows on a connection is proved for a server with the one base
  loop. Races on the unprotected parts are outside the model, and so is a second process on a ring
  while an operation runs.
\<close>

text \<open>C1: the server serves a request, from the listening socket to the close. In three rounds of
  the event loop a client is accepted, the bytes of its GET request arrive and are parsed, the
  file is read, and the response is written: what goes to the socket is the head of a 200
  response followed by the bytes of the file. Then the socket is shut and closed, nothing of the
  connection is left, and the server listens again as before. After the first round the
  connection is watched for reading, after the second for writing.\<close>

theorem request_served:
  fixes w :: "(parsing_state, 'z) server_world_scheme"
  assumes "listening a lfd t x w" "srv_connections w fd = None" "p_channels w fd = None"
    and "c = os_address os (os_calls w + 2)" "c \<noteq> a" "c \<noteq> ch_ptr wakeup" "a \<noteq> ch_ptr wakeup"
    and "\<And>i. os_accept os i = fd" "\<And>i. os_fcntl os i fd" "os_accepts os" "\<And>i. os_shutdown os i"
    and "\<And>i. os_getsockname os i fd \<noteq> None" "\<And>i. os_getpeername os i fd \<noteq> None"
    and "boost_documented bo" "request_ok p major minor hs" "request = render_request ''GET'' p major minor hs []"
    and "length request \<le> local_buf_len" "\<And>i n. os_readv os i n = Inr request"
    and "verdict psx base ''GET'' p major minor (map_of (lowered hs) ''host'') = Inr q"
    and "sys_stat psx (c_str (base @ q)) = Inr sb" "st_size sb < zero_copy_file_min_size"
    and "0 \<le> sys_open psx (c_str (base @ q))"
    and "sys_pread psx (sys_open psx (c_str (base @ q))) (st_size sb) = Some bytes" "length bytes = st_size sb"
    and "length (EncodeResponse bo date (file_response bytes)) \<le> 2 ^ 60"
    and "t \<le> t1" "t1 \<le> t2" "t2 \<le> t3" "x + (t3 - t) < 2 ^ 31"
    and "v = http_calls bo date (file_server psx base) os"
    and "round = (\<lambda>ev now. loop_round (run_functor os v) (handle_active wakeup os v) (Some [ev], now))"
  shows "\<exists>w1 w2 w3 k1 k2 chunks.
     round (lfd, EPOLLIN) t1 w = Some (Inr (- 1, w1)) \<and> conns w1 c = Some k1 \<and> is_reading (c_channel k1) \<and>
     round (fd, EPOLLIN) t2 w1 = Some (Inr (- 1, w2)) \<and> conns w2 c = Some k2 \<and> is_writing (c_channel k2) \<and>
     round (fd, EPOLLOUT) t3 w2 = Some (Inr (- 1, w3)) \<and>
     net_log w3 = net_log w @ map (Wrote fd) chunks @ [Shut_read fd, Shut_write fd, Fd_closed fd] \<and>
     concat chunks = EncodeResponse bo date (file_response bytes) @ bytes \<and>
     listening a lfd t3 (x + (t3 - t)) w3 \<and>
     conns w3 c = None \<and> srv_connections w3 = srv_connections w \<and> p_channels w3 = p_channels w"
proof -
  obtain names where names: "named os (os_calls w + 2) fd names" using assms(12,13) by (rule named_known)
  have "request \<noteq> []" by (simp add: assms(16) render_request_def HEADER_SEP_def)
  moreover have "length (EncodeResponse bo date (file_response bytes)) + length bytes \<le> 2 ^ 61"
    using assms(21,24,25) by (simp add: zero_copy_file_min_size_def)
  moreover have "answers bo date (file_server psx base) request (EncodeResponse bo date (file_response bytes)) bytes"
    unfolding assms(16) by (rule file_answers [OF assms(14,15,19-24)])
  ultimately show ?thesis
    unfolding assms(30,31)
    by (intro three_rounds [OF assms(1,4-9,2,3,10,11) _ _ assms(17,18) _ assms(26-29) names])
qed

theorem request_served_witness:
  "\<exists>w1 w2 w3 k1 k2 chunks.
     demo_round (3, EPOLLIN) 10 demo_http = Some (Inr (- 1, w1)) \<and> conns w1 16 = Some k1 \<and> is_reading (c_channel k1) \<and>
     demo_round (5, EPOLLIN) 20 w1 = Some (Inr (- 1, w2)) \<and> conns w2 16 = Some k2 \<and> is_writing (c_channel k2) \<and>
     demo_round (5, EPOLLOUT) 30 w2 = Some (Inr (- 1, w3)) \<and>
     net_log w3 = net_log demo_http @ map (Wrote 5) chunks @ [Shut_read 5, Shut_write 5, Fd_closed 5] \<and>
     concat chunks = EncodeResponse reference_boost ''now'' (file_response ''hi'') @ ''hi'' \<and>
     listening 13 3 30 (0 + (30 - 0)) w3 \<and>
     conns w3 16 = None \<and> srv_connections w3 = srv_connections demo_http \<and> p_channels w3 = p_channels demo_http"
proof (rule request_served [where sb = "plain_file 2" and psx = demo_files and wakeup = demo_wakeup and v = demo_calls
      and base = "''/w''" and os = demo_net,
      OF demo_http_listens(1) _ _ _ _ _ _ _ _ _ _ _ _ reference_boost_documented _ demo_request_def demo_request_short])
  show "verdict demo_files ''/w'' ''GET'' ''/a'' 1 0 (map_of (lowered []) ''host'') = Inr ''/a''"
    unfolding demo_files_def by (rule example_verdict) (simp_all add: lacks_dots c_str_def)
  show "length (EncodeResponse reference_boost ''now'' (file_response ''hi'')) \<le> 2 ^ 60"
    using demo_head_short by simp
  show "demo_round = (\<lambda>ev now. loop_round (run_functor demo_net demo_calls) (handle_active demo_wakeup demo_net demo_calls)
      (Some [ev], now))"
    by (simp add: demo_round_def fun_eq_iff)
qed (simp_all add: demo_http_listens os_accepts_def demo_net_def easy_net_def request_ok_def token_ok_def lowered_def
    demo_wakeup_def Channel_init_def demo_calls_def demo_files_def one_file_def c_str_def zero_copy_file_min_size_def)

end
